(* ===== verification/Prelude.thy ===== *)
theory Prelude
  imports Main "HOL-Library.While_Combinator" "HOL-Library.Word"
begin

text \<open>
  Shared vocabulary of the development: the result type of operations that can fail or
  diverge, the loop over a container that threads a state (\<open>foldM\<close>), the worklist loop
  that the analyses of the repository use (pop the front, skip what was processed, process,
  push the new items), and a small total-correctness calculus (\<open>returns\<close>).
\<close>

section \<open>Proof collections\<close>

named_theorems res_simps \<open>simplification of results\<close>
named_theorems returnsI \<open>introduction rules of the total-correctness calculus\<close>

section \<open>Machine types of the source\<close>

text \<open>
  Every object the program handles through a pointer (\<open>Value\<close>, \<open>Instruction\<close>,
  \<open>BasicBlock\<close>, \<open>Function\<close>, \<open>Type\<close>) is named by its address; the ordered containers of the
  source (\<open>std::set\<close>, \<open>std::map\<close>) compare these addresses.
\<close>

type_synonym ptr = nat
type_synonym int32 = "32 word"
type_synonym uint32 = "32 word"
type_synonym int8 = "8 word"
type_synonym size_t = "64 word"

abbreviation NULL :: ptr where "NULL \<equiv> 0"

text \<open>A null test stays a disequation.\<close>

declare neq0_conv [iff del]

section \<open>Results\<close>

text \<open>
  \<open>Inl\<close> is an execution that does not return a value: it never ends, it fails an assertion,
  it dereferences a null pointer, it reads an operand that does not exist, or it reads a
  variable that was never set.
\<close>

datatype fault = Diverges | AssertFail | NullDeref | OutOfRange | Uninitialised

type_synonym 'a res = "fault + 'a"

fun rbind :: "'a res \<Rightarrow> ('a \<Rightarrow> 'b res) \<Rightarrow> 'b res" where
  "rbind (Inl e) f = Inl e"
| "rbind (Inr x) f = f x"

lemma rbind_Inr_iff [res_simps]: "rbind m f = Inr y \<longleftrightarrow> (\<exists>x. m = Inr x \<and> f x = Inr y)"
  by (cases m) auto

text \<open>Elimination of a run that returns, branch by branch.\<close>

lemma rbindE: "rbind m f = Inr y \<Longrightarrow> (\<And>x. m = Inr x \<Longrightarrow> f x = Inr y \<Longrightarrow> R) \<Longrightarrow> R"
  by (cases m) auto

lemma ifE: "(if b then x else y) = z \<Longrightarrow> (b \<Longrightarrow> x = z \<Longrightarrow> R) \<Longrightarrow> (\<not> b \<Longrightarrow> y = z \<Longrightarrow> R) \<Longrightarrow> R"
  by (cases b) auto

lemma rbind_Inl_iff [res_simps]:
  "rbind m f = Inl e \<longleftrightarrow> m = Inl e \<or> (\<exists>x. m = Inr x \<and> f x = Inl e)"
  by (cases m) auto

lemma rbind_cong [fundef_cong]:
  "m = m' \<Longrightarrow> (\<And>x. m' = Inr x \<Longrightarrow> f x = g x) \<Longrightarrow> rbind m f = rbind m' g"
  by (cases m') auto

text \<open>The loop over a container: the body threads the state and may fail.\<close>

primrec foldM :: "('a \<Rightarrow> 's \<Rightarrow> 's res) \<Rightarrow> 'a list \<Rightarrow> 's \<Rightarrow> 's res" where
  "foldM f [] s = Inr s"
| "foldM f (x # xs) s = rbind (f x s) (foldM f xs)"

lemma foldM_append: "foldM f (xs @ ys) s = rbind (foldM f xs s) (foldM f ys)"
  by (induction xs arbitrary: s) (auto, metis rbind.simps sum.exhaust)

lemma foldM_cong [fundef_cong]:
  "xs = ys \<Longrightarrow> s = t \<Longrightarrow> (\<And>x u. x \<in> set ys \<Longrightarrow> f x u = g x u) \<Longrightarrow> foldM f xs s = foldM g ys t"
  by (induction xs arbitrary: ys s t) (auto intro!: rbind_cong)

lemma foldM_total: "(\<And>x s. f x s = Inr (g x s)) \<Longrightarrow> foldM f xs s = Inr (fold g xs s)"
  by (induction xs arbitrary: s) auto

section \<open>Total correctness of results\<close>

text \<open>\<open>returns r Q\<close>: the execution returns, and its value satisfies \<open>Q\<close>.\<close>

definition returns :: "'a res \<Rightarrow> ('a \<Rightarrow> bool) \<Rightarrow> bool" where
  "returns r Q = (case r of Inl _ \<Rightarrow> False | Inr x \<Rightarrow> Q x)"

lemma returns_Inr [simp]: "returns (Inr x) Q = Q x"
  by (simp add: returns_def)

lemma returns_Inl [simp]: "\<not> returns (Inl e) Q"
  by (simp add: returns_def)

lemma returnsE: "returns r Q \<Longrightarrow> (\<And>x. r = Inr x \<Longrightarrow> Q x \<Longrightarrow> R) \<Longrightarrow> R"
  by (cases r) (auto simp: returns_def)

lemma returnsE2:
  "returns r (\<lambda>(a, b). Q a b) \<Longrightarrow> (\<And>a b. r = Inr (a, b) \<Longrightarrow> Q a b \<Longrightarrow> R) \<Longrightarrow> R"
  by (cases r) (auto simp: returns_def)

lemma returns_iff: "returns r Q \<longleftrightarrow> (\<exists>x. r = Inr x \<and> Q x)"
  by (cases r) (auto simp: returns_def)

lemma returns_mono: "returns r Q \<Longrightarrow> (\<And>x. Q x \<Longrightarrow> R x) \<Longrightarrow> returns r R"
  by (auto simp: returns_iff)

lemma returns_rbind [returnsI]:
  "returns m R \<Longrightarrow> (\<And>x. R x \<Longrightarrow> returns (f x) Q) \<Longrightarrow> returns (rbind m f) Q"
  by (auto simp: returns_iff)

text \<open>The loop rule: an invariant every iteration keeps and under which it returns.\<close>

lemma returns_foldM:
  assumes "\<And>x s. x \<in> set xs \<Longrightarrow> Q s \<Longrightarrow> returns (f x s) Q" and "Q s"
  shows "returns (foldM f xs s) Q"
  using assms by (induction xs arbitrary: s) (auto intro: returns_rbind)

text \<open>The loop rule with an invariant that counts the processed elements.\<close>

lemma returns_foldM_seen:
  assumes "\<And>ys x zs s. xs = ys @ x # zs \<Longrightarrow> Q (set ys) s \<Longrightarrow> returns (f x s) (Q (insert x (set ys)))"
    and "Q {} s"
  shows "returns (foldM f xs s) (Q (set xs))"
  using assms(1)
proof (induction xs rule: rev_induct)
  case Nil
  with assms(2) show ?case by simp
next
  case (snoc x xs)
  have "returns (foldM f xs s) (Q (set xs))"
    by (rule snoc.IH) (auto intro: snoc.prems)
  then show ?case
    by (auto simp: foldM_append intro!: returns_rbind snoc.prems)
qed

section \<open>The worklist loop\<close>

text \<open>
  \<^verbatim>\<open>
  while (!EL.empty()) {
    T = EL.front(); EL.pop_front();
    if (PL.count(key(T)) != 0) continue;
    PL.insert(key(T));
    ...                       // body: may push, may stop the loop
  }
  \<close>
  A state of the loop is the queue, the set of processed keys and the state of the body.
\<close>

type_synonym ('a, 'k, 's) wlstate = "'a list \<times> 'k set \<times> 's"

definition wl_step ::
  "('a \<Rightarrow> 'k) \<Rightarrow> ('a \<Rightarrow> 's \<Rightarrow> ('a list \<times> 's) res) \<Rightarrow> ('a, 'k, 's) wlstate \<Rightarrow> ('a, 'k, 's) wlstate res"
where
  "wl_step key body st = (case st of (q, P, s) \<Rightarrow>
     (case q of
        [] \<Rightarrow> Inr (q, P, s)
      | x # q' \<Rightarrow>
          if key x \<in> P then Inr (q', P, s)
          else rbind (body x s) (\<lambda>(new, s'). Inr (q' @ new, insert (key x) P, s'))))"

definition wl_running :: "('s \<Rightarrow> bool) \<Rightarrow> ('a, 'k, 's) wlstate res \<Rightarrow> bool" where
  "wl_running stop r = (case r of Inl _ \<Rightarrow> False | Inr (q, P, s) \<Rightarrow> q \<noteq> [] \<and> \<not> stop s)"

definition worklist_from ::
  "('s \<Rightarrow> bool) \<Rightarrow> ('a \<Rightarrow> 'k) \<Rightarrow> ('a \<Rightarrow> 's \<Rightarrow> ('a list \<times> 's) res) \<Rightarrow> 'a list \<Rightarrow> 'k set \<Rightarrow> 's \<Rightarrow>
   ('k set \<times> 's) res"
where
  "worklist_from stop key body q PL s =
     (case while_option (wl_running stop) (\<lambda>r. rbind r (wl_step key body)) (Inr (q, PL, s)) of
        None \<Rightarrow> Inl Diverges
      | Some r \<Rightarrow> rbind r (\<lambda>(q, P, s). Inr (P, s)))"

text \<open>Most loops start with no processed key.\<close>

definition worklist ::
  "('s \<Rightarrow> bool) \<Rightarrow> ('a \<Rightarrow> 'k) \<Rightarrow> ('a \<Rightarrow> 's \<Rightarrow> ('a list \<times> 's) res) \<Rightarrow> 'a list \<Rightarrow> 's \<Rightarrow> ('k set \<times> 's) res"
where
  "worklist stop key body q s = worklist_from stop key body q {} s"

text \<open>A loop over a container that stops at the first element the test accepts.\<close>

fun anyM :: "('a \<Rightarrow> bool res) \<Rightarrow> 'a list \<Rightarrow> bool res" where
  "anyM f [] = Inr False"
| "anyM f (x # xs) = rbind (f x) (\<lambda>b. if b then Inr True else anyM f xs)"

lemma anyM_Inr: "(\<And>x. x \<in> set xs \<Longrightarrow> f x = Inr (g x)) \<Longrightarrow> anyM f xs = Inr (\<exists>x \<in> set xs. g x)"
  by (induction xs) auto

lemma anyM_cong [fundef_cong]:
  "xs = ys \<Longrightarrow> (\<And>x. x \<in> set ys \<Longrightarrow> f x = g x) \<Longrightarrow> anyM f xs = anyM g ys"
  by (induction xs arbitrary: ys) (auto intro!: rbind_cong)

text \<open>The concatenation of what a fallible function yields on the elements of a container.\<close>

fun concatM :: "('a \<Rightarrow> 'b list res) \<Rightarrow> 'a list \<Rightarrow> 'b list res" where
  "concatM f [] = Inr []"
| "concatM f (x # xs) = rbind (f x) (\<lambda>ys. rbind (concatM f xs) (\<lambda>zs. Inr (ys @ zs)))"

lemma concatM_Inr: "(\<And>x. x \<in> set xs \<Longrightarrow> f x = Inr (g x)) \<Longrightarrow> concatM f xs = Inr (concat (map g xs))"
  by (induction xs) auto

lemma concatM_result:
  "concatM f xs = Inr ys \<Longrightarrow> set ys = (\<Union>x \<in> set xs. case f x of Inl _ \<Rightarrow> {} | Inr zs \<Rightarrow> set zs)"
  by (induction xs arbitrary: ys) (auto simp: rbind_Inr_iff)

lemma concatM_defined: "concatM f xs = Inr ys \<Longrightarrow> x \<in> set xs \<Longrightarrow> \<exists>zs. f x = Inr zs"
  by (induction xs arbitrary: ys) (auto simp: rbind_Inr_iff)

abbreviation never_stop :: "'s \<Rightarrow> bool" where
  "never_stop \<equiv> (\<lambda>_. False)"

end
