(* ===== verification/Worklist.thy ===== *)
theory Worklist
  imports Prelude
begin

text \<open>
  The worklist loop as an interface. \<open>worklist_total\<close> is the contract of a loop body whose
  pushes stay in a finite universe: the loop returns and keeps the body's invariant.
  \<open>worklist_search\<close> extends it for bodies that push a fixed neighbourhood: the processed
  set is then exactly the set reachable from the initial queue.
\<close>

section \<open>The loop rule\<close>

text \<open>
  The loop ends because every processed item adds a key of the finite universe \<open>U\<close> to the
  processed set, and every skipped item shortens the queue.
\<close>

definition wl_measure :: "'k set \<Rightarrow> ('a, 'k, 's) wlstate res \<Rightarrow> nat \<times> nat" where
  "wl_measure U r = (case r of Inl _ \<Rightarrow> (0, 0) | Inr (q, P, s) \<Rightarrow> (card (U - P), length q))"

lemma wl_running_simps [simp]:
  "\<not> wl_running stop (Inl e)"
  "wl_running stop (Inr (q, P, s)) \<longleftrightarrow> q \<noteq> [] \<and> \<not> stop s"
  by (auto simp: wl_running_def)

lemma wl_step_seen: "key x \<in> P \<Longrightarrow> wl_step key body (x # q, P, s) = Inr (q, P, s)"
  by (simp add: wl_step_def)

lemma wl_step_new:
  "key x \<notin> P \<Longrightarrow> body x s = Inr (new, s') \<Longrightarrow>
   wl_step key body (x # q, P, s) = Inr (q @ new, insert (key x) P, s')"
  by (simp add: wl_step_def)

lemma wl_step_fault:
  "key x \<notin> P \<Longrightarrow> body x s = Inl e \<Longrightarrow> wl_step key body (x # q, P, s) = Inl e"
  by (simp add: wl_step_def)

lemma worklist_rule:
  fixes Inv :: "'a list \<Rightarrow> 'k set \<Rightarrow> 's \<Rightarrow> bool"
  assumes fin: "finite U"
    and init: "Inv q PL s"
    and seen: "\<And>x q P s. Inv (x # q) P s \<Longrightarrow> \<not> stop s \<Longrightarrow> key x \<in> P \<Longrightarrow> Inv q P s"
    and new: "\<And>x q P s. Inv (x # q) P s \<Longrightarrow> \<not> stop s \<Longrightarrow> key x \<notin> P \<Longrightarrow>
      key x \<in> U \<and> returns (body x s) (\<lambda>(new, s'). Inv (q @ new) (insert (key x) P) s')"
  shows "returns (worklist_from stop key body q PL s) (\<lambda>(P, s'). \<exists>q'. Inv q' P s' \<and> (q' = [] \<or> stop s'))"
proof -
  let ?b = "wl_running stop" and ?c = "\<lambda>r. rbind r (wl_step key body)"
  let ?I = "\<lambda>r. \<exists>q P s. r = Inr (q, P, s) \<and> Inv q P s"
  let ?R = "inv_image (less_than <*lex*> less_than) (wl_measure U)"
  have step: "?I (?c r) \<and> (?c r, r) \<in> ?R" if "?I r \<and> ?b r" for r
  proof -
    from that obtain x q P s where r: "r = Inr (x # q, P, s)" and I: "Inv (x # q) P s" "\<not> stop s"
      by (auto simp: neq_Nil_conv)
    show ?thesis
    proof (cases "key x \<in> P")
      case True
      with seen [OF I True] show ?thesis
        by (simp add: r wl_step_seen wl_measure_def)
    next
      case False
      from new [OF I False] obtain nw s' where b: "body x s = Inr (nw, s')"
        and I': "Inv (q @ nw) (insert (key x) P) s'" and U: "key x \<in> U"
        by (auto elim: returnsE)
      from fin U False have "card (U - insert (key x) P) < card (U - P)"
        by (intro psubset_card_mono) auto
      with b I' False show ?thesis
        by (simp add: r wl_step_new wl_measure_def)
    qed
  qed
  have wf: "wf ?R" by (intro wf_inv_image wf_lex_prod wf_less_than)
  have i0: "?I (Inr (q, PL, s))" using init by simp
  have "\<exists>t. while_option ?b ?c (Inr (q, PL, s)) = Some t"
    by (rule wf_rel_while_option_Some [of ?R ?I ?b ?c, OF wf _ _ i0]) (use step in blast)+
  then obtain t where t: "while_option ?b ?c (Inr (q, PL, s)) = Some t" by blast
  have "?I t" by (rule while_option_rule [where P = ?I, OF _ t i0]) (use step in blast)
  moreover have "\<not> ?b t" by (rule while_option_stop [OF t])
  ultimately show ?thesis using t by (auto simp: worklist_from_def)
qed

section \<open>Loops that return\<close>

locale worklist_total =
  fixes stop :: "'s \<Rightarrow> bool" and key :: "'a \<Rightarrow> 'k"
    and body :: "'a \<Rightarrow> 's \<Rightarrow> ('a list \<times> 's) res"
    and U :: "'k set" and valid :: "'a \<Rightarrow> bool" and I :: "'k set \<Rightarrow> 's \<Rightarrow> bool"
  assumes finite_universe: "finite U"
    and key_in_universe: "valid x \<Longrightarrow> key x \<in> U"
    and body_returns: "valid x \<Longrightarrow> I P s \<Longrightarrow> \<not> stop s \<Longrightarrow> key x \<notin> P \<Longrightarrow>
      returns (body x s) (\<lambda>(new, s'). (\<forall>y \<in> set new. valid y) \<and> I (insert (key x) P) s')"
begin

lemma loop_from_returns:
  assumes "\<forall>x \<in> set q. valid x" and "I PL s"
  shows "returns (worklist_from stop key body q PL s) (\<lambda>(P, s'). P \<subseteq> U \<union> PL \<and> I P s')"
proof -
  let ?Inv = "\<lambda>q P s. (\<forall>x \<in> set q. valid x) \<and> P \<subseteq> U \<union> PL \<and> I P s"
  have "returns (worklist_from stop key body q PL s)
      (\<lambda>(P, s'). \<exists>q'. ?Inv q' P s' \<and> (q' = [] \<or> stop s'))"
  proof (rule worklist_rule [where U = U])
    fix x q P s
    assume *: "?Inv (x # q) P s" "\<not> stop s" "key x \<notin> P"
    then have "key x \<in> U" by (auto intro: key_in_universe)
    moreover from * have "returns (body x s)
        (\<lambda>(new, s'). (\<forall>y \<in> set new. valid y) \<and> I (insert (key x) P) s')"
      by (intro body_returns) auto
    ultimately show "key x \<in> U \<and>
        returns (body x s) (\<lambda>(new, s'). ?Inv (q @ new) (insert (key x) P) s')"
      using * by (auto elim!: returns_mono)
  qed (use assms finite_universe in auto)
  then show ?thesis by (auto elim!: returns_mono)
qed

lemma loop_returns:
  assumes "\<forall>x \<in> set q. valid x" and "I {} s"
  shows "returns (worklist stop key body q s) (\<lambda>(P, s'). P \<subseteq> U \<and> I P s')"
  using loop_from_returns [OF assms] by (simp add: worklist_def)

end

section \<open>Loops that compute a reachable set\<close>

definition reach_set :: "('a \<Rightarrow> 'a set) \<Rightarrow> 'a set \<Rightarrow> 'a set" where
  "reach_set nxt S = {y. \<exists>x \<in> S. (x, y) \<in> {(a, b). b \<in> nxt a}\<^sup>*}"

lemma reach_set_base: "x \<in> S \<Longrightarrow> x \<in> reach_set nxt S"
  by (auto simp: reach_set_def)

lemma reach_set_step: "x \<in> reach_set nxt S \<Longrightarrow> y \<in> nxt x \<Longrightarrow> y \<in> reach_set nxt S"
  by (auto simp: reach_set_def intro: rtrancl_into_rtrancl)

lemma reach_set_least:
  assumes "S \<subseteq> X" and "\<And>x. x \<in> X \<Longrightarrow> nxt x \<subseteq> X"
  shows "reach_set nxt S \<subseteq> X"
proof
  fix y assume "y \<in> reach_set nxt S"
  then obtain x where "x \<in> S" and "(x, y) \<in> {(a, b). b \<in> nxt a}\<^sup>*"
    by (auto simp: reach_set_def)
  from this(2,1) assms show "y \<in> X" by induction auto
qed

lemma reach_set_eqI:
  assumes "S \<subseteq> X" and "X \<subseteq> reach_set nxt S" and "\<And>x. x \<in> X \<Longrightarrow> nxt x \<subseteq> X"
  shows "X = reach_set nxt S"
  using assms reach_set_least [of S X nxt] by blast

lemma reach_set_mono: "S \<subseteq> T \<Longrightarrow> reach_set nxt S \<subseteq> reach_set nxt T"
  by (auto simp: reach_set_def)

lemma reach_set_closed: "x \<in> reach_set nxt S \<Longrightarrow> nxt x \<subseteq> reach_set nxt S"
  by (auto intro: reach_set_step)

lemma reach_set_induct [consumes 1, case_names base step]:
  assumes "y \<in> reach_set nxt S" and "\<And>x. x \<in> S \<Longrightarrow> P x"
    and "\<And>x y. x \<in> reach_set nxt S \<Longrightarrow> P x \<Longrightarrow> y \<in> nxt x \<Longrightarrow> P y"
  shows "P y"
proof -
  have "reach_set nxt S \<subseteq> {y \<in> reach_set nxt S. P y}"
    by (rule reach_set_least) (auto intro: assms reach_set_step reach_set_base)
  with assms(1) show ?thesis by blast
qed

text \<open>Neighbourhoods that agree on a closed set reach the same.\<close>

lemma reach_set_cong_subset:
  assumes "S \<subseteq> X" and "\<And>x. x \<in> X \<Longrightarrow> f x \<subseteq> X" and "\<And>x. x \<in> X \<Longrightarrow> f x = g x"
  shows "reach_set f S \<subseteq> reach_set g S"
proof
  fix y assume y: "y \<in> reach_set f S"
  have X: "reach_set f S \<subseteq> X" by (rule reach_set_least [OF assms(1,2)])
  from y show "y \<in> reach_set g S"
  proof (induction rule: reach_set_induct)
    case (step x y)
    then have "y \<in> g x" using X assms(3) by blast
    with step.IH show ?case by (rule reach_set_step)
  qed (rule reach_set_base)
qed

lemma reach_set_cong:
  assumes "S \<subseteq> X" and "\<And>x. x \<in> X \<Longrightarrow> f x \<subseteq> X" and "\<And>x. x \<in> X \<Longrightarrow> f x = g x"
  shows "reach_set f S = reach_set g S"
proof (rule equalityI)
  show "reach_set f S \<subseteq> reach_set g S" by (rule reach_set_cong_subset [OF assms])
  show "reach_set g S \<subseteq> reach_set f S"
    by (rule reach_set_cong_subset [OF assms(1)]) (use assms(2,3) in simp_all)
qed

text \<open>
  Acyclic neighbourhoods: the reachable set shrinks along every edge, so a recursion that
  follows the edges with more fuel than reachable nodes does not run out of fuel.
\<close>

lemma reach_set_unfold: "reach_set nxt {v} = insert v (\<Union>c \<in> nxt v. reach_set nxt {c})"
proof (rule sym, rule reach_set_eqI)
  show "insert v (\<Union>c \<in> nxt v. reach_set nxt {c}) \<subseteq> reach_set nxt {v}"
  proof -
    have "reach_set nxt {c} \<subseteq> reach_set nxt {v}" if "c \<in> nxt v" for c
      using that by (intro reach_set_least) (auto intro: reach_set_step reach_set_base)
    then show ?thesis by (auto intro: reach_set_base)
  qed
next
  fix x assume "x \<in> insert v (\<Union>c \<in> nxt v. reach_set nxt {c})"
  then show "nxt x \<subseteq> insert v (\<Union>c \<in> nxt v. reach_set nxt {c})"
    by (auto intro: reach_set_step reach_set_base)
qed simp

lemma reach_set_Union: "S \<union> (\<Union>x \<in> reach_set nxt S. nxt x) = reach_set nxt S"
proof
  show "S \<union> (\<Union>x \<in> reach_set nxt S. nxt x) \<subseteq> reach_set nxt S"
    using reach_set_base [of _ S nxt] reach_set_step [of _ nxt S] by blast
  show "reach_set nxt S \<subseteq> S \<union> (\<Union>x \<in> reach_set nxt S. nxt x)"
  proof
    fix y assume "y \<in> reach_set nxt S"
    then show "y \<in> S \<union> (\<Union>x \<in> reach_set nxt S. nxt x)" by (induction rule: reach_set_induct) blast+
  qed
qed

lemma reach_set_Un: "reach_set nxt (S \<union> T) = reach_set nxt S \<union> reach_set nxt T"
  unfolding reach_set_def by blast

lemma reach_set_insert: "reach_set nxt (insert v S) = insert v (reach_set nxt (nxt v \<union> S))"
proof -
  have "reach_set nxt {v} = insert v (reach_set nxt (nxt v))"
    unfolding reach_set_unfold [of nxt v] by (auto simp: reach_set_def)
  then show ?thesis
    using reach_set_Un [of nxt "{v}" S] reach_set_Un [of nxt "nxt v" S] by simp
qed

lemma reach_set_trans: "c \<in> reach_set nxt {v} \<Longrightarrow> reach_set nxt {c} \<subseteq> reach_set nxt {v}"
  by (rule reach_set_least) (auto intro: reach_set_step)

lemma reach_set_shrinks:
  assumes "acyclic {(a, b). b \<in> nxt a}" and "c \<in> nxt v"
  shows "reach_set nxt {c} \<subset> reach_set nxt {v}"
proof -
  have "v \<notin> reach_set nxt {c}"
  proof
    assume "v \<in> reach_set nxt {c}"
    then have "(c, v) \<in> {(a, b). b \<in> nxt a}\<^sup>*" by (simp add: reach_set_def)
    moreover from assms(2) have "(v, c) \<in> {(a, b). b \<in> nxt a}" by simp
    ultimately have "(v, v) \<in> {(a, b). b \<in> nxt a}\<^sup>+" by (rule rtrancl_into_trancl2 [rotated])
    with assms(1) show False by (simp add: acyclic_def)
  qed
  moreover have "v \<in> reach_set nxt {v}" by (simp add: reach_set_base)
  moreover have "reach_set nxt {c} \<subseteq> reach_set nxt {v}"
    using assms(2) by (intro reach_set_trans) (auto intro: reach_set_step reach_set_base)
  ultimately show ?thesis by blast
qed

lemma reach_fuel_step:
  assumes "acyclic {(a, b). b \<in> nxt a}" "finite (reach_set nxt {v})"
    and "card (reach_set nxt {v}) \<le> Suc n" "c \<in> nxt v"
  shows "card (reach_set nxt {c}) \<le> n" and "finite (reach_set nxt {c})"
  using psubset_card_mono [OF assms(2) reach_set_shrinks [OF assms(1,4)]]
    reach_set_shrinks [OF assms(1,4)] assms(2,3) finite_subset
  by (auto simp: less_le)

lemma reach_card_pos: "finite (reach_set nxt {v}) \<Longrightarrow> 0 < card (reach_set nxt {v})"
  by (auto simp: card_gt_0_iff intro: reach_set_base)

text \<open>
  \<open>worklist_find\<close>: a body that pushes the neighbourhood \<open>nxt\<close> of its key unless it stops the
  loop. A loop that was not stopped has processed exactly the reachable keys; a stopped one
  only reachable keys. The keys \<open>PL\<close> processed before the loop must be closed.
\<close>

locale worklist_find = worklist_total stop key body U valid I
  for stop :: "'s \<Rightarrow> bool" and key :: "'a \<Rightarrow> 'k"
    and body :: "'a \<Rightarrow> 's \<Rightarrow> ('a list \<times> 's) res" and U valid I +
  fixes nxt :: "'k \<Rightarrow> 'k set"
  assumes pushes: "valid x \<Longrightarrow> I P s \<Longrightarrow> \<not> stop s \<Longrightarrow> key x \<notin> P \<Longrightarrow> body x s = Inr (new, s') \<Longrightarrow>
    key ` set new \<subseteq> nxt (key x) \<and> (\<not> stop s' \<longrightarrow> key ` set new = nxt (key x))"
begin

lemma loop_from_finds:
  assumes "\<forall>x \<in> set q. valid x" and "I PL s" and "\<And>x. x \<in> PL \<Longrightarrow> nxt x \<subseteq> PL"
  shows "returns (worklist_from stop key body q PL s)
    (\<lambda>(P, s'). P \<subseteq> PL \<union> reach_set nxt (key ` set q) \<and>
       (\<not> stop s' \<longrightarrow> P = PL \<union> reach_set nxt (key ` set q)) \<and> I P s')"
proof -
  let ?R = "PL \<union> reach_set nxt (key ` set q)"
  let ?Inv = "\<lambda>q' P s. (\<forall>x \<in> set q'. valid x) \<and> I P s \<and> key ` set q' \<union> P \<subseteq> ?R \<and>
    (\<not> stop s \<longrightarrow> PL \<subseteq> P \<and> key ` set q \<subseteq> key ` set q' \<union> P \<and> (\<forall>x \<in> P. nxt x \<subseteq> key ` set q' \<union> P))"
  have closed: "x \<in> ?R \<Longrightarrow> nxt x \<subseteq> ?R" for x
    using assms(3) reach_set_closed [of x nxt "key ` set q"] by blast
  have "returns (worklist_from stop key body q PL s)
    (\<lambda>(P, s'). \<exists>q'. ?Inv q' P s' \<and> (q' = [] \<or> stop s'))"
  proof (rule worklist_rule [where U = U])
    fix x q' P s
    assume *: "?Inv (x # q') P s" "\<not> stop s" "key x \<notin> P"
    then have "returns (body x s) (\<lambda>(new, s'). (\<forall>y \<in> set new. valid y) \<and> I (insert (key x) P) s')"
      by (intro body_returns) auto
    then obtain new s' where b: "body x s = Inr (new, s')" "\<forall>y \<in> set new. valid y"
        "I (insert (key x) P) s'"
      by (auto elim: returnsE)
    with * have n: "key ` set new \<subseteq> nxt (key x) \<and> (\<not> stop s' \<longrightarrow> key ` set new = nxt (key x))"
      by (intro pushes) auto
    from * have "key x \<in> ?R" by simp
    with n closed have "key ` set new \<subseteq> ?R" by blast
    moreover have "PL \<subseteq> insert (key x) P \<and> key ` set q \<subseteq> key ` set (q' @ new) \<union> insert (key x) P \<and>
        (\<forall>y \<in> insert (key x) P. nxt y \<subseteq> key ` set (q' @ new) \<union> insert (key x) P)" if "\<not> stop s'"
    proof -
      from * have 1: "PL \<subseteq> P" "key ` set q \<subseteq> insert (key x) (key ` set q' \<union> P)"
        and 2: "\<And>y. y \<in> P \<Longrightarrow> nxt y \<subseteq> insert (key x) (key ` set q' \<union> P)" by auto
      from n that have 3: "nxt (key x) \<subseteq> key ` set new" by blast
      show ?thesis using 1 2 3 unfolding set_append image_Un by blast
    qed
    ultimately show "key x \<in> U \<and>
        returns (body x s) (\<lambda>(new, s'). ?Inv (q' @ new) (insert (key x) P) s')"
      using b * by (auto intro: key_in_universe)
  next
    show "?Inv q PL s" using assms by (auto intro: reach_set_base)
  next
    fix x q' P s assume "?Inv (x # q') P s" "key x \<in> P"
    then show "?Inv q' P s" by (auto simp: insert_absorb)
  qed (use finite_universe in simp)
  then show ?thesis
  proof (rule returns_mono)
    fix r assume r: "(\<lambda>(P, s'). \<exists>q'. ?Inv q' P s' \<and> (q' = [] \<or> stop s')) r"
    obtain P s' where [simp]: "r = (P, s')" by (cases r)
    from r have 1: "I P s'" "P \<subseteq> ?R"
      and 2: "\<not> stop s' \<Longrightarrow> PL \<subseteq> P \<and> key ` set q \<subseteq> P \<and> (\<forall>x \<in> P. nxt x \<subseteq> P)" by auto
    have "?R \<subseteq> P" if "\<not> stop s'"
      using 2 [OF that] reach_set_least [of "key ` set q" P nxt] by blast
    with 1 show "(\<lambda>(P, s'). P \<subseteq> ?R \<and> (\<not> stop s' \<longrightarrow> P = ?R) \<and> I P s') r" by auto
  qed
qed

lemma loop_finds:
  assumes "\<forall>x \<in> set q. valid x" and "I {} s"
  shows "returns (worklist stop key body q s)
    (\<lambda>(P, s'). P \<subseteq> reach_set nxt (key ` set q) \<and>
       (\<not> stop s' \<longrightarrow> P = reach_set nxt (key ` set q)) \<and> I P s')"
  using loop_from_finds [OF assms] by (simp add: worklist_def)

end

text \<open>\<open>worklist_search\<close>: a search that nothing stops, over items that are their own keys.\<close>

locale worklist_search = worklist_total never_stop "\<lambda>x. x" body U valid I
  for body :: "'a \<Rightarrow> 's \<Rightarrow> ('a list \<times> 's) res" and U valid I +
  fixes nxt :: "'a \<Rightarrow> 'a set"
  assumes pushes: "valid x \<Longrightarrow> I P s \<Longrightarrow> x \<notin> P \<Longrightarrow> body x s = Inr (new, s') \<Longrightarrow> set new = nxt x"
begin

sublocale find: worklist_find never_stop "\<lambda>x. x" body U valid I nxt
  by unfold_locales (simp add: pushes)

lemma loop_reaches:
  assumes "\<forall>x \<in> set q. valid x" and "I {} s"
  shows "returns (worklist never_stop (\<lambda>x. x) body q s)
    (\<lambda>(P, s'). P = reach_set nxt (set q) \<and> I P s')"
  using find.loop_finds [OF assms] by (auto elim!: returns_mono)

end

end
