(* ===== verification/LLVM_IR.thy ===== *)
theory LLVM_IR
  imports Worklist
begin

text \<open>
  The interface of LLVM 10, as the analyses read it. LLVM is not part of the repository, so
  it is a parameter: a record of the accessor functions the sources call (\<open>isa\<close>,
  \<open>Value::users\<close>, \<open>Instruction::getParent\<close>, \<open>BasicBlock::getTerminator\<close>, \dots), each field
  under the name of the LLVM accessor. Nothing is assumed about a field where a definition
  uses it; what LLVM documents about them is stated at the end as named predicates
  (\<open>wf_cfg\<close>, \<open>wf_classes\<close>, \dots) that properties take as hypotheses where they need them.
\<close>

section \<open>The class names the sources test with isa and dyn\_cast\<close>

datatype llvm_class =
    Argument | GlobalVariable | FunctionValue | InlineAsm
  | Constant | ConstantInt | ConstantExpr | ConstantPointerNull | ConstantAggregate
  | Instruction | UnaryInstruction | BinaryOperator | AllocaInst | LoadInst | StoreInst
  | GetElementPtrInst | GEPOperator | CastInst | CallInst | InvokeInst | SelectInst | PHINode
  | CmpInst | ICmpInst | FCmpInst | BranchInst | SwitchInst | ReturnInst
  | ExtractElementInst | InsertElementInst | ExtractValueInst | InsertValueInst
  | ShuffleVectorInst | UserClass | DILocation

text \<open>\<open>CmpInst::Predicate\<close>, as far as the sources distinguish it.\<close>

datatype cmp_pred =
    P_ICMP_EQ | P_ICMP_NE | P_ICMP_UGT | P_ICMP_UGE | P_ICMP_ULT | P_ICMP_ULE
  | P_ICMP_SGT | P_ICMP_SGE | P_ICMP_SLT | P_ICMP_SLE | P_FCMP nat

datatype alias_result = NoAlias | MayAlias | PartialAlias | MustAlias

section \<open>The accessors\<close>

record llvm =
  \<comment> \<open>\<open>Value\<close> and \<open>User\<close>\<close>
  isa :: "llvm_class \<Rightarrow> ptr \<Rightarrow> bool"
  users :: "ptr \<Rightarrow> ptr list"
  operands :: "ptr \<Rightarrow> ptr list"
  typeOf :: "ptr \<Rightarrow> ptr"
  nameOf :: "ptr \<Rightarrow> string"
  hasName :: "ptr \<Rightarrow> bool"
  \<comment> \<open>\<open>Instruction\<close> and its subclasses\<close>
  getParent :: "ptr \<Rightarrow> ptr"
  pointerOperand :: "ptr \<Rightarrow> ptr"
  valueOperand :: "ptr \<Rightarrow> ptr"
  condition :: "ptr \<Rightarrow> ptr"
  trueValue :: "ptr \<Rightarrow> ptr"
  falseValue :: "ptr \<Rightarrow> ptr"
  incoming :: "ptr \<Rightarrow> (ptr \<times> ptr) list"
  argOperands :: "ptr \<Rightarrow> ptr list"
  calledValue :: "ptr \<Rightarrow> ptr"
  calledFunction :: "ptr \<Rightarrow> ptr"
  isIndirectCall :: "ptr \<Rightarrow> bool"
  intrinsicID :: "ptr \<Rightarrow> uint32"
  predicate :: "ptr \<Rightarrow> cmp_pred"
  returnValue :: "ptr \<Rightarrow> ptr"
  succs :: "ptr \<Rightarrow> ptr list"
  sextValue :: "ptr \<Rightarrow> 64 word"
  asmString :: "ptr \<Rightarrow> string"
  \<comment> \<open>debug information\<close>
  dbgMetadata :: "ptr \<Rightarrow> ptr"
  diFilename :: "ptr \<Rightarrow> string"
  diLine :: "ptr \<Rightarrow> uint32"
  subprogram :: "ptr \<Rightarrow> ptr"
  \<comment> \<open>\<open>BasicBlock\<close>\<close>
  insts :: "ptr \<Rightarrow> ptr list"
  terminator :: "ptr \<Rightarrow> ptr"
  predecessors :: "ptr \<Rightarrow> ptr list"
  blockParent :: "ptr \<Rightarrow> ptr"
  \<comment> \<open>\<open>Function\<close> and \<open>Argument\<close>\<close>
  blocks :: "ptr \<Rightarrow> ptr list"
  args :: "ptr \<Rightarrow> ptr list"
  argParent :: "ptr \<Rightarrow> ptr"
  functionType :: "ptr \<Rightarrow> ptr"
  returnType :: "ptr \<Rightarrow> ptr"
  isVarArg :: "ptr \<Rightarrow> bool"
  isIntrinsic :: "ptr \<Rightarrow> bool"
  isDeclaration :: "ptr \<Rightarrow> bool"
  hasAddressTaken :: "ptr \<Rightarrow> bool"
  hasExternalLinkage :: "ptr \<Rightarrow> bool"
  \<comment> \<open>\<open>Module\<close>\<close>
  moduleFunctions :: "ptr \<Rightarrow> ptr list"
  moduleGlobals :: "ptr \<Rightarrow> ptr list"
  hasInitializer :: "ptr \<Rightarrow> bool"
  initializer :: "ptr \<Rightarrow> ptr"
  valueType :: "ptr \<Rightarrow> ptr"
  \<comment> \<open>\<open>Type\<close> and \<open>DataLayout\<close>\<close>
  isPointerTy :: "ptr \<Rightarrow> bool"
  isStructTy :: "ptr \<Rightarrow> bool"
  isArrayTy :: "ptr \<Rightarrow> bool"
  isVectorTy :: "ptr \<Rightarrow> bool"
  isIntegerTy :: "ptr \<Rightarrow> bool"
  elementType :: "ptr \<Rightarrow> ptr"
  integerBitWidth :: "ptr \<Rightarrow> nat"
  scalarSizeInBits :: "ptr \<Rightarrow> nat"
  structHasName :: "ptr \<Rightarrow> bool"
  structName :: "ptr \<Rightarrow> string"
  numElements :: "ptr \<Rightarrow> nat"
  isOpaque :: "ptr \<Rightarrow> bool"
  structSizeInBits :: "ptr \<Rightarrow> nat"
  typePrint :: "ptr \<Rightarrow> string"
  int8PtrTy :: ptr
  intPtrTy :: ptr
  \<comment> \<open>\<open>GEPOperator\<close>: \<open>hasAllConstantIndices\<close> and the value of the last index\<close>
  allConstantIndices :: "ptr \<Rightarrow> bool"
  lastIndex :: "ptr \<Rightarrow> int32"
  \<comment> \<open>the basic alias analysis of a function\<close>
  aliasQuery :: "ptr \<Rightarrow> ptr \<Rightarrow> alias_result"
  \<comment> \<open>the handle \<open>AAResults\<close> after the analysis has run over a module\<close>
  aliasResults :: "ptr \<Rightarrow> ptr"
  \<comment> \<open>\<open>std::hash<std::string>\<close> of the C++ library\<close>
  strHash :: "string \<Rightarrow> size_t"
  \<comment> \<open>iteration order of \<open>SmallPtrSet\<close>\<close>
  smallSetOrder :: "ptr set \<Rightarrow> ptr list"
  \<comment> \<open>every object that exists while the analysis runs\<close>
  heap :: "ptr list"

text \<open>
  \<open>heap\<close> lists the objects of the loaded modules. The program never reads it: it bounds the
  depth of the recursive searches (\<open>search_fuel\<close>), and the theorems prove the bound enough.
\<close>

definition search_fuel :: "llvm \<Rightarrow> nat" where
  "search_fuel ir = Suc (card (set (heap ir)))"

text \<open>\<open>successors(BB)\<close> of LLVM's \<open>CFG.h\<close> is the successor list of the terminator.\<close>

definition successors :: "llvm \<Rightarrow> ptr \<Rightarrow> ptr list" where
  "successors ir BB = succs ir (terminator ir BB)"

text \<open>\<open>inst_begin(F) .. inst_end(F)\<close>: the instructions of the blocks, in block order.\<close>

definition instructions :: "llvm \<Rightarrow> ptr \<Rightarrow> ptr list" where
  "instructions ir F = concat (map (insts ir) (blocks ir F))"

text \<open>An object in which every accessor answers nothing; concrete programs update it.\<close>

definition empty_ir :: llvm where
  "empty_ir =
    \<lparr> isa = (\<lambda>_ _. False), users = (\<lambda>_. []), operands = (\<lambda>_. []), typeOf = (\<lambda>_. NULL),
      nameOf = (\<lambda>_. []), hasName = (\<lambda>_. False),
      getParent = (\<lambda>_. NULL), pointerOperand = (\<lambda>_. NULL), valueOperand = (\<lambda>_. NULL),
      condition = (\<lambda>_. NULL), trueValue = (\<lambda>_. NULL), falseValue = (\<lambda>_. NULL),
      incoming = (\<lambda>_. []), argOperands = (\<lambda>_. []), calledValue = (\<lambda>_. NULL),
      calledFunction = (\<lambda>_. NULL), isIndirectCall = (\<lambda>_. False), intrinsicID = (\<lambda>_. 0),
      predicate = (\<lambda>_. P_FCMP 0), returnValue = (\<lambda>_. NULL), succs = (\<lambda>_. []),
      sextValue = (\<lambda>_. 0), asmString = (\<lambda>_. []),
      dbgMetadata = (\<lambda>_. NULL), diFilename = (\<lambda>_. []), diLine = (\<lambda>_. 0),
      subprogram = (\<lambda>_. NULL),
      insts = (\<lambda>_. []), terminator = (\<lambda>_. NULL), predecessors = (\<lambda>_. []),
      blockParent = (\<lambda>_. NULL),
      blocks = (\<lambda>_. []), args = (\<lambda>_. []), argParent = (\<lambda>_. NULL),
      functionType = (\<lambda>_. NULL), returnType = (\<lambda>_. NULL), isVarArg = (\<lambda>_. False),
      isIntrinsic = (\<lambda>_. False), isDeclaration = (\<lambda>_. True), hasAddressTaken = (\<lambda>_. False),
      hasExternalLinkage = (\<lambda>_. False), moduleFunctions = (\<lambda>_. []), moduleGlobals = (\<lambda>_. []),
      hasInitializer = (\<lambda>_. False), initializer = (\<lambda>_. NULL), valueType = (\<lambda>_. NULL),
      isPointerTy = (\<lambda>_. False), isStructTy = (\<lambda>_. False), isArrayTy = (\<lambda>_. False),
      isVectorTy = (\<lambda>_. False), isIntegerTy = (\<lambda>_. False), elementType = (\<lambda>_. NULL),
      integerBitWidth = (\<lambda>_. 0), scalarSizeInBits = (\<lambda>_. 0), structHasName = (\<lambda>_. False),
      structName = (\<lambda>_. []), numElements = (\<lambda>_. 0), isOpaque = (\<lambda>_. False),
      structSizeInBits = (\<lambda>_. 0), typePrint = (\<lambda>_. []), int8PtrTy = NULL, intPtrTy = NULL,
      allConstantIndices = (\<lambda>_. False), lastIndex = (\<lambda>_. 0),
      aliasQuery = (\<lambda>_ _. NoAlias), aliasResults = (\<lambda>_. NULL), strHash = (\<lambda>_. 0),
      smallSetOrder = (\<lambda>S. sorted_list_of_set S), heap = [] \<rparr>"

section \<open>What LLVM documents about the accessors\<close>

text \<open>
  The control-flow graph of a function: a block exists, has one terminator, which lies in it; the
  successors and predecessors of a block are blocks of the same function, and the two
  relations are converse.
\<close>

definition wf_cfg :: "llvm \<Rightarrow> ptr \<Rightarrow> bool" where
  "wf_cfg ir F \<longleftrightarrow>
     NULL \<notin> set (blocks ir F) \<and>
     (\<forall>b \<in> set (blocks ir F).
        getParent ir (terminator ir b) = b \<and>
        set (successors ir b) \<subseteq> set (blocks ir F) \<and>
        set (predecessors ir b) \<subseteq> set (blocks ir F) \<and>
        (\<forall>c \<in> set (blocks ir F). c \<in> set (predecessors ir b) \<longleftrightarrow> b \<in> set (successors ir c)))"

lemma wf_cfgD:
  assumes "wf_cfg ir F" and "b \<in> set (blocks ir F)"
  shows "getParent ir (terminator ir b) = b"
    and "set (successors ir b) \<subseteq> set (blocks ir F)"
    and "set (predecessors ir b) \<subseteq> set (blocks ir F)"
    and "b \<noteq> NULL"
proof -
  from assms have *: "NULL \<notin> set (blocks ir F)" "getParent ir (terminator ir b) = b \<and>
      set (successors ir b) \<subseteq> set (blocks ir F) \<and> set (predecessors ir b) \<subseteq> set (blocks ir F)"
    unfolding wf_cfg_def by auto
  then show "getParent ir (terminator ir b) = b" "set (successors ir b) \<subseteq> set (blocks ir F)"
    "set (predecessors ir b) \<subseteq> set (blocks ir F)" by auto
  from *(1) assms(2) show "b \<noteq> NULL" by metis
qed

lemma wf_cfg_pred_iff:
  "wf_cfg ir F \<Longrightarrow> b \<in> set (blocks ir F) \<Longrightarrow> c \<in> set (blocks ir F) \<Longrightarrow>
   c \<in> set (predecessors ir b) \<longleftrightarrow> b \<in> set (successors ir c)"
  by (auto simp: wf_cfg_def)

lemma wf_cfg_terminator_inj:
  "wf_cfg ir F \<Longrightarrow> b \<in> set (blocks ir F) \<Longrightarrow> c \<in> set (blocks ir F) \<Longrightarrow>
   terminator ir b = terminator ir c \<Longrightarrow> b = c"
  by (metis wf_cfgD(1))

text \<open>
  The class hierarchy of \<open>Value\<close> (\<open>isa\<close> of a class implies \<open>isa\<close> of its base classes), as far
  as the order of the tests in the sources depends on it.
\<close>

definition wf_classes :: "llvm \<Rightarrow> bool" where
  "wf_classes ir \<longleftrightarrow>
     (\<forall>v.
        (isa ir ConstantInt v \<or> isa ir ConstantExpr v \<or> isa ir ConstantPointerNull v \<or>
         isa ir ConstantAggregate v \<or> isa ir GlobalVariable v \<or> isa ir FunctionValue v
           \<longrightarrow> isa ir Constant v) \<and>
        (isa ir LoadInst v \<or> isa ir CastInst v \<or> isa ir AllocaInst v \<or> isa ir ExtractValueInst v
           \<longrightarrow> isa ir UnaryInstruction v) \<and>
        (isa ir ICmpInst v \<or> isa ir FCmpInst v \<longrightarrow> isa ir CmpInst v) \<and>
        (isa ir UnaryInstruction v \<or> isa ir BinaryOperator v \<or> isa ir StoreInst v \<or>
         isa ir GetElementPtrInst v \<or> isa ir CallInst v \<or> isa ir SelectInst v \<or>
         isa ir PHINode v \<or> isa ir CmpInst v \<or> isa ir BranchInst v \<or> isa ir SwitchInst v \<or>
         isa ir ReturnInst v
           \<longrightarrow> isa ir Instruction v) \<and>
        \<not> (isa ir Constant v \<and> isa ir Instruction v) \<and>
        \<not> (isa ir Constant v \<and> isa ir Argument v) \<and>
        \<not> (isa ir Argument v \<and> isa ir Instruction v))"

lemma wf_classesD:
  assumes "wf_classes ir"
  shows "isa ir ConstantExpr v \<Longrightarrow> isa ir Constant v" "isa ir GlobalVariable v \<Longrightarrow> isa ir Constant v"
    and "isa ir LoadInst v \<Longrightarrow> isa ir UnaryInstruction v" "isa ir AllocaInst v \<Longrightarrow> isa ir UnaryInstruction v"
    and "isa ir ICmpInst v \<Longrightarrow> isa ir CmpInst v"
    and "isa ir UnaryInstruction v \<Longrightarrow> isa ir Instruction v" "isa ir StoreInst v \<Longrightarrow> isa ir Instruction v"
    and "isa ir CallInst v \<Longrightarrow> isa ir Instruction v" "isa ir CmpInst v \<Longrightarrow> isa ir Instruction v"
    and "isa ir BinaryOperator v \<Longrightarrow> isa ir Instruction v"
  using spec [OF assms [unfolded wf_classes_def], of v] by simp_all

text \<open>The object graph is finite and closed under the accessors the searches follow.\<close>

definition wf_heap :: "llvm \<Rightarrow> bool" where
  "wf_heap ir \<longleftrightarrow>
     (\<forall>v \<in> set (heap ir).
        set (users ir v) \<subseteq> set (heap ir) \<and> set (operands ir v) \<subseteq> set (heap ir) \<and>
        set (argOperands ir v) \<subseteq> set (heap ir) \<and> fst ` set (incoming ir v) \<subseteq> set (heap ir) \<and>
        set (successors ir v) \<subseteq> set (heap ir) \<and> set (predecessors ir v) \<subseteq> set (heap ir) \<and>
        (isa ir Instruction v \<longrightarrow> getParent ir v \<in> set (heap ir)) \<and>
        (isa ir LoadInst v \<or> isa ir StoreInst v \<or> isa ir GetElementPtrInst v
           \<longrightarrow> pointerOperand ir v \<in> set (heap ir)) \<and>
        (isa ir StoreInst v \<longrightarrow> valueOperand ir v \<in> set (heap ir)) \<and>
        (isa ir SelectInst v \<longrightarrow>
           trueValue ir v \<in> set (heap ir) \<and> falseValue ir v \<in> set (heap ir)))"

lemma wf_heapD:
  assumes "wf_heap ir" and "v \<in> set (heap ir)"
  shows "set (users ir v) \<subseteq> set (heap ir)" "set (operands ir v) \<subseteq> set (heap ir)"
    and "set (argOperands ir v) \<subseteq> set (heap ir)" "fst ` set (incoming ir v) \<subseteq> set (heap ir)"
    and "set (successors ir v) \<subseteq> set (heap ir)" "set (predecessors ir v) \<subseteq> set (heap ir)"
    and "isa ir Instruction v \<Longrightarrow> getParent ir v \<in> set (heap ir)"
    and "isa ir LoadInst v \<or> isa ir StoreInst v \<or> isa ir GetElementPtrInst v \<Longrightarrow>
      pointerOperand ir v \<in> set (heap ir)"
    and "isa ir StoreInst v \<Longrightarrow> valueOperand ir v \<in> set (heap ir)"
    and "isa ir SelectInst v \<Longrightarrow> trueValue ir v \<in> set (heap ir)"
    and "isa ir SelectInst v \<Longrightarrow> falseValue ir v \<in> set (heap ir)"
  using assms by (auto simp: wf_heap_def)

end
