(* ===== verification/CrixCommon.thy ===== *)
theory CrixCommon
  imports LLVM_IR
begin

text \<open>
  The helpers of \<open>Common.h\<close> and \<open>Common.cc\<close>: source locations and source text, names of
  called functions, arguments by number, and the hashes of functions, calls and types that
  the call graph is keyed by. The source files of the analysed kernel are a parameter
  (\<open>file \<Rightarrow> content\<close>); \<open>std::hash\<close> is the field \<open>strHash\<close>.
\<close>

section \<open>Strings of the C++ library\<close>

text \<open>
  \<open>path.substr(path.find(c) + 1)\<close>: what follows the first \<open>c\<close>. Where \<open>c\<close> does not occur,
  \<open>npos + 1\<close> is 0 and the string is unchanged.
\<close>

fun afterFirst :: "char \<Rightarrow> string \<Rightarrow> string" where
  "afterFirst c [] = []"
| "afterFirst c (x # xs) =
     (if x = c then xs else if c \<in> set xs then afterFirst c xs else x # xs)"

text \<open>\<open>std::to_string\<close> of an unsigned and of a signed integer.\<close>

fun dec_digits :: "nat \<Rightarrow> string" where
  "dec_digits n =
     (if n < 10 then [char_of (48 + n)] else dec_digits (n div 10) @ [char_of (48 + n mod 10)])"

declare dec_digits.simps [simp del]

definition to_string :: "int \<Rightarrow> string" where
  "to_string i = (if i < 0 then ''-'' @ dec_digits (nat (- i)) else dec_digits (nat i))"

definition stripSpaces :: "string \<Rightarrow> string" where
  "stripSpaces s = filter (\<lambda>c. c \<noteq> CHR '' '') s"

section \<open>Paths and source text\<close>

definition LINUX_SOURCE :: string where
  "LINUX_SOURCE = ''/your-path-of-the-linux-source/linux-5.3.0''"

fun trimPathSlash :: "string \<Rightarrow> nat \<Rightarrow> string" where
  "trimPathSlash path 0 = path"
| "trimPathSlash path (Suc slash) = trimPathSlash (afterFirst CHR ''/'' path) slash"

definition getFileName :: "llvm \<Rightarrow> ptr \<Rightarrow> ptr \<Rightarrow> string" where
  "getFileName ir Loc SP =
     (if Loc \<noteq> NULL \<or> SP \<noteq> NULL then
        (let FN = diFilename ir (if Loc \<noteq> NULL then Loc else SP);
             slashToTrim = 2;
             FN = trimPathSlash FN slashToTrim
         in LINUX_SOURCE @ ''/'' @ FN)
      else [])"

definition isConstant :: "llvm \<Rightarrow> ptr \<Rightarrow> bool" where
  "isConstant ir V = (if V = NULL then False else isa ir Constant V)"

text \<open>\<open>ignore(max, '\n')\<close> drops one line with its newline; \<open>getline\<close> reads up to the next one.\<close>

fun dropLine :: "string \<Rightarrow> string" where
  "dropLine [] = []"
| "dropLine (c # cs) = (if c = CHR 0x0A then cs else dropLine cs)"

definition getSourceLine :: "(string \<Rightarrow> string) \<Rightarrow> string \<Rightarrow> uint32 \<Rightarrow> string" where
  "getSourceLine files fn_str lineno =
     takeWhile (\<lambda>c. c \<noteq> CHR 0x0A) ((dropLine ^^ unat (lineno - 1)) (files fn_str))"

definition stripIndent :: "string \<Rightarrow> string" where
  "stripIndent line = dropWhile (\<lambda>c. c = CHR '' '' \<or> c = CHR 0x09) line"

section \<open>Locations\<close>

definition getSourceLocation :: "llvm \<Rightarrow> ptr \<Rightarrow> ptr" where
  "getSourceLocation ir I =
     (if I = NULL then NULL
      else (let N = dbgMetadata ir I
            in if N = NULL then NULL
               else if \<not> isa ir DILocation N \<or> diLine ir N < 1 then NULL else N))"

definition getSourceFuncName :: "llvm \<Rightarrow> (string \<Rightarrow> string) \<Rightarrow> ptr \<Rightarrow> string" where
  "getSourceFuncName ir files I =
     (let Loc = getSourceLocation ir I
      in if Loc = NULL then []
         else (let lineno = diLine ir Loc;
                   fn_str = getFileName ir Loc NULL;
                   line = getSourceLine files fn_str lineno;
                   line = stripIndent line
               in takeWhile (\<lambda>c. c \<noteq> CHR ''('') line))"

text \<open>The out parameters \<open>file\<close> and \<open>line\<close>.\<close>

definition getSourceCodeInfo :: "llvm \<Rightarrow> ptr \<Rightarrow> string \<times> uint32" where
  "getSourceCodeInfo ir V =
     (if \<not> isa ir Instruction V then ([], 0)
      else (let N = dbgMetadata ir V
            in if N = NULL then ([], 0)
               else if \<not> isa ir DILocation N \<or> diLine ir N < 1 then ([], 0)
               else (diFilename ir N, diLine ir N)))"

definition getSourceCodeLine :: "llvm \<Rightarrow> (string \<Rightarrow> string) \<Rightarrow> ptr \<Rightarrow> string" where
  "getSourceCodeLine ir files V =
     (if \<not> isa ir Instruction V then []
      else (let Loc = getSourceLocation ir V
            in if Loc = NULL then []
               else (let LineNo = diLine ir Loc;
                         FN = getFileName ir Loc NULL
                     in stripIndent (getSourceLine files FN LineNo))))"

section \<open>Calls and arguments\<close>

text \<open>
  The called value is only set for calls and invokes; \<open>assert(V)\<close> guards a null value.
\<close>

definition getCalledFuncName :: "llvm \<Rightarrow> ptr \<Rightarrow> string res" where
  "getCalledFuncName ir I =
     (if isa ir CallInst I \<or> isa ir InvokeInst I then
        (let V = calledValue ir I
         in if V = NULL then Inl AssertFail
            else if isa ir InlineAsm V then Inr (asmString ir V)
            else if isa ir UserClass V then
              (case operands ir V of
                 VUV # _ \<Rightarrow> Inr (nameOf ir VUV)
               | [] \<Rightarrow> Inr (nameOf ir V))
            else Inr (nameOf ir V))
      else Inl Uninitialised)"

text \<open>
  \<open>ArgNo\<close> is an \<open>int8_t\<close>; in the comparison with the \<open>size_t\<close> of \<open>arg_size\<close> it is sign-extended
  to 64 bits, so a negative number is out of range.
\<close>

definition getArgByNo :: "llvm \<Rightarrow> ptr \<Rightarrow> int8 \<Rightarrow> ptr" where
  "getArgByNo ir F ArgNo =
     (if unat (scast ArgNo :: size_t) \<ge> length (args ir F) then NULL
      else args ir F ! unat ArgNo)"

section \<open>Hashes\<close>

definition funcHash :: "llvm \<Rightarrow> ptr \<Rightarrow> bool \<Rightarrow> size_t" where
  "funcHash ir F withName =
     (let output = typePrint ir (functionType ir F);
          output = (if withName then output @ nameOf ir F else output);
          output = stripSpaces output
      in strHash ir output)"

text \<open>The function type at the call site is the parameter \<open>functionType\<close> of the call.\<close>

definition callHash :: "llvm \<Rightarrow> ptr \<Rightarrow> size_t" where
  "callHash ir CI =
     (let CF = calledFunction ir CI
      in if CF \<noteq> NULL then funcHash ir CF True
         else strHash ir (stripSpaces (typePrint ir (functionType ir CI))))"

definition HandleSimpleTy :: "llvm \<Rightarrow> ptr \<Rightarrow> string" where
  "HandleSimpleTy ir Ty = to_string (int (scalarSizeInBits ir Ty))"

definition expand_struct :: "llvm \<Rightarrow> ptr \<Rightarrow> string" where
  "expand_struct ir STy =
     (let NumEle = numElements ir STy;
          TySize = (if isOpaque ir STy then 0 else structSizeInBits ir STy)
      in to_string (int NumEle) @ '','' @ to_string (int TySize))"

text \<open>\<open>TypeToTNameMap\<close> is the global map of \<open>TypeInitializer.cc\<close>.\<close>

definition typeHash :: "llvm \<Rightarrow> (ptr \<rightharpoonup> string) \<Rightarrow> ptr \<Rightarrow> size_t" where
  "typeHash ir TypeToTNameMap Ty =
     (let ty_str =
        (if \<not> isStructTy ir Ty then HandleSimpleTy ir Ty
         else if structHasName ir Ty then structName ir Ty @ expand_struct ir Ty
         else (case TypeToTNameMap Ty of
                 Some n \<Rightarrow> n @ expand_struct ir Ty
               | None \<Rightarrow> expand_struct ir Ty))
      in strHash ir (stripSpaces ty_str))"

definition hashIdxHash :: "llvm \<Rightarrow> size_t \<Rightarrow> int32 \<Rightarrow> size_t" where
  "hashIdxHash ir Hs Idx = Hs + strHash ir (to_string (sint Idx))"

definition typeIdxHash :: "llvm \<Rightarrow> (ptr \<rightharpoonup> string) \<Rightarrow> ptr \<Rightarrow> int32 \<Rightarrow> size_t" where
  "typeIdxHash ir TypeToTNameMap Ty Idx = hashIdxHash ir (typeHash ir TypeToTNameMap Ty) Idx"

section \<open>Security checks as records\<close>

text \<open>
  \<open>class SecurityCheck\<close>. Without debug information the constructor returns before it sets the
  line number, which then has no value. The objects are ordered by \<open>SCheck\<close> alone.
\<close>

record security_check =
  SCheck :: ptr
  SCBranch :: ptr
  SCheckFileName :: string
  SCheckLineNo :: "uint32 option"

definition newSecurityCheck :: "llvm \<Rightarrow> ptr \<Rightarrow> ptr \<Rightarrow> security_check" where
  "newSecurityCheck ir sk br =
     (let SC = \<lparr> SCheck = sk, SCBranch = br, SCheckFileName = [], SCheckLineNo = None \<rparr>
      in if \<not> isa ir Instruction sk then SC
         else (let N = dbgMetadata ir sk
               in if N = NULL then SC
                  else if \<not> isa ir DILocation N \<or> diLine ir N < 1 then SC
                  else SC\<lparr>SCheckFileName := diFilename ir N, SCheckLineNo := Some (diLine ir N)\<rparr>))"

definition security_check_less :: "security_check \<Rightarrow> security_check \<Rightarrow> bool" where
  "security_check_less SC1 SC2 \<longleftrightarrow> SCheck SC1 < SCheck SC2"

end
