(* ===== verification/Config.thy ===== *)
theory Config
  imports LLVM_IR
begin

text \<open>
  The tables of \<open>Config.h\<close>: error-handling functions, copy functions with the numbers of
  their source, destination and size argument, and data-fetch functions with the numbers of
  their destination and source argument (-1: the return value).
\<close>

definition MAX_BLOCKS_SUPPORT :: nat where "MAX_BLOCKS_SUPPORT = 500"

section \<open>Error-handling functions\<close>

text \<open>\<open>getline\<close> until the end of the file: the pieces between newlines.\<close>

fun splitLines :: "string \<Rightarrow> string \<Rightarrow> string list" where
  "splitLines acc [] = [rev acc]"
| "splitLines acc (c # cs) =
     (if c = CHR 0x0A then rev acc # splitLines [] cs else splitLines (c # acc) cs)"

definition ErrorHandleFN :: "string list" where
  "ErrorHandleFN =
    [''BUG'', ''BUG_ON'', ''ASM_BUG'', ''panic'', ''ASSERT'', ''assert'', ''dump_stack'',
     ''__warn_printk'', ''usercopy_warn'', ''signal_fault'', ''pr_err'', ''pr_warn'',
     ''pr_warning'', ''pr_alert'', ''pr_emerg'', ''pr_crit'']"

text \<open>\<open>errfile\<close> is the content of \<open>configs/err-funcs\<close>, \<open>None\<close> when it cannot be opened.\<close>

definition SetErrorHandleFuncs :: "string option \<Rightarrow> string set \<Rightarrow> string set" where
  "SetErrorHandleFuncs errfile ErrorHandleFuncs =
     (let ErrorHandleFuncs =
        (case errfile of
           None \<Rightarrow> ErrorHandleFuncs
         | Some content \<Rightarrow>
             fold (\<lambda>line S. if length line > 1 then insert line S else S)
               (splitLines [] content) ErrorHandleFuncs)
      in fold insert ErrorHandleFN ErrorHandleFuncs)"

section \<open>Copy functions: source, destination, size\<close>

type_synonym copy_funcs = "string \<rightharpoonup> int8 \<times> int8 \<times> int8"

definition copy_func_names :: "string list" where
  "copy_func_names =
    [''memcpy'', ''__memcpy'', ''llvm.memcpy.p0i8.p0i8.i32'', ''llvm.memcpy.p0i8.p0i8.i64'',
     ''strncpy'', ''memmove'', ''__memmove'', ''llvm.memmove.p0i8.p0i8.i32'',
     ''llvm.memmove.p0i8.p0i8.i64'']"

definition SetCopyFuncs :: "copy_funcs \<Rightarrow> copy_funcs" where
  "SetCopyFuncs CopyFuncs = fold (\<lambda>f m. m(f \<mapsto> (1, 0, 2))) copy_func_names CopyFuncs"

section \<open>Data-fetch functions: destination, source\<close>

type_synonym fetch_funcs = "string \<rightharpoonup> int8 \<times> int8"

definition data_fetch_table :: "(string \<times> int8 \<times> int8) list" where
  "data_fetch_table =
    [(''copy_from_user'', 0, 1), (''_copy_from_user'', 0, 1), (''__copy_from_user'', 0, 1),
     (''raw_copy_from_user'', 0, 1), (''strncpy_from_user'', 0, 1),
     (''_strncpy_from_user'', 0, 1), (''__strncpy_from_user'', 0, 1),
     (''__copy_from_user_inatomic'', 0, 1), (''strndup_user'', -1, 0),
     (''memdup_user'', -1, 0), (''vmemdup_user'', -1, 0), (''memdup_user_nul'', -1, 0),
     (''get_user'', 0, 1), (''__get_user'', 0, 1), (''copyin'', 1, 0), (''copyin_str'', 1, 0),
     (''copyin_nofault'', 1, 0), (''fubyte'', -1, 0), (''fusword'', -1, 0),
     (''fuswintr'', -1, 0), (''fuword'', -1, 0), (''rds_message_copy_from_user'', 0, 1),
     (''ivtv_buf_copy_from_user'', 0, 1), (''snd_trident_synth_copy_from_user'', 0, 1),
     (''copy_from_user_toio'', 0, 1), (''iov_iter_copy_from_user_atomic'', 0, 1),
     (''__generic_copy_from_user'', 0, 1), (''__constant_copy_from_user'', 0, 1),
     (''copy_from_user_page'', 0, 1), (''__copy_from_user_eva'', 0, 1),
     (''__arch_copy_from_user'', 0, 1), (''__copy_from_user_flushcache'', 0, 1),
     (''arm_copy_from_user'', 0, 1), (''__asm_copy_from_user'', 0, 1),
     (''__copy_from_user_inatomic_nocache'', 0, 1), (''copy_from_user_nmi'', 0, 1),
     (''copy_from_user_proc'', 0, 1)]"

definition SetDataFetchFuncs :: "fetch_funcs \<Rightarrow> fetch_funcs" where
  "SetDataFetchFuncs DataFetchFuncs = fold (\<lambda>(f, p) m. m(f \<mapsto> p)) data_fetch_table DataFetchFuncs"

end
