(* ===== verification/SecurityFlags.thy ===== *)
theory SecurityFlags
  imports LLVM_IR
begin

unbundle bit_operations_syntax

text \<open>
  The error flags of \<open>SecurityChecks.h\<close> (\<open>ErrFlag\<close>) and the operations that combine them in
  \<open>SecurityChecks.cc\<close>: \<open>updateReturnFlag\<close>, \<open>updateHandleFlag\<close>, \<open>mergeFlag\<close>. A flag is a C
  \<open>int\<close>: bits 0..3 classify error returning, bits 4..7 error handling.
\<close>

section \<open>Flags and masks\<close>

definition Must_Return_Err :: int32 where "Must_Return_Err = 1"
definition May_Return_Err :: int32 where "May_Return_Err = 2"
definition Reserved_Return1 :: int32 where "Reserved_Return1 = 4"
definition Reserved_Return2 :: int32 where "Reserved_Return2 = 8"
definition Must_Handle_Err :: int32 where "Must_Handle_Err = 16"
definition May_Handle_Err :: int32 where "May_Handle_Err = 32"
definition Reserved_Handle1 :: int32 where "Reserved_Handle1 = 64"
definition Reserved_Handle2 :: int32 where "Reserved_Handle2 = 128"
definition Completed_Flag :: int32 where "Completed_Flag = 256"

definition ERR_RETURN_MASK :: int32 where "ERR_RETURN_MASK = 0xF"
definition ERR_HANDLE_MASK :: int32 where "ERR_HANDLE_MASK = 0xF0"

lemmas flag_defs =
  Must_Return_Err_def May_Return_Err_def Reserved_Return1_def Reserved_Return2_def
  Must_Handle_Err_def May_Handle_Err_def Reserved_Handle1_def Reserved_Handle2_def
  Completed_Flag_def ERR_RETURN_MASK_def ERR_HANDLE_MASK_def

section \<open>Operations\<close>

text \<open>The references \<open>int &errFlag, int &newFlag\<close>: the updated \<open>errFlag\<close> is returned.\<close>

definition updateReturnFlag :: "int32 \<Rightarrow> int32 \<Rightarrow> int32" where
  "updateReturnFlag errFlag newFlag =
     (if newFlag AND ERR_RETURN_MASK \<noteq> 0
      then (errFlag AND NOT ERR_RETURN_MASK) OR (newFlag AND ERR_RETURN_MASK)
      else errFlag)"

definition updateHandleFlag :: "int32 \<Rightarrow> int32 \<Rightarrow> int32" where
  "updateHandleFlag errFlag newFlag =
     (if errFlag AND Must_Handle_Err \<noteq> 0 then errFlag
      else if newFlag AND ERR_HANDLE_MASK \<noteq> 0
      then (errFlag AND NOT ERR_HANDLE_MASK) OR (newFlag AND ERR_HANDLE_MASK)
      else errFlag)"

definition mergeFlag :: "int32 \<Rightarrow> int32 \<Rightarrow> int32" where
  "mergeFlag errFlag newFlag =
     (let tempFlag = 0;
          tempFlag =
            (if errFlag AND Must_Return_Err \<noteq> 0 \<and> newFlag AND Must_Return_Err \<noteq> 0
             then tempFlag OR Must_Return_Err
             else if errFlag AND May_Return_Err \<noteq> 0 \<or> newFlag AND May_Return_Err \<noteq> 0
             then tempFlag OR May_Return_Err
             else if \<not> (errFlag AND ERR_RETURN_MASK \<noteq> 0)
             then tempFlag OR (newFlag AND ERR_RETURN_MASK)
             else tempFlag OR (errFlag AND ERR_RETURN_MASK));
          tempFlag =
            (if errFlag AND Must_Handle_Err \<noteq> 0 \<and> newFlag AND Must_Handle_Err \<noteq> 0
             then tempFlag OR Must_Handle_Err
             else if errFlag AND May_Handle_Err \<noteq> 0 \<or> newFlag AND May_Handle_Err \<noteq> 0
             then tempFlag OR May_Return_Err
             else if \<not> (errFlag AND ERR_HANDLE_MASK \<noteq> 0)
             then tempFlag OR (newFlag AND ERR_HANDLE_MASK)
             else tempFlag OR (errFlag AND ERR_HANDLE_MASK))
      in tempFlag)"

section \<open>The two halves of a flag\<close>

definition retBits :: "int32 \<Rightarrow> int32" where "retBits f = f AND ERR_RETURN_MASK"
definition hdlBits :: "int32 \<Rightarrow> int32" where "hdlBits f = f AND ERR_HANDLE_MASK"

named_theorems flag_simps \<open>how the halves of a flag change\<close>

lemma bit_ERR_RETURN_MASK [simp]: "bit ERR_RETURN_MASK n \<longleftrightarrow> n < 4"
proof -
  have "ERR_RETURN_MASK = mask 4" by (simp add: flag_defs mask_numeral)
  then have "bit ERR_RETURN_MASK n \<longleftrightarrow> bit (mask 4 :: int32) n" by simp
  then show ?thesis by (auto simp: bit_mask_iff)
qed

lemma bit_ERR_HANDLE_MASK [simp]: "bit ERR_HANDLE_MASK n \<longleftrightarrow> 4 \<le> n \<and> n < 8"
proof -
  have "ERR_HANDLE_MASK = push_bit 4 (mask 4)" by (simp add: flag_defs mask_numeral push_bit_eq_mult)
  then have "bit ERR_HANDLE_MASK n \<longleftrightarrow> bit (push_bit 4 (mask 4) :: int32) n" by simp
  then show ?thesis by (auto simp: bit_push_bit_iff bit_mask_iff)
qed

lemma test_flag [flag_simps]:
  "f AND Must_Return_Err = 0 \<longleftrightarrow> \<not> bit f 0" "f AND May_Return_Err = 0 \<longleftrightarrow> \<not> bit f 1"
  "f AND Must_Handle_Err = 0 \<longleftrightarrow> \<not> bit f 4" "f AND May_Handle_Err = 0 \<longleftrightarrow> \<not> bit f 5"
  using and_exp_eq_0_iff_not_bit [of f 0] and_exp_eq_0_iff_not_bit [of f 1]
    and_exp_eq_0_iff_not_bit [of f 4] and_exp_eq_0_iff_not_bit [of f 5]
  by (simp_all add: flag_defs)

lemma bit_Must_Return [simp]: "bit Must_Return_Err n \<longleftrightarrow> n = 0"
  by (simp add: flag_defs bit_1_iff)

lemma bit_May_Return [simp]: "bit May_Return_Err n \<longleftrightarrow> n = 1"
  using bit_exp_iff [of 1 n, where 'a = int32] by (auto simp: flag_defs)

lemma bit_Must_Handle [simp]: "bit Must_Handle_Err n \<longleftrightarrow> n = 4"
  using bit_exp_iff [of 4 n, where 'a = int32] by (auto simp: flag_defs)

lemma bit_May_Handle [simp]: "bit May_Handle_Err n \<longleftrightarrow> n = 5"
  using bit_exp_iff [of 5 n, where 'a = int32] by (auto simp: flag_defs)

lemma bit_retBits [simp]: "bit (retBits f) n \<longleftrightarrow> bit f n \<and> n < 4"
  by (simp add: retBits_def bit_and_iff)

lemma bit_hdlBits [simp]: "bit (hdlBits f) n \<longleftrightarrow> bit f n \<and> 4 \<le> n \<and> n < 8"
  by (simp add: hdlBits_def bit_and_iff)

lemma retBits_constants [simp]:
  "retBits 0 = 0" "retBits Must_Return_Err = Must_Return_Err"
  "retBits May_Return_Err = May_Return_Err" "retBits Must_Handle_Err = 0"
  by (simp_all add: retBits_def flag_defs)

lemma hdlBits_constants [simp]:
  "hdlBits 0 = 0" "hdlBits Must_Return_Err = 0" "hdlBits May_Return_Err = 0"
  "hdlBits Must_Handle_Err = Must_Handle_Err"
  by (simp_all add: hdlBits_def flag_defs)

lemma flag_constants_distinct [simp]:
  "Must_Return_Err \<noteq> 0" "May_Return_Err \<noteq> 0" "Must_Handle_Err \<noteq> 0" "May_Handle_Err \<noteq> 0"
  "Must_Return_Err \<noteq> May_Return_Err" "May_Return_Err \<noteq> Must_Return_Err"
  by (simp_all add: flag_defs)

lemma updateReturnFlag_alt [flag_simps]:
  "updateReturnFlag e n =
     (if retBits n = 0 then e else (e AND NOT ERR_RETURN_MASK) OR retBits n)"
  by (simp add: updateReturnFlag_def retBits_def)

lemma updateHandleFlag_alt [flag_simps]:
  "updateHandleFlag e n =
     (if bit e 4 \<or> hdlBits n = 0 then e else (e AND NOT ERR_HANDLE_MASK) OR hdlBits n)"
  by (simp add: updateHandleFlag_def hdlBits_def test_flag)

lemma retBits_updateReturnFlag [simp]:
  "retBits (updateReturnFlag e n) = (if retBits n = 0 then retBits e else retBits n)"
  by (rule bit_eqI) (auto simp: updateReturnFlag_alt bit_or_iff bit_and_iff bit_not_iff)

lemma rest_updateReturnFlag [simp]:
  "updateReturnFlag e n AND NOT ERR_RETURN_MASK = e AND NOT ERR_RETURN_MASK"
  by (rule bit_eqI) (auto simp: updateReturnFlag_alt bit_or_iff bit_and_iff bit_not_iff)

lemma hdlBits_updateReturnFlag [simp]: "hdlBits (updateReturnFlag e n) = hdlBits e"
  by (rule bit_eqI) (auto simp: updateReturnFlag_alt bit_or_iff bit_and_iff bit_not_iff)

lemma retBits_updateHandleFlag [simp]: "retBits (updateHandleFlag e n) = retBits e"
  by (rule bit_eqI) (auto simp: updateHandleFlag_alt bit_or_iff bit_and_iff bit_not_iff)

lemma hdlBits_updateHandleFlag [simp]:
  "hdlBits (updateHandleFlag e n) = (if bit e 4 \<or> hdlBits n = 0 then hdlBits e else hdlBits n)"
  by (rule bit_eqI) (auto simp: updateHandleFlag_alt bit_or_iff bit_and_iff bit_not_iff)

lemma updateReturnFlag_same: "retBits e = retBits n \<Longrightarrow> updateReturnFlag e n = e"
  by (rule bit_eqI)
     (auto simp: updateReturnFlag_alt bit_or_iff bit_and_iff bit_not_iff bit_eq_iff [of "retBits e"])

lemma updateHandleFlag_must: "bit e 4 \<Longrightarrow> updateHandleFlag e n = e"
  by (simp add: updateHandleFlag_alt)

lemma bit4_updateHandleFlag [simp]: "bit (updateHandleFlag e Must_Handle_Err) 4"
  by (simp add: updateHandleFlag_alt bit_or_iff)

section \<open>Integrating the flags of several edges\<close>

text \<open>
  \<open>recurMarkEdgesFromBlock\<close> integrates the flags of all incoming edges with \<open>mergeFlag\<close>, in
  the order of the predecessor list. What it needs of the merge is this contract; then the
  integrated flag is the least upper bound of the flags, whatever their order.
\<close>

locale flag_join =
  fixes C :: "'f set" and mrg :: "'f \<Rightarrow> 'f \<Rightarrow> 'f"
  assumes closed: "a \<in> C \<Longrightarrow> b \<in> C \<Longrightarrow> mrg a b \<in> C"
    and comm: "a \<in> C \<Longrightarrow> b \<in> C \<Longrightarrow> mrg a b = mrg b a"
    and assoc: "a \<in> C \<Longrightarrow> b \<in> C \<Longrightarrow> c \<in> C \<Longrightarrow> mrg (mrg a b) c = mrg a (mrg b c)"
    and idem: "a \<in> C \<Longrightarrow> mrg a a = a"
begin

lemma integrate_closed: "set xs \<subseteq> C \<Longrightarrow> a \<in> C \<Longrightarrow> foldl mrg a xs \<in> C"
  by (induction xs arbitrary: a) (auto intro: closed)

lemma integrate_above_start: "set xs \<subseteq> C \<Longrightarrow> a \<in> C \<Longrightarrow> mrg a (foldl mrg a xs) = foldl mrg a xs"
proof (induction xs arbitrary: a)
  case Nil
  then show ?case by (simp add: idem)
next
  case (Cons x xs)
  then have C: "x \<in> C" "a \<in> C" "mrg a x \<in> C" "foldl mrg (mrg a x) xs \<in> C"
    by (auto intro: closed integrate_closed)
  have "mrg (mrg a x) (foldl mrg (mrg a x) xs) = foldl mrg (mrg a x) xs"
    using Cons C by auto
  then show ?case using C by (metis assoc closed foldl_Cons idem)
qed

lemma integrate_above:
  "set xs \<subseteq> C \<Longrightarrow> a \<in> C \<Longrightarrow> x \<in> set xs \<Longrightarrow> mrg x (foldl mrg a xs) = foldl mrg a xs"
proof (induction xs arbitrary: a)
  case Nil
  then show ?case by simp
next
  case (Cons y ys)
  then have C: "y \<in> C" "mrg a y \<in> C" "foldl mrg (mrg a y) ys \<in> C"
    by (auto intro: closed integrate_closed)
  show ?case
  proof (cases "x \<in> set ys")
    case True
    with Cons C show ?thesis by auto
  next
    case False
    with Cons.prems have "x = y" by simp
    have "mrg (mrg a y) (foldl mrg (mrg a y) ys) = foldl mrg (mrg a y) ys"
      using Cons.prems C by (intro integrate_above_start) auto
    with \<open>x = y\<close> Cons.prems C show ?thesis by (metis assoc closed comm foldl_Cons idem)
  qed
qed

lemma integrate_least:
  "set xs \<subseteq> C \<Longrightarrow> a \<in> C \<Longrightarrow> c \<in> C \<Longrightarrow> mrg a c = c \<Longrightarrow> \<forall>x \<in> set xs. mrg x c = c \<Longrightarrow>
   mrg (foldl mrg a xs) c = c"
proof (induction xs arbitrary: a)
  case Nil
  then show ?case by simp
next
  case (Cons x xs)
  then have "mrg (mrg a x) c = c" by (auto simp: assoc)
  with Cons show ?case by (auto intro: closed)
qed

lemma integrate_order_independent:
  assumes "set xs \<subseteq> C" "set ys \<subseteq> C" "a \<in> C" "b \<in> C" "insert a (set xs) = insert b (set ys)"
  shows "foldl mrg a xs = foldl mrg b ys"
proof -
  have le: "mrg (foldl mrg a xs) (foldl mrg b ys) = foldl mrg b ys"
    if "set xs \<subseteq> C" "set ys \<subseteq> C" "a \<in> C" "b \<in> C" "insert a (set xs) \<subseteq> insert b (set ys)"
    for a b xs ys
  proof -
    have "mrg x (foldl mrg b ys) = foldl mrg b ys" if "x \<in> insert b (set ys)" for x
      using that \<open>set ys \<subseteq> C\<close> \<open>b \<in> C\<close> by (auto intro: integrate_above integrate_above_start)
    with that show ?thesis by (intro integrate_least) (auto intro: integrate_closed)
  qed
  from le [of xs ys a b] le [of ys xs b a] assms show ?thesis
    by (metis comm integrate_closed order_refl)
qed

end

text \<open>
  The flags on which merging is well behaved: one of no, must, may error-returning, with or without
  \<open>Must_Handle_Err\<close> (nothing in the sources sets \<open>May_Handle_Err\<close>). They are not all the pass can
  store: \<open>markBBErr\<close> adds bits, so a block marked twice can be both must and may error-returning, and
  its edges with it. Merging two such flags drops the may.
\<close>

lemma mergeFlag_must_and_may: "mergeFlag 3 3 = 1" "mergeFlag 3 0 = 2" "mergeFlag 3 2 = 2"
  by (simp_all add: mergeFlag_def flag_defs)

definition edge_flags :: "int32 set" where
  "edge_flags = {0, 1, 2, 16, 17, 18}"

lemma mergeFlag_edge_flags:
  "a \<in> edge_flags \<Longrightarrow> b \<in> edge_flags \<Longrightarrow>
   mergeFlag a b =
     (let m = (a AND 16) OR (b AND 16); r = (a AND 3) OR (b AND 3)
      in (if r = 3 then 2 else r) OR m)"
  unfolding edge_flags_def by (elim insertE emptyE; simp add: mergeFlag_def flag_defs)

interpretation flag_merge: flag_join edge_flags mergeFlag
proof
  show "mergeFlag a b \<in> edge_flags" if "a \<in> edge_flags" "b \<in> edge_flags" for a b
    using that unfolding edge_flags_def by (elim insertE emptyE; simp add: mergeFlag_def flag_defs)
  show "mergeFlag a b = mergeFlag b a" if "a \<in> edge_flags" "b \<in> edge_flags" for a b
    using that unfolding edge_flags_def by (elim insertE emptyE; simp add: mergeFlag_def flag_defs)
  show "mergeFlag (mergeFlag a b) c = mergeFlag a (mergeFlag b c)"
    if "a \<in> edge_flags" "b \<in> edge_flags" "c \<in> edge_flags" for a b c
    using that unfolding edge_flags_def by (elim insertE emptyE; simp add: mergeFlag_def flag_defs)
  show "mergeFlag a a = a" if "a \<in> edge_flags" for a
    using that unfolding edge_flags_def by (elim insertE emptyE; simp add: mergeFlag_def flag_defs)
qed

end
