(* ===== verification/SecurityEdges.thy ===== *)
theory SecurityEdges
  imports SecurityFlags
begin

text \<open>
  Marking the edges of the control-flow graph with error flags: \<open>markBBErr\<close>,
  \<open>recurMarkEdgesFromBlock\<close>, \<open>recurMarkEdgesToBlock\<close>, \<open>recurMarkEdgesToErrHandle\<close>,
  \<open>recurMarkEdgesToErrReturn\<close>, \<open>markEdgesToErrReturn\<close> and \<open>markAllEdgesErrFlag\<close> of
  \<open>SecurityChecks.cc\<close>. The loops are instances of the worklist loop; their bodies are
  separate definitions.
\<close>

section \<open>The maps\<close>

type_synonym edge = "ptr \<times> ptr"  \<comment> \<open>\<open>CFGEdge\<close>: terminator and successor block\<close>
type_synonym edge_err_map = "edge \<rightharpoonup> int32"
type_synonym bb_err_map = "ptr \<rightharpoonup> int32"

text \<open>
  \<open>operator[]\<close> of \<open>std::map<K, int>\<close>: the value stored under the key, 0 if there is none;
  the key is then present (\<open>map_touch\<close>).
\<close>

definition map_at :: "('k \<rightharpoonup> int32) \<Rightarrow> 'k \<Rightarrow> int32" where
  "map_at m k = (case m k of None \<Rightarrow> 0 | Some v \<Rightarrow> v)"

definition map_touch :: "('k \<rightharpoonup> int32) \<Rightarrow> 'k \<Rightarrow> ('k \<rightharpoonup> int32)" where
  "map_touch m k = (case m k of None \<Rightarrow> m(k \<mapsto> 0) | Some _ \<Rightarrow> m)"

lemma map_at_touch [simp]: "map_at (map_touch m k) j = map_at m j"
  by (simp add: map_at_def map_touch_def split: option.splits)

lemma map_at_upd [simp]: "map_at (m(k \<mapsto> v)) j = (if j = k then v else map_at m j)"
  by (simp add: map_at_def)

lemma map_at_empty [simp]: "map_at Map.empty k = 0"
  by (simp add: map_at_def)

lemma dom_map_touch [simp]: "dom (map_touch m k) = insert k (dom m)"
  by (auto simp: map_touch_def split: option.splits)

section \<open>Blocks\<close>

definition markBBErr :: "ptr \<Rightarrow> int32 \<Rightarrow> bb_err_map \<Rightarrow> bb_err_map res" where
  "markBBErr BB flag bbErrMap =
     (if BB = NULL then Inl AssertFail
      else Inr (case bbErrMap BB of
        Some f \<Rightarrow> bbErrMap(BB \<mapsto> f OR flag)
      | None \<Rightarrow> bbErrMap(BB \<mapsto> flag)))"

text \<open>Marking adds the bits of the flag to the block, and to no other block.\<close>

lemma markBBErr_returns:
  assumes "BB \<noteq> NULL"
  shows "\<exists>m'. markBBErr BB flag m = Inr m' \<and> dom m' = insert BB (dom m) \<and>
    (\<forall>b. map_at m' b = (if b = BB then map_at m b OR flag else map_at m b))"
  using assms by (cases "m BB") (simp_all add: markBBErr_def map_at_def insert_absorb domI)

section \<open>Edges into error-handling and error-returning blocks\<close>

definition markPredErrHandle ::
  "llvm \<Rightarrow> ptr \<Rightarrow> ptr \<Rightarrow> ptr list \<times> edge_err_map \<Rightarrow> ptr list \<times> edge_err_map"
where
  "markPredErrHandle ir TB predBB st = (case st of (EB, edgeErrMap) \<Rightarrow>
     (let TI = terminator ir predBB;
          CE = (TI, TB);
          NewHandleFlag = Must_Handle_Err;
          edgeErrMap = map_touch edgeErrMap CE
      in if map_at edgeErrMap CE AND NewHandleFlag \<noteq> 0 then (EB, edgeErrMap)
         else
           (let edgeErrMap =
                  edgeErrMap(CE \<mapsto> updateHandleFlag (map_at edgeErrMap CE) NewHandleFlag)
            in if length (succs ir TI) > 1 then (EB, edgeErrMap)
               else (EB @ [predBB], edgeErrMap))))"

definition recurMarkEdgesToErrHandle :: "llvm \<Rightarrow> ptr \<Rightarrow> edge_err_map \<Rightarrow> edge_err_map res" where
  "recurMarkEdgesToErrHandle ir BB edgeErrMap =
     (if BB = NULL then Inr edgeErrMap
      else rbind
        (worklist never_stop (\<lambda>x. x)
          (\<lambda>TB m. Inr (fold (markPredErrHandle ir TB) (predecessors ir TB) ([], m)))
          [BB] edgeErrMap)
        (\<lambda>(PB, m). Inr m))"

definition markPredErrReturn ::
  "llvm \<Rightarrow> int32 \<Rightarrow> ptr \<Rightarrow> ptr \<Rightarrow> ptr list \<times> edge_err_map \<Rightarrow> ptr list \<times> edge_err_map"
where
  "markPredErrReturn ir flag TB predBB st = (case st of (EB, edgeErrMap) \<Rightarrow>
     (let TI = terminator ir predBB;
          CE = (TI, TB);
          edgeErrMap = map_touch edgeErrMap CE
      in if map_at edgeErrMap CE AND ERR_RETURN_MASK = flag AND ERR_RETURN_MASK
         then (EB, edgeErrMap)
         else (EB @ [predBB], edgeErrMap(CE \<mapsto> updateReturnFlag (map_at edgeErrMap CE) flag))))"

definition recurMarkEdgesToErrReturn ::
  "llvm \<Rightarrow> ptr \<Rightarrow> int32 \<Rightarrow> edge_err_map \<Rightarrow> edge_err_map res"
where
  "recurMarkEdgesToErrReturn ir BB flag edgeErrMap =
     (if BB = NULL then Inr edgeErrMap
      else rbind
        (worklist never_stop (\<lambda>x. x)
          (\<lambda>TB m. Inr (fold (markPredErrReturn ir flag TB) (predecessors ir TB) ([], m)))
          [BB] edgeErrMap)
        (\<lambda>(PB, m). Inr m))"

definition markEdgesToErrReturn :: "llvm \<Rightarrow> ptr \<Rightarrow> int32 \<Rightarrow> edge_err_map \<Rightarrow> edge_err_map" where
  "markEdgesToErrReturn ir BB flag edgeErrMap =
     fold (\<lambda>predBB edgeErrMap.
        (let CE = (terminator ir predBB, BB);
             edgeErrMap = map_touch edgeErrMap CE
         in if map_at edgeErrMap CE AND ERR_RETURN_MASK = flag AND ERR_RETURN_MASK
            then edgeErrMap
            else edgeErrMap(CE \<mapsto> updateReturnFlag (map_at edgeErrMap CE) flag)))
       (predecessors ir BB) edgeErrMap"

section \<open>Edges from a block\<close>

text \<open>The flags of the other incoming edges of \<open>TB\<close>, merged into the flag of the item.\<close>

definition integrateIncoming ::
  "llvm \<Rightarrow> edge \<Rightarrow> ptr \<Rightarrow> int32 \<times> edge_err_map \<Rightarrow> int32 \<times> edge_err_map"
where
  "integrateIncoming ir E PredBB st = (case st of (IntFlag, edgeErrMap) \<Rightarrow>
     (if PredBB = getParent ir (fst E) then (IntFlag, edgeErrMap)
      else
        (let TI = terminator ir PredBB;
             Edge = (TI, snd E);
             edgeErrMap = map_touch edgeErrMap Edge
         in (mergeFlag IntFlag (map_at edgeErrMap Edge), edgeErrMap))))"

definition spreadToSucc ::
  "ptr \<Rightarrow> int32 \<Rightarrow> ptr \<Rightarrow> (edge \<times> int32) list \<times> edge_err_map \<Rightarrow> (edge \<times> int32) list \<times> edge_err_map"
where
  "spreadToSucc TI IntFlag Succ st = (case st of (EEP, edgeErrMap) \<Rightarrow>
     (let CE = (TI, Succ);
          edgeErrMap = map_touch edgeErrMap CE
      in if IntFlag AND ERR_RETURN_MASK \<noteq> map_at edgeErrMap CE AND ERR_RETURN_MASK
         then (EEP @ [(CE, IntFlag)],
               edgeErrMap(CE \<mapsto> updateReturnFlag (map_at edgeErrMap CE) IntFlag))
         else (EEP, edgeErrMap)))"

definition fromBlockBody ::
  "llvm \<Rightarrow> edge \<times> int32 \<Rightarrow> edge_err_map \<Rightarrow> ((edge \<times> int32) list \<times> edge_err_map) res"
where
  "fromBlockBody ir TEP edgeErrMap =
     (let TB = snd (fst TEP);
          TI = terminator ir TB
      in if length (succs ir TI) = 0 then Inr ([], edgeErrMap)
         else
           (let (IntFlag, edgeErrMap) =
                  fold (integrateIncoming ir (fst TEP)) (predecessors ir TB) (snd TEP, edgeErrMap)
            in Inr (fold (spreadToSucc TI IntFlag) (successors ir TB) ([], edgeErrMap))))"

definition recurMarkEdgesFromBlock ::
  "llvm \<Rightarrow> edge \<Rightarrow> int32 \<Rightarrow> bb_err_map \<Rightarrow> edge_err_map \<Rightarrow> edge_err_map res"
where
  "recurMarkEdgesFromBlock ir CE flag bbErrMap edgeErrMap =
     (let BB = snd CE
      in if bbErrMap BB \<noteq> None \<and> map_at bbErrMap BB AND ERR_RETURN_MASK \<noteq> 0 then Inr edgeErrMap
         else rbind
           (worklist never_stop fst (fromBlockBody ir) [(CE, flag)] edgeErrMap)
           (\<lambda>(PE, m). Inr m))"

section \<open>Edges to a block\<close>

text \<open>
  The scan over the other outgoing edges of \<open>TB\<close>; \<open>brk\<close> is the \<open>break\<close> of the loop. Every
  read of \<open>edgeErrMap[Edge]\<close> creates the entry.
\<close>

definition scanOutgoing ::
  "llvm \<Rightarrow> edge \<Rightarrow> ptr \<Rightarrow> ptr \<Rightarrow> bool \<times> bool \<times> bool \<times> edge_err_map \<Rightarrow> bool \<times> bool \<times> bool \<times> edge_err_map"
where
  "scanOutgoing ir E TB Succ st = (case st of (AllMust, AllZero, brk, edgeErrMap) \<Rightarrow>
     (if brk \<or> Succ = snd E then (AllMust, AllZero, brk, edgeErrMap)
      else
        (let Edge = (terminator ir TB, Succ);
             edgeErrMap = map_touch edgeErrMap Edge;
             v = map_at edgeErrMap Edge;
             (AllMust, AllZero) =
               (if \<not> (v AND Must_Return_Err \<noteq> 0) then (False, AllZero)
                else if v AND May_Return_Err \<noteq> 0 then (False, False)
                else (AllMust, False))
         in (AllMust, AllZero, \<not> AllZero \<and> \<not> AllMust, edgeErrMap))))"

definition raiseToMust ::
  "llvm \<Rightarrow> ptr \<Rightarrow> int32 \<Rightarrow> ptr \<Rightarrow> (edge \<times> int32) list \<times> edge_err_map \<Rightarrow> (edge \<times> int32) list \<times> edge_err_map"
where
  "raiseToMust ir TB IntFlag predBB st = (case st of (EEP, edgeErrMap) \<Rightarrow>
     (let CE = (terminator ir predBB, TB);
          edgeErrMap = map_touch edgeErrMap CE
      in if \<not> (map_at edgeErrMap CE AND IntFlag \<noteq> 0)
         then (EEP @ [(CE, IntFlag)],
               edgeErrMap(CE \<mapsto> updateReturnFlag (map_at edgeErrMap CE) IntFlag))
         else (EEP, edgeErrMap)))"

definition toBlockBody ::
  "llvm \<Rightarrow> edge \<times> int32 \<Rightarrow> edge_err_map \<Rightarrow> ((edge \<times> int32) list \<times> edge_err_map) res"
where
  "toBlockBody ir TEP edgeErrMap =
     (let TB = getParent ir (fst (fst TEP));
          IntFlag = snd TEP
      in if length (predecessors ir TB) = 0 then Inr ([], edgeErrMap)
         else if \<not> (IntFlag AND ERR_RETURN_MASK \<noteq> 0) then Inr ([], edgeErrMap)
         else if IntFlag AND May_Return_Err \<noteq> 0 then
           rbind (recurMarkEdgesToErrReturn ir TB May_Return_Err edgeErrMap) (\<lambda>m. Inr ([], m))
         else
           (let (AllMust, AllZero, brk, edgeErrMap) =
                  fold (scanOutgoing ir (fst TEP) TB) (successors ir TB) (True, True, False, edgeErrMap)
            in if AllMust then
                 Inr (fold (raiseToMust ir TB Must_Return_Err) (predecessors ir TB) ([], edgeErrMap))
               else if \<not> AllZero \<and> \<not> AllMust then
                 rbind (recurMarkEdgesToErrReturn ir TB May_Return_Err edgeErrMap) (\<lambda>m. Inr ([], m))
               else Inr ([], edgeErrMap)))"

definition recurMarkEdgesToBlock ::
  "llvm \<Rightarrow> edge \<Rightarrow> int32 \<Rightarrow> bb_err_map \<Rightarrow> edge_err_map \<Rightarrow> edge_err_map res"
where
  "recurMarkEdgesToBlock ir CE flag bbErrMap edgeErrMap =
     rbind (worklist never_stop fst (toBlockBody ir) [(CE, flag)] edgeErrMap) (\<lambda>(PE, m). Inr m)"

section \<open>All edges of a function\<close>

definition markBlockEdges ::
  "llvm \<Rightarrow> bb_err_map \<Rightarrow> ptr \<Rightarrow> edge_err_map \<Rightarrow> edge_err_map res"
where
  "markBlockEdges ir bbErrMap BB edgeErrMap =
     (case bbErrMap BB of
        None \<Rightarrow> Inr edgeErrMap
      | Some NewFlag \<Rightarrow>
          rbind
            (if NewFlag AND Must_Handle_Err \<noteq> 0
             then recurMarkEdgesToErrHandle ir BB edgeErrMap else Inr edgeErrMap)
            (\<lambda>edgeErrMap.
              if NewFlag AND ERR_RETURN_MASK \<noteq> 0 then
                rbind
                  (foldM (\<lambda>Pred edgeErrMap.
                      (let CE = (terminator ir Pred, BB);
                           edgeErrMap = map_touch edgeErrMap CE;
                           edgeErrMap = edgeErrMap(CE \<mapsto> updateReturnFlag (map_at edgeErrMap CE) NewFlag)
                       in recurMarkEdgesToBlock ir CE NewFlag bbErrMap edgeErrMap))
                    (predecessors ir BB) edgeErrMap)
                  (foldM (\<lambda>Succ edgeErrMap.
                      (let CE = (terminator ir BB, Succ);
                           edgeErrMap = map_touch edgeErrMap CE;
                           edgeErrMap = edgeErrMap(CE \<mapsto> updateReturnFlag (map_at edgeErrMap CE) NewFlag)
                       in recurMarkEdgesFromBlock ir CE NewFlag bbErrMap edgeErrMap))
                    (successors ir BB))
              else Inr edgeErrMap))"

text \<open>The result of \<open>markAllEdgesErrFlag\<close>: the returned \<open>bool\<close> and the marked map.\<close>

definition markAllEdgesErrFlag ::
  "llvm \<Rightarrow> ptr \<Rightarrow> bb_err_map \<Rightarrow> edge_err_map \<Rightarrow> (bool \<times> edge_err_map) res"
where
  "markAllEdgesErrFlag ir F bbErrMap edgeErrMap =
     (if bbErrMap = Map.empty then Inr (False, edgeErrMap)
      else rbind (foldM (markBlockEdges ir bbErrMap) (blocks ir F) edgeErrMap)
        (\<lambda>m. Inr (True, m)))"

end
