(* ===== verification/Analyzer.thy ===== *)
theory Analyzer
  imports CrixCommon Config SecurityEdges
begin

text \<open>
  \<open>Analyzer.h\<close> and \<open>Analyzer.cc\<close>: the global context every pass reads and writes, and the driver
  \<open>IterativeModulePass::run\<close> that repeats a pass over all modules until no module changes.
\<close>

section \<open>The global context\<close>

type_synonym func_set = "ptr set"
type_synonym use_t = "ptr \<times> int8"
type_synonym src_t = "ptr \<times> int8"

text \<open>
  \<open>DenseMap\<close> and \<open>unordered_map\<close> with a container as value are functions: \<open>operator[]\<close> yields the
  empty container where there is no entry. The maps to functions, whose \<open>find\<close> and \<open>operator[]\<close>
  the sources both use, are partial functions. \<open>InvolvedModules\<close> is declared and never used,
  \<open>FuncAAResults\<close> is written by the pointer analysis and never read.
\<close>

record gctx =
  NumSecurityChecks :: uint32
  NumCondStatements :: uint32
  GlobalTypes :: "ptr \<rightharpoonup> string"
  GlobalFuncs :: "string \<rightharpoonup> ptr"
  AddressTakenFuncs :: func_set
  Callees :: "ptr \<Rightarrow> func_set"
  Callers :: "ptr \<Rightarrow> ptr set"
  IndirectCallInsts :: "ptr list"
  UnifiedFuncMap :: "size_t \<rightharpoonup> ptr"
  UnifiedFuncSet :: "ptr set"
  sigFuncsMap :: "size_t \<Rightarrow> func_set"
  Modules :: "ptr list"
  ModuleMaps :: "ptr \<rightharpoonup> string"
  InvolvedModules :: "string set"
  ErrorHandleFuncs :: "string set"
  CopyFuncs :: copy_funcs
  SecurityCheckSets :: "ptr \<Rightarrow> security_check list"
  CheckInstSets :: "ptr \<Rightarrow> ptr set"
  FuncPAResults :: "ptr \<Rightarrow> ptr \<rightharpoonup> ptr set"
  FuncAAResults :: "ptr \<rightharpoonup> ptr"
  DataFetchFuncs :: fetch_funcs

definition newGlobalContext :: gctx where
  "newGlobalContext =
    \<lparr> NumSecurityChecks = 0, NumCondStatements = 0, GlobalTypes = Map.empty,
      GlobalFuncs = Map.empty, AddressTakenFuncs = {}, Callees = (\<lambda>_. {}), Callers = (\<lambda>_. {}),
      IndirectCallInsts = [], UnifiedFuncMap = Map.empty, UnifiedFuncSet = {},
      sigFuncsMap = (\<lambda>_. {}), Modules = [], ModuleMaps = Map.empty, InvolvedModules = {},
      ErrorHandleFuncs = {}, CopyFuncs = Map.empty,
      SecurityCheckSets = (\<lambda>_. []), CheckInstSets = (\<lambda>_. {}), FuncPAResults = (\<lambda>_. Map.empty),
      FuncAAResults = Map.empty, DataFetchFuncs = Map.empty \<rparr>"

definition LoadStaticData :: "string option \<Rightarrow> gctx \<Rightarrow> gctx" where
  "LoadStaticData errfile GCtx =
     GCtx\<lparr>ErrorHandleFuncs := SetErrorHandleFuncs errfile (ErrorHandleFuncs GCtx),
          CopyFuncs := SetCopyFuncs (CopyFuncs GCtx),
          DataFetchFuncs := SetDataFetchFuncs (DataFetchFuncs GCtx)\<rparr>"

text \<open>\<open>*(Ctx->Callees[CI].begin())\<close>: the first function in the order of the \<open>SmallPtrSet\<close>.\<close>

definition firstCallee :: "llvm \<Rightarrow> gctx \<Rightarrow> ptr \<Rightarrow> ptr" where
  "firstCallee ir ctx CI =
     (case smallSetOrder ir (Callees ctx CI) of F # _ \<Rightarrow> F | [] \<Rightarrow> NULL)"

section \<open>The pass driver\<close>

text \<open>
  A pass is its three callbacks; each takes the module and the state and returns its \<open>bool\<close>
  and the new state.
\<close>

record 's pass =
  doInitialization :: "ptr \<Rightarrow> 's \<Rightarrow> (bool \<times> 's) res"
  doModulePass :: "ptr \<Rightarrow> 's \<Rightarrow> (bool \<times> 's) res"
  doFinalization :: "ptr \<Rightarrow> 's \<Rightarrow> (bool \<times> 's) res"

definition sweepAgain ::
  "(ptr \<Rightarrow> 's \<Rightarrow> (bool \<times> 's) res) \<Rightarrow> ptr list \<Rightarrow> 's \<Rightarrow> (bool \<times> 's) res"
where
  "sweepAgain callback modules s =
     foldM (\<lambda>M (again, s). rbind (callback M s) (\<lambda>(ret, s). Inr (again \<or> ret, s)))
       modules (False, s)"

definition sweepChanged ::
  "(ptr \<Rightarrow> 's \<Rightarrow> (bool \<times> 's) res) \<Rightarrow> ptr list \<Rightarrow> 's \<Rightarrow> (uint32 \<times> 's) res"
where
  "sweepChanged callback modules s =
     foldM (\<lambda>M (changed, s). rbind (callback M s)
         (\<lambda>(ret, s). Inr (if ret then changed + 1 else changed, s)))
       modules (0, s)"

text \<open>\<open>while (c) { ... }\<close> where the body computes the next value of the condition.\<close>

definition repeatWhile :: "('c \<Rightarrow> bool) \<Rightarrow> ('s \<Rightarrow> ('c \<times> 's) res) \<Rightarrow> 'c \<Rightarrow> 's \<Rightarrow> 's res" where
  "repeatWhile go body c s =
     (case while_option (\<lambda>r. case r of Inl _ \<Rightarrow> False | Inr (c, s) \<Rightarrow> go c)
        (\<lambda>r. rbind r (\<lambda>(c, s). body s)) (Inr (c, s)) of
        None \<Rightarrow> Inl Diverges
      | Some r \<Rightarrow> rbind r (\<lambda>(c, s). Inr s))"

definition run :: "'s pass \<Rightarrow> ptr list \<Rightarrow> 's \<Rightarrow> 's res" where
  "run p modules s =
     rbind (repeatWhile (\<lambda>again. again) (sweepAgain (doInitialization p) modules) True s)
       (\<lambda>s. rbind (repeatWhile (\<lambda>changed. changed \<noteq> 0) (sweepChanged (doModulePass p) modules) 1 s)
         (\<lambda>s. repeatWhile (\<lambda>again. again) (sweepAgain (doFinalization p) modules) True s))"

end
