(* ===== verification/SecurityChecks.thy ===== *)
theory SecurityChecks
  imports Analyzer
begin

text \<open>
  \<open>SecurityChecksPass\<close> of \<open>SecurityChecks.cc\<close>: which values are error codes, which blocks set
  an error code that is returned or call an error-handling function, and which conditional
  statements are security checks because their outgoing edges differ in that.
\<close>

section \<open>Error codes\<close>

text \<open>
  \<open>ERRNO_MASK\<close> is a 32-bit literal; against an \<open>int64_t\<close> it is zero-extended, so the upper half
  of the value does not take part in the test.
\<close>

definition ERRNO_PREFIX :: size_t where "ERRNO_PREFIX = 0x4cedb000"
definition ERRNO_MASK :: size_t where "ERRNO_MASK = 0xfffff000"

definition is_errno :: "size_t \<Rightarrow> bool" where
  "is_errno x \<longleftrightarrow> x AND ERRNO_MASK = ERRNO_PREFIX"

definition isErrnoInt :: "size_t \<Rightarrow> bool" where
  "isErrnoInt value \<longleftrightarrow> is_errno (- value) \<or> is_errno value \<or> (-4096 < sint value \<and> sint value < 0)"

text \<open>The recursion follows the operands of constant expressions.\<close>

fun isValueErrnoF :: "llvm \<Rightarrow> nat \<Rightarrow> ptr \<Rightarrow> ptr \<Rightarrow> bool res" where
  "isValueErrnoF ir 0 V F = Inl Diverges"
| "isValueErrnoF ir (Suc n) V F =
     (if V = NULL then Inr False
      else if isa ir ConstantInt V \<and> isErrnoInt (sextValue ir V) then Inr True
      else if isa ir ConstantPointerNull V \<and> isPointerTy ir (returnType ir F) then Inr True
      else if isa ir ConstantExpr V then anyM (\<lambda>op. isValueErrnoF ir n op F) (operands ir V)
      else Inr False)"

definition isValueErrno :: "llvm \<Rightarrow> ptr \<Rightarrow> ptr \<Rightarrow> bool res" where
  "isValueErrno ir V F = isValueErrnoF ir (search_fuel ir) V F"

section \<open>Blocks that handle an error\<close>

definition endswith :: "string \<Rightarrow> string \<Rightarrow> bool" where
  "endswith s t \<longleftrightarrow> length t \<le> length s \<and> drop (length s - length t) s = t"

definition checkErrHandleInst ::
  "llvm \<Rightarrow> (string \<Rightarrow> string) \<Rightarrow> gctx \<Rightarrow> ptr \<Rightarrow> ptr \<Rightarrow> bb_err_map \<Rightarrow> bb_err_map res"
where
  "checkErrHandleInst ir files ctx BB I bbErrMap =
     (if isa ir CallInst I then
        rbind (getCalledFuncName ir I) (\<lambda>FuncName.
          (let FuncName = takeWhile (\<lambda>c. c \<noteq> CHR '' '') FuncName;
               funcName = (if endswith FuncName ''printk'' then getSourceFuncName ir files I
                           else FuncName)
           in if funcName \<in> ErrorHandleFuncs ctx then markBBErr BB Must_Handle_Err bbErrMap
              else Inr bbErrMap))
      else Inr bbErrMap)"

definition checkErrHandle ::
  "llvm \<Rightarrow> (string \<Rightarrow> string) \<Rightarrow> gctx \<Rightarrow> ptr \<Rightarrow> bb_err_map \<Rightarrow> bb_err_map res"
where
  "checkErrHandle ir files ctx F bbErrMap =
     foldM (\<lambda>BB. foldM (checkErrHandleInst ir files ctx BB) (insts ir BB)) (blocks ir F) bbErrMap"

section \<open>Functions that may return an error\<close>

text \<open>
  The scan of the instructions of one function: \<open>True\<close> is the \<open>return true\<close> in the middle of
  the loop; otherwise the list is what the scan pushed to \<open>EF\<close>.
\<close>

fun mayReturnErrScan :: "llvm \<Rightarrow> gctx \<Rightarrow> ptr \<Rightarrow> ptr list \<Rightarrow> ptr list \<Rightarrow> (ptr list \<times> bool) res" where
  "mayReturnErrScan ir ctx TF [] EF = Inr (EF, False)"
| "mayReturnErrScan ir ctx TF (I # Is) EF =
     (if isa ir StoreInst I then
        rbind (isValueErrno ir (valueOperand ir I) TF)
          (\<lambda>e. if e then Inr (EF, True) else mayReturnErrScan ir ctx TF Is EF)
      else if isa ir CallInst I then
        if isPointerTy ir (typeOf ir I) then Inr (EF, True)
        else if calledFunction ir I = NULL then mayReturnErrScan ir ctx TF Is EF
        else rbind (getCalledFuncName ir I) (\<lambda>FName.
          if FName = ''ERR_PTR'' \<or> FName = ''PTR_ERR'' then Inr (EF, True)
          else if Callees ctx I = {} then mayReturnErrScan ir ctx TF Is EF
          else (let CF = firstCallee ir ctx I
                in mayReturnErrScan ir ctx TF Is (if CF \<noteq> NULL then EF @ [CF] else EF)))
      else if isa ir ReturnInst I then
        (let RV = returnValue ir I
         in if RV = NULL then mayReturnErrScan ir ctx TF Is EF
            else if isa ir CallInst RV then
              (if Callees ctx RV = {} then mayReturnErrScan ir ctx TF Is EF
               else (let RF = firstCallee ir ctx RV
                     in mayReturnErrScan ir ctx TF Is (if RF \<noteq> NULL then EF @ [RF] else EF)))
            else mayReturnErrScan ir ctx TF Is EF)
      else mayReturnErrScan ir ctx TF Is EF)"

definition mayReturnErr :: "llvm \<Rightarrow> gctx \<Rightarrow> ptr \<Rightarrow> bool res" where
  "mayReturnErr ir ctx F =
     rbind (worklist (\<lambda>ret. ret) (\<lambda>x. x)
         (\<lambda>TF _. if blocks ir TF = [] then Inr ([], False)
                 else mayReturnErrScan ir ctx TF (instructions ir TF) [])
         [F] False)
       (\<lambda>(PF, ret). Inr ret)"

section \<open>Variables that hold the same value\<close>

definition sameVarLoad :: "llvm \<Rightarrow> ptr \<Rightarrow> ptr list \<times> ptr set \<Rightarrow> ptr list \<times> ptr set" where
  "sameVarLoad ir SU st = (case st of (EV, VSet) \<Rightarrow>
     (if isa ir LoadInst SU then (EV @ [SU], insert SU VSet) else (EV, VSet)))"

definition sameVarUser :: "llvm \<Rightarrow> ptr \<Rightarrow> ptr \<Rightarrow> ptr list \<times> ptr set \<Rightarrow> ptr list \<times> ptr set" where
  "sameVarUser ir TV U st =
     (if isa ir StoreInst U \<and> TV = valueOperand ir U
      then fold (sameVarLoad ir) (users ir (pointerOperand ir U)) st
      else st)"

definition findSameVariablesFrom :: "llvm \<Rightarrow> ptr \<Rightarrow> ptr set \<Rightarrow> ptr set res" where
  "findSameVariablesFrom ir V VSet =
     rbind (worklist never_stop (\<lambda>x. x)
         (\<lambda>TV VSet. Inr (fold (sameVarUser ir TV) (users ir TV) ([], VSet)))
         [V] (insert V VSet))
       (\<lambda>(PV, VSet). Inr VSet)"

definition inferErrBranch :: "ptr \<Rightarrow> nat" where
  "inferErrBranch Cond = 0"

section \<open>The flow of returned values\<close>

text \<open>
  An item of the queue is an \<open>EdgeValue\<close>; the state is the marked blocks together with the
  static set \<open>ErrSelectInstSet\<close>. Every case of the loop body is a definition: it returns the
  pushed items and the new state.
\<close>

type_synonym edge_value = "edge \<times> ptr"
type_synonym flow_state = "bb_err_map \<times> ptr set"

definition markConstant :: "llvm \<Rightarrow> ptr \<Rightarrow> ptr \<Rightarrow> ptr \<Rightarrow> bb_err_map \<Rightarrow> bb_err_map res" where
  "markConstant ir F V BB bbErrMap =
     rbind (isValueErrno ir V F)
       (\<lambda>e. markBBErr BB (if e then Must_Return_Err else May_Return_Err) bbErrMap)"

definition flowLoad ::
  "llvm \<Rightarrow> ptr \<Rightarrow> ptr \<Rightarrow> ptr \<Rightarrow> bb_err_map \<Rightarrow> (edge_value list \<times> bb_err_map) res"
where
  "flowLoad ir F LI BB bbErrMap =
     (let LPO = pointerOperand ir LI
      in foldM (\<lambda>U (EEV, bbErrMap).
           if LI = U then Inr (EEV, bbErrMap)
           else if isa ir StoreInst U \<and> LPO = pointerOperand ir U then
             (let SVO = valueOperand ir U
              in if isConstant ir SVO then
                   rbind (markConstant ir F SVO (getParent ir U) bbErrMap) (\<lambda>m. Inr (EEV, m))
                 else Inr (EEV @ [((terminator ir (getParent ir U), BB), SVO)], bbErrMap))
           else Inr (EEV, bbErrMap))
         (users ir LPO) ([], bbErrMap))"

definition flowPHI ::
  "llvm \<Rightarrow> ptr \<Rightarrow> ptr \<Rightarrow> ptr \<Rightarrow> bb_err_map \<Rightarrow> (edge_value list \<times> bb_err_map) res"
where
  "flowPHI ir F PN BB bbErrMap =
     foldM (\<lambda>(IV, inBB) (EEV, bbErrMap).
         if isConstant ir IV then
           rbind (markConstant ir F IV inBB bbErrMap) (\<lambda>m. Inr (EEV, m))
         else Inr (EEV @ [((terminator ir inBB, BB), IV)], bbErrMap))
       (incoming ir PN) ([], bbErrMap)"

text \<open>One arm of a select: whether it is a constant error code, and what it pushes.\<close>

definition flowArm :: "llvm \<Rightarrow> ptr \<Rightarrow> ptr \<Rightarrow> ptr \<Rightarrow> ptr \<Rightarrow> (bool \<times> edge_value list) res" where
  "flowArm ir F SI BB SV =
     (if isConstant ir SV then rbind (isValueErrno ir SV F) (\<lambda>flag. Inr (flag, []))
      else Inr (False, [((terminator ir (getParent ir SI), BB), SV)]))"

definition flowSelect ::
  "llvm \<Rightarrow> ptr \<Rightarrow> ptr \<Rightarrow> ptr \<Rightarrow> flow_state \<Rightarrow> (edge_value list \<times> flow_state) res"
where
  "flowSelect ir F SI BB st = (case st of (bbErrMap, ErrSelectInstSet) \<Rightarrow>
     rbind (flowArm ir F SI BB (trueValue ir SI)) (\<lambda>(flag1, EEV1).
     rbind (flowArm ir F SI BB (falseValue ir SI)) (\<lambda>(flag2, EEV2).
       if flag1 \<and> flag2 then
         rbind (markBBErr (getParent ir SI) Must_Return_Err bbErrMap)
           (\<lambda>m. Inr (EEV1 @ EEV2, m, ErrSelectInstSet))
       else if flag1 \<or> flag2 then
         rbind (markBBErr (getParent ir SI) May_Return_Err bbErrMap)
           (\<lambda>m. Inr (EEV1 @ EEV2, m, insert SI ErrSelectInstSet))
       else Inr (EEV1 @ EEV2, bbErrMap, ErrSelectInstSet))))"

text \<open>A pointer operand or the operand of a unary instruction: a constant marks the block.\<close>

definition flowOperand ::
  "llvm \<Rightarrow> ptr \<Rightarrow> ptr \<Rightarrow> ptr \<Rightarrow> ptr \<Rightarrow> bb_err_map \<Rightarrow> (edge_value list \<times> bb_err_map) res"
where
  "flowOperand ir F I BB OP bbErrMap =
     (if isConstant ir OP then
        rbind (markConstant ir F OP (getParent ir I) bbErrMap) (\<lambda>m. Inr ([], m))
      else Inr ([((terminator ir (getParent ir I), BB), OP)], bbErrMap))"

text \<open>The condition instruction of the terminator of the calling block, if it has one.\<close>

definition branchCond :: "llvm \<Rightarrow> ptr \<Rightarrow> ptr" where
  "branchCond ir TI =
     (if isa ir BranchInst TI \<or> isa ir SwitchInst TI
      then (let C = condition ir TI in if isa ir Instruction C then C else NULL)
      else NULL)"

text \<open>A call to a function that may return an error, followed by a check of its result.\<close>

definition flowCheckedCall :: "llvm \<Rightarrow> ptr \<Rightarrow> bb_err_map \<Rightarrow> bb_err_map res" where
  "flowCheckedCall ir CaI bbErrMap =
     (let CallBB = getParent ir CaI
      in rbind (markBBErr CallBB May_Return_Err bbErrMap) (\<lambda>bbErrMap.
         (let TI = terminator ir CallBB
          in if length (succs ir TI) > 1 then
               (let Cond = branchCond ir TI
                in if Cond = NULL then Inr bbErrMap
                   else rbind (findSameVariablesFrom ir CaI {}) (\<lambda>VSet.
                     (let Checked = (\<exists>op \<in> set (operands ir Cond). op \<in> VSet)
                      in if \<not> Checked then Inr bbErrMap
                         else (let BrId = inferErrBranch Cond
                               in markBBErr (succs ir TI ! BrId) Must_Return_Err bbErrMap))))
             else Inr bbErrMap)))"

definition flowCallee ::
  "llvm \<Rightarrow> gctx \<Rightarrow> ptr \<Rightarrow> bb_err_map \<Rightarrow> (edge_value list \<times> bb_err_map) res"
where
  "flowCallee ir ctx CaI bbErrMap =
     (if Callees ctx CaI = {} then Inr ([], bbErrMap)
      else (let CF = firstCallee ir ctx CaI
            in if CF = NULL then Inr ([], bbErrMap)
               else rbind (mayReturnErr ir ctx CF) (\<lambda>may.
                 rbind (if may then flowCheckedCall ir CaI bbErrMap
                        else markBBErr (getParent ir CaI) May_Return_Err bbErrMap)
                   (\<lambda>m. Inr ([], m)))))"

definition flowCall ::
  "llvm \<Rightarrow> gctx \<Rightarrow> ptr \<Rightarrow> ptr \<Rightarrow> ptr \<Rightarrow> bb_err_map \<Rightarrow> (edge_value list \<times> bb_err_map) res"
where
  "flowCall ir ctx F CaI BB bbErrMap =
     (if calledFunction ir CaI = NULL then Inr ([], bbErrMap)
      else rbind (getCalledFuncName ir CaI) (\<lambda>FName.
        if FName = ''PTR_ERR'' \<or> FName = ''ERR_PTR'' then
          rbind (markBBErr (getParent ir CaI) Must_Return_Err bbErrMap) (\<lambda>m. Inr ([], m))
        else (case CopyFuncs ctx FName of
            Some (src, dst, sz) \<Rightarrow>
              if dst = -1 then
                (if unat src < length (argOperands ir CaI) then
                   (let Arg = argOperands ir CaI ! unat src
                    in rbind (isValueErrno ir Arg F) (\<lambda>e.
                       if e then rbind (markBBErr (getParent ir CaI) Must_Return_Err bbErrMap)
                                   (\<lambda>m. Inr ([], m))
                       else Inr ([((terminator ir (getParent ir CaI), BB), Arg)], bbErrMap)))
                 else Inl OutOfRange)
              else flowCallee ir ctx CaI bbErrMap
          | None \<Rightarrow> flowCallee ir ctx CaI bbErrMap)))"

text \<open>The static set is untouched by every case but the select.\<close>

definition keepSelects ::
  "ptr set \<Rightarrow> (edge_value list \<times> bb_err_map) res \<Rightarrow> (edge_value list \<times> flow_state) res"
where
  "keepSelects ErrSelectInstSet r = rbind r (\<lambda>(EEV, m). Inr (EEV, m, ErrSelectInstSet))"

definition valueFlowBody ::
  "llvm \<Rightarrow> gctx \<Rightarrow> ptr \<Rightarrow> edge_value \<Rightarrow> flow_state \<Rightarrow> (edge_value list \<times> flow_state) res"
where
  "valueFlowBody ir ctx F EV st =
     (let V = snd EV; (bbErrMap, Sel) = st
      in if \<not> isa ir Instruction V then Inr ([], st)
         else (let BB = getParent ir V
               in if isa ir LoadInst V then keepSelects Sel (flowLoad ir F V BB bbErrMap)
                  else if isa ir PHINode V then keepSelects Sel (flowPHI ir F V BB bbErrMap)
                  else if isa ir SelectInst V then flowSelect ir F V BB st
                  else if isa ir GetElementPtrInst V then
                    keepSelects Sel (flowOperand ir F V BB (pointerOperand ir V) bbErrMap)
                  else if isa ir CallInst V then keepSelects Sel (flowCall ir ctx F V BB bbErrMap)
                  else if isa ir ICmpInst V \<or> isa ir Argument V \<or> isConstant ir V then Inr ([], st)
                  else if isa ir UnaryInstruction V then
                    (case operands ir V of
                       UO # _ \<Rightarrow> keepSelects Sel (flowOperand ir F V BB UO bbErrMap)
                     | [] \<Rightarrow> Inl OutOfRange)
                  else if isa ir BinaryOperator V then
                    rbind (markBBErr (getParent ir V) May_Return_Err bbErrMap)
                      (\<lambda>m. Inr ([], m, Sel))
                  else Inr ([], st)))"

text \<open>
  \<open>PV\<close> is shared by the return instructions of a function. A null value is skipped like a
  processed one, so the loop runs with \<open>NULL\<close> among the processed values.
\<close>

definition checkErrValueFlow ::
  "llvm \<Rightarrow> gctx \<Rightarrow> ptr \<Rightarrow> ptr \<Rightarrow> ptr set \<times> flow_state \<Rightarrow> (ptr set \<times> flow_state) res"
where
  "checkErrValueFlow ir ctx F RI st = (case st of (PV, fs) \<Rightarrow>
     (let RV = returnValue ir RI
      in if RV = NULL then Inr (PV, fs)
         else rbind (worklist_from never_stop snd (valueFlowBody ir ctx F)
                       [((NULL, getParent ir RI), RV)] (insert NULL PV) fs)
                (\<lambda>(PV, fs). Inr (PV - {NULL}, fs))))"

definition checkErrReturn :: "llvm \<Rightarrow> gctx \<Rightarrow> ptr \<Rightarrow> flow_state \<Rightarrow> flow_state res" where
  "checkErrReturn ir ctx F fs =
     rbind (foldM (\<lambda>I st. if isa ir ReturnInst I then checkErrValueFlow ir ctx F I st else Inr st)
              (instructions ir F) ({}, fs))
       (\<lambda>(PV, fs). Inr fs)"

section \<open>Security checks\<close>

definition addSecurityCheck ::
  "llvm \<Rightarrow> ptr \<Rightarrow> ptr \<Rightarrow> security_check list \<Rightarrow> security_check list"
where
  "addSecurityCheck ir SC Br SCSet =
     (if \<exists>TSC \<in> set SCSet. SCheck TSC = SC then SCSet else SCSet @ [newSecurityCheck ir SC Br])"

text \<open>The counters of the successor loop and the map, whose entries the loop creates.\<close>

record branch_counts =
  NumMustErrReturn :: nat
  NumMayErrReturn :: nat
  NumMustErrHandle :: nat
  NumMayErrHandle :: nat

definition countSuccessor ::
  "ptr \<Rightarrow> ptr \<Rightarrow> branch_counts \<times> edge_err_map \<Rightarrow> branch_counts \<times> edge_err_map"
where
  "countSuccessor Inst Succ st = (case st of (n, edgeErrMap) \<Rightarrow>
     (let edgeErrMap = map_touch edgeErrMap (Inst, Succ);
          errFlag = map_at edgeErrMap (Inst, Succ);
          n = (if errFlag AND Must_Return_Err \<noteq> 0
               then n\<lparr>NumMustErrReturn := Suc (NumMustErrReturn n)\<rparr>
               else n\<lparr>NumMayErrReturn := Suc (NumMayErrReturn n)\<rparr>);
          n = (if errFlag AND Must_Handle_Err \<noteq> 0
               then n\<lparr>NumMustErrHandle := Suc (NumMustErrHandle n)\<rparr>
               else n\<lparr>NumMayErrHandle := Suc (NumMayErrHandle n)\<rparr>)
      in (n, edgeErrMap)))"

definition isMixedBranch :: "branch_counts \<Rightarrow> bool" where
  "isMixedBranch n \<longleftrightarrow>
     (NumMustErrReturn n \<noteq> 0 \<and> NumMayErrReturn n \<noteq> 0) \<or>
     (NumMustErrHandle n \<noteq> 0 \<and> NumMayErrHandle n \<noteq> 0)"

type_synonym ident_state = "edge_err_map \<times> security_check list \<times> uint32"

definition identifyInst :: "llvm \<Rightarrow> ptr set \<Rightarrow> ptr \<Rightarrow> ident_state \<Rightarrow> ident_state" where
  "identifyInst ir ErrSelectInstSet Inst st = (case st of (edgeErrMap, SCSet, NumCond) \<Rightarrow>
     if isa ir BranchInst Inst \<or> isa ir SwitchInst Inst then
       (if length (succs ir Inst) < 2 then (edgeErrMap, SCSet, NumCond)
        else
          (let NumCond = NumCond + 1;
               BB = getParent ir Inst;
               (n, edgeErrMap) = fold (countSuccessor Inst) (successors ir BB)
                 (\<lparr> NumMustErrReturn = 0, NumMayErrReturn = 0,
                    NumMustErrHandle = 0, NumMayErrHandle = 0 \<rparr>, edgeErrMap);
               Cond = condition ir Inst
           in if \<not> isMixedBranch n then (edgeErrMap, SCSet, NumCond)
              else (edgeErrMap,
                    if Cond \<noteq> NULL then addSecurityCheck ir Cond Inst SCSet else SCSet, NumCond)))
     else if isa ir SelectInst Inst then
       (let NumCond = NumCond + 1;
            Cond = condition ir Inst
        in if Inst \<notin> ErrSelectInstSet then (edgeErrMap, SCSet, NumCond)
           else (edgeErrMap,
                 if Cond \<noteq> NULL then addSecurityCheck ir Cond Inst SCSet else SCSet, NumCond))
     else (edgeErrMap, SCSet, NumCond))"

text \<open>
  The pass threads the global context and its static set. The result for one function: the
  marked edges, the security checks in the order they were found, and the new state.
\<close>

type_synonym sc_state = "gctx \<times> ptr set"

definition identifySecurityChecks ::
  "llvm \<Rightarrow> (string \<Rightarrow> string) \<Rightarrow> ptr \<Rightarrow> sc_state \<Rightarrow> (edge_err_map \<times> security_check list \<times> sc_state) res"
where
  "identifySecurityChecks ir files F st = (case st of (ctx, Sel) \<Rightarrow>
     rbind (checkErrReturn ir ctx F (Map.empty, Sel)) (\<lambda>(bbErrMap, Sel).
     rbind (checkErrHandle ir files ctx F bbErrMap) (\<lambda>bbErrMap.
     rbind (markAllEdgesErrFlag ir F bbErrMap Map.empty) (\<lambda>(_, edgeErrMap).
       if edgeErrMap = Map.empty \<and> Sel = {} then Inr (edgeErrMap, [], ctx, Sel)
       else
         (let (edgeErrMap, SCSet, NumCond) =
                fold (identifyInst ir Sel) (instructions ir F) (edgeErrMap, [], NumCondStatements ctx)
          in Inr (edgeErrMap, SCSet, ctx\<lparr>NumCondStatements := NumCond\<rparr>, Sel))))))"

section \<open>The module pass\<close>

text \<open>
  \<open>std::set<SecurityCheck>\<close>: ordered by \<open>SCheck\<close>; an equivalent element keeps its place.
\<close>

definition insertSecurityCheck :: "security_check \<Rightarrow> security_check list \<Rightarrow> security_check list" where
  "insertSecurityCheck SC SCs =
     (if \<exists>x \<in> set SCs. \<not> security_check_less x SC \<and> \<not> security_check_less SC x then SCs
      else takeWhile (\<lambda>x. security_check_less x SC) SCs @ SC #
           dropWhile (\<lambda>x. security_check_less x SC) SCs)"

definition recordCheck :: "ptr \<Rightarrow> security_check \<Rightarrow> gctx \<Rightarrow> gctx" where
  "recordCheck F SC ctx =
     ctx\<lparr>SecurityCheckSets := (SecurityCheckSets ctx)
           (F := insertSecurityCheck SC (SecurityCheckSets ctx F)),
         CheckInstSets := (CheckInstSets ctx)(F := insert (SCheck SC) (CheckInstSets ctx F))\<rparr>"

definition passFunction ::
  "llvm \<Rightarrow> (string \<Rightarrow> string) \<Rightarrow> ptr \<Rightarrow> sc_state \<Rightarrow> sc_state res"
where
  "passFunction ir files F st =
     (if blocks ir F = [] then Inr st
      else if length (blocks ir F) > MAX_BLOCKS_SUPPORT then Inr st
      else if F \<notin> UnifiedFuncSet (fst st) then Inr st
      else rbind (identifySecurityChecks ir files F st) (\<lambda>(edgeErrMap, SCSet, ctx, Sel).
        if SCSet = [] then Inr (ctx, Sel)
        else (let ctx = ctx\<lparr>NumSecurityChecks := NumSecurityChecks ctx + of_nat (length SCSet)\<rparr>
              in Inr (fold (recordCheck F) SCSet ctx, Sel))))"

definition SecurityChecks_doModulePass ::
  "llvm \<Rightarrow> (string \<Rightarrow> string) \<Rightarrow> ptr \<Rightarrow> sc_state \<Rightarrow> (bool \<times> sc_state) res"
where
  "SecurityChecks_doModulePass ir files M st =
     rbind (foldM (passFunction ir files) (moduleFunctions ir M) st) (\<lambda>st. Inr (False, st))"

definition SecurityChecksPass :: "llvm \<Rightarrow> (string \<Rightarrow> string) \<Rightarrow> sc_state pass" where
  "SecurityChecksPass ir files =
     \<lparr> doInitialization = (\<lambda>M st. Inr (False, st)),
       doModulePass = SecurityChecks_doModulePass ir files,
       doFinalization = (\<lambda>M st. Inr (False, st)) \<rparr>"

end
