(* ===== verification/EdgeMarking.thy ===== *)
theory EdgeMarking
  imports SecurityEdges
begin

text \<open>
  What the two backward markings have in common (\<open>recurMarkEdgesToErrHandle\<close>,
  \<open>recurMarkEdgesToErrReturn\<close>): the contract \<open>pred_marker\<close> of the loop over predecessors, and,
  proved once from it, what the whole worklist computes: the edges into a backward region of
  the control-flow graph are updated, every other edge keeps its flag.
\<close>

section \<open>The contract\<close>

definition edges_into :: "llvm \<Rightarrow> ptr set \<Rightarrow> edge set" where
  "edges_into ir R = {(terminator ir p, b) | p b. b \<in> R \<and> p \<in> set (predecessors ir b)}"

lemma edges_into_empty [simp]: "edges_into ir {} = {}"
  by (simp add: edges_into_def)

lemma edges_into_insert:
  "edges_into ir (insert b R) = edges_into ir R \<union> {(terminator ir p, b) | p. p \<in> set (predecessors ir b)}"
  by (auto simp: edges_into_def)

lemma edges_into_snd: "e \<in> edges_into ir R \<Longrightarrow> snd e \<in> R"
  by (auto simp: edges_into_def)

locale pred_marker =
  fixes ir :: llvm
    and mark :: "ptr \<Rightarrow> ptr \<Rightarrow> ptr list \<times> edge_err_map \<Rightarrow> ptr list \<times> edge_err_map"
    and skip :: "int32 \<Rightarrow> bool" and upd :: "int32 \<Rightarrow> int32" and follows :: "ptr \<Rightarrow> bool"
  assumes mark_eq: "mark TB p (EB, m) =
      (let v = map_at m (terminator ir p, TB); m' = map_touch m (terminator ir p, TB)
       in if skip v then (EB, m')
          else (if follows p then EB @ [p] else EB, m'((terminator ir p, TB) \<mapsto> upd v)))"
    and skip_upd: "skip v \<Longrightarrow> upd v = v"
    and upd_idem: "upd (upd v) = upd v"
begin

lemma mark_preds:
  assumes "inj_on (terminator ir) (set ps)" and "fold (mark TB) ps (EB, m) = (EB', m')"
  shows "set EB' = set EB \<union> {p \<in> set ps. \<not> skip (map_at m (terminator ir p, TB)) \<and> follows p}
    \<and> (\<forall>e. map_at m' e =
        (if \<exists>p \<in> set ps. e = (terminator ir p, TB) then upd (map_at m e) else map_at m e))
    \<and> dom m' = dom m \<union> {(terminator ir p, TB) | p. p \<in> set ps}"
  using assms
proof (induction ps arbitrary: EB m)
  case Nil
  then show ?case by simp
next
  case (Cons p ps)
  let ?e = "(terminator ir p, TB)"
  obtain EB1 m1 where 1: "mark TB p (EB, m) = (EB1, m1)" by fastforce
  have EB1: "set EB1 = set EB \<union> (if \<not> skip (map_at m ?e) \<and> follows p then {p} else {})"
    and m1: "\<And>e. map_at m1 e = (if e = ?e then upd (map_at m e) else map_at m e)"
    using 1 skip_upd [of "map_at m ?e"] by (auto simp: mark_eq Let_def split: if_splits)
  have "m1 = snd (mark TB p (EB, m))" by (simp add: 1)
  then have d1: "dom m1 = insert ?e (dom m)"
    by (cases "skip (map_at m ?e)") (simp_all add: mark_eq Let_def)
  have inj: "\<And>q. q \<in> set ps \<Longrightarrow> terminator ir q = terminator ir p \<Longrightarrow> q = p"
    using Cons.prems(1) by (auto simp: inj_on_def)
  from Cons.prems 1 have "inj_on (terminator ir) (set ps)" "fold (mark TB) ps (EB1, m1) = (EB', m')"
    by (auto simp: inj_on_def)
  from Cons.IH [OF this]
  have IH1: "set EB' = set EB1 \<union> {q \<in> set ps. \<not> skip (map_at m1 (terminator ir q, TB)) \<and> follows q}"
    and IH2: "\<And>e. map_at m' e =
      (if \<exists>q \<in> set ps. e = (terminator ir q, TB) then upd (map_at m1 e) else map_at m1 e)"
    and IH3: "dom m' = dom m1 \<union> {(terminator ir q, TB) | q. q \<in> set ps}"
    by blast+
  have skip: "\<not> skip (upd v) \<Longrightarrow> \<not> skip v" for v using skip_upd by metis
  have "set EB' = set EB \<union> {q \<in> set (p # ps). \<not> skip (map_at m (terminator ir q, TB)) \<and> follows q}"
    unfolding IH1 EB1 m1 using inj by (auto dest: skip)
  moreover have "map_at m' e = (if \<exists>q \<in> set (p # ps). e = (terminator ir q, TB)
      then upd (map_at m e) else map_at m e)" for e
    by (auto simp: IH2 m1 upd_idem)
  moreover have "dom m' = dom m \<union> {(terminator ir q, TB) | q. q \<in> set (p # ps)}"
  proof -
    from IH3 d1 have "dom m' = insert ?e (dom m) \<union> {(terminator ir q, TB) | q. q \<in> set ps}" by metis
    then show ?thesis by (simp only: set_simps) blast
  qed
  ultimately show ?case by blast
qed

text \<open>The backward region from the flags \<open>m0\<close> at the start.\<close>

abbreviation backward :: "edge_err_map \<Rightarrow> ptr \<Rightarrow> ptr set" where
  "backward m0 b \<equiv> {p \<in> set (predecessors ir b). \<not> skip (map_at m0 (terminator ir p, b)) \<and> follows p}"

abbreviation marked :: "edge_err_map \<Rightarrow> ptr set \<Rightarrow> edge_err_map \<Rightarrow> bool" where
  "marked m0 R m \<equiv>
     (\<forall>e. map_at m e = (if e \<in> edges_into ir R then upd (map_at m0 e) else map_at m0 e)) \<and>
     dom m = dom m0 \<union> edges_into ir R"

sublocale back_search: worklist_search
  "\<lambda>TB m. Inr (fold (mark TB) (predecessors ir TB) ([], m))"
  "set (blocks ir F)" "\<lambda>b. b \<in> set (blocks ir F)" "\<lambda>R m. wf_cfg ir F \<and> marked m0 R m" "backward m0"
  for F m0
proof unfold_locales
  fix b R m
  let ?ps = "predecessors ir b"
  assume b: "b \<in> set (blocks ir F)" and I: "wf_cfg ir F \<and> marked m0 R m" and fresh: "b \<notin> R"
  obtain new m' where f: "fold (mark b) ?ps ([], m) = (new, m')" by fastforce
  have inj: "inj_on (terminator ir) (set ?ps)"
    using I b wf_cfgD(3) by (intro inj_onI) (meson subsetD wf_cfg_terminator_inj)
  have old: "\<And>t. map_at m (t, b) = map_at m0 (t, b)"
    using I fresh by (auto dest: edges_into_snd)
  note M = mark_preds [OF inj f]
  have pushed: "set new = backward m0 b" using M by (simp add: old)
  have "marked m0 (insert b R) m'"
    using M I old unfolding edges_into_insert by (auto simp: edges_into_def upd_idem)
  moreover have "\<forall>p \<in> set new. p \<in> set (blocks ir F)"
    using I b wf_cfgD(3) pushed by blast
  ultimately show "returns (Inr (fold (mark b) ?ps ([], m)))
      (\<lambda>(new, m'). (\<forall>y \<in> set new. y \<in> set (blocks ir F)) \<and> wf_cfg ir F \<and> marked m0 (insert b R) m')"
    using f I by simp
  show "\<And>nw m1. Inr (fold (mark b) ?ps ([], m)) = Inr (nw, m1) \<Longrightarrow> set nw = backward m0 b"
    using f pushed by simp
qed (auto)

lemma marks_region:
  assumes "wf_cfg ir F" and "BB \<in> set (blocks ir F)"
  shows "returns
    (worklist never_stop (\<lambda>x. x) (\<lambda>TB m. Inr (fold (mark TB) (predecessors ir TB) ([], m))) [BB] m0)
    (\<lambda>(R, m). R = reach_set (backward m0) {BB} \<and> marked m0 R m)"
  using back_search.loop_reaches [of "[BB]" F m0 m0] assms
  by (auto elim!: returns_mono)

end

end
