(* ===== verification/EdgeTheorems.thy ===== *)
theory EdgeTheorems
  imports EdgeMarking
begin

text \<open>
  What the edge markings of \<open>SecurityChecks.cc\<close> do: both backward markings update exactly the
  edges into a backward region; the forward and the Must-propagating loops return on every
  finite control-flow graph and leave the error-handling half of every flag alone; and the
  whole pass \<open>markAllEdgesErrFlag\<close> marks as \<open>Must_Handle_Err\<close> exactly the edges into the
  straight-line backward closure of the error-handling blocks.
\<close>

section \<open>The two backward markings\<close>

interpretation err_handle: pred_marker ir "markPredErrHandle ir" "\<lambda>v. bit v 4"
  "\<lambda>v. updateHandleFlag v Must_Handle_Err" "\<lambda>p. \<not> length (successors ir p) > 1" for ir
  by unfold_locales
     (auto simp: markPredErrHandle_def Let_def test_flag updateHandleFlag_must successors_def)

interpretation err_return: pred_marker ir "markPredErrReturn ir flag"
  "\<lambda>v. retBits v = retBits flag" "\<lambda>v. updateReturnFlag v flag" "\<lambda>_. True" for ir flag
proof unfold_locales
  show "updateReturnFlag (updateReturnFlag v flag) flag = updateReturnFlag v flag" for v
    by (cases "retBits flag = 0") (simp add: updateReturnFlag_alt, simp add: updateReturnFlag_same)
qed (auto simp: markPredErrReturn_def Let_def retBits_def [symmetric] updateReturnFlag_same)

text \<open>The backward regions, with the flags \<open>m\<close> at the start.\<close>

definition handle_region :: "llvm \<Rightarrow> edge_err_map \<Rightarrow> ptr \<Rightarrow> ptr set" where
  "handle_region ir m BB = reach_set
     (\<lambda>b. {p \<in> set (predecessors ir b).
        \<not> bit (map_at m (terminator ir p, b)) 4 \<and> \<not> length (successors ir p) > 1}) {BB}"

definition return_region :: "llvm \<Rightarrow> int32 \<Rightarrow> edge_err_map \<Rightarrow> ptr \<Rightarrow> ptr set" where
  "return_region ir flag m BB = reach_set
     (\<lambda>b. {p \<in> set (predecessors ir b).
        retBits (map_at m (terminator ir p, b)) \<noteq> retBits flag}) {BB}"

lemma recurMarkEdgesToErrHandle_returns:
  assumes "wf_cfg ir F" "BB \<in> set (blocks ir F)"
  shows "returns (recurMarkEdgesToErrHandle ir BB m) (\<lambda>m'.
    (\<forall>e. map_at m' e =
      (if e \<in> edges_into ir (handle_region ir m BB)
       then updateHandleFlag (map_at m e) Must_Handle_Err else map_at m e)) \<and>
    dom m' = dom m \<union> edges_into ir (handle_region ir m BB))"
  unfolding recurMarkEdgesToErrHandle_def handle_region_def using wf_cfgD(4) [OF assms]
  by (auto intro!: returns_rbind [OF err_handle.marks_region [OF assms(1,2)]])

lemma recurMarkEdgesToErrReturn_returns:
  assumes "wf_cfg ir F" "BB \<in> set (blocks ir F)"
  shows "returns (recurMarkEdgesToErrReturn ir BB flag m) (\<lambda>m'.
    (\<forall>e. map_at m' e =
      (if e \<in> edges_into ir (return_region ir flag m BB)
       then updateReturnFlag (map_at m e) flag else map_at m e)) \<and>
    dom m' = dom m \<union> edges_into ir (return_region ir flag m BB))"
  unfolding recurMarkEdgesToErrReturn_def return_region_def using wf_cfgD(4) [OF assms]
  by (auto intro!: returns_rbind [OF err_return.marks_region [OF assms(1,2)]])

section \<open>The propagating loops keep the error-handling half\<close>

definition restBits :: "int32 \<Rightarrow> int32" where "restBits f = f AND NOT ERR_RETURN_MASK"

lemma restBits_updateReturnFlag [simp]: "restBits (updateReturnFlag e n) = restBits e"
  by (simp add: restBits_def)

lemma bit_restBits [simp]: "bit (restBits f) n \<longleftrightarrow> bit f n \<and> 4 \<le> n"
  by (cases "n < 32") (auto simp: restBits_def bit_and_iff bit_not_iff dest: bit_imp_le_length)

definition same_rest :: "edge_err_map \<Rightarrow> edge_err_map \<Rightarrow> bool" where
  "same_rest m m' \<longleftrightarrow> (\<forall>e. restBits (map_at m' e) = restBits (map_at m e))"

lemma same_rest_refl [simp, intro]: "same_rest m m"
  by (simp add: same_rest_def)

lemma same_rest_trans [trans]: "same_rest m n \<Longrightarrow> same_rest n k \<Longrightarrow> same_rest m k"
  by (simp add: same_rest_def)

lemma same_rest_touch [simp]: "same_rest m (map_touch n e) = same_rest m n"
  by (simp add: same_rest_def)

lemma same_rest_mark:
  "same_rest m n \<Longrightarrow> v = map_at n e \<Longrightarrow> same_rest m (n(e \<mapsto> updateReturnFlag v f))"
  by (auto simp: same_rest_def)

lemma same_rest_fold:
  assumes "\<And>x s. x \<in> set xs \<Longrightarrow> same_rest m (snd s) \<Longrightarrow> same_rest m (snd (f x s))"
    and "same_rest m (snd s)"
  shows "same_rest m (snd (fold f xs s))"
  using assms by (induction xs arbitrary: s) auto

lemma same_rest_integrate: "same_rest m (snd s) \<Longrightarrow> same_rest m (snd (integrateIncoming ir E p s))"
  by (auto simp: integrateIncoming_def Let_def split: prod.splits)

lemma same_rest_spread: "same_rest m (snd s) \<Longrightarrow> same_rest m (snd (spreadToSucc TI f b s))"
  by (auto simp: spreadToSucc_def Let_def intro!: same_rest_mark split: prod.splits)

lemma same_rest_raise: "same_rest m (snd s) \<Longrightarrow> same_rest m (snd (raiseToMust ir TB f b s))"
  by (auto simp: raiseToMust_def Let_def intro!: same_rest_mark split: prod.splits)

lemma same_rest_scan:
  "same_rest m (snd (snd (snd s))) \<Longrightarrow> same_rest m (snd (snd (snd (scanOutgoing ir E TB b s))))"
  by (auto simp: scanOutgoing_def Let_def split: prod.splits if_splits)

lemma same_rest_scan_fold:
  "same_rest m (snd (snd (snd s))) \<Longrightarrow>
   same_rest m (snd (snd (snd (fold (scanOutgoing ir E TB) xs s))))"
proof (induction xs arbitrary: s)
  case (Cons x xs)
  from Cons.IH [OF same_rest_scan [OF Cons.prems]] show ?case by simp
qed simp

lemma same_rest_ErrReturn:
  assumes "wf_cfg ir F" "BB \<in> set (blocks ir F)" "same_rest m n"
  shows "returns (recurMarkEdgesToErrReturn ir BB flag n) (same_rest m)"
  using recurMarkEdgesToErrReturn_returns [OF assms(1,2), of flag n] assms(3)
  by (auto simp: same_rest_def elim!: returns_mono)

text \<open>The items of the two loops: edges between blocks of the function.\<close>

definition cfg_edges :: "llvm \<Rightarrow> ptr \<Rightarrow> edge set" where
  "cfg_edges ir F = (\<lambda>(b, c). (terminator ir b, c)) ` (set (blocks ir F) \<times> set (blocks ir F))"

lemma cfg_edges_iff:
  "(t, c) \<in> cfg_edges ir F \<longleftrightarrow>
   c \<in> set (blocks ir F) \<and> (\<exists>b \<in> set (blocks ir F). t = terminator ir b)"
  by (auto simp: cfg_edges_def)

lemma finite_cfg_edges [simp]: "finite (cfg_edges ir F)"
  by (simp add: cfg_edges_def)

lemma cfg_edges_pred:
  "wf_cfg ir F \<Longrightarrow> b \<in> set (blocks ir F) \<Longrightarrow> p \<in> set (predecessors ir b) \<Longrightarrow>
   (terminator ir p, b) \<in> cfg_edges ir F"
  using wf_cfgD(3) by (fastforce simp: cfg_edges_iff)

lemma cfg_edges_succ:
  "wf_cfg ir F \<Longrightarrow> b \<in> set (blocks ir F) \<Longrightarrow> c \<in> set (successors ir b) \<Longrightarrow>
   (terminator ir b, c) \<in> cfg_edges ir F"
  using wf_cfgD(2) by (fastforce simp: cfg_edges_iff)

section \<open>The forward loop\<close>

lemma fromBlockBody_returns:
  assumes wf: "wf_cfg ir F" and x: "fst x \<in> cfg_edges ir F" and m: "same_rest m n"
  shows "returns (fromBlockBody ir x n)
    (\<lambda>(new, n'). (\<forall>y \<in> set new. fst y \<in> cfg_edges ir F) \<and> same_rest m n')"
proof -
  let ?TB = "snd (fst x)"
  have TB: "?TB \<in> set (blocks ir F)" using x by (cases x, cases "fst x") (auto simp: cfg_edges_iff)
  obtain f n1 where 1: "fold (integrateIncoming ir (fst x)) (predecessors ir ?TB) (snd x, n) = (f, n1)"
    by fastforce
  have n1: "same_rest m n1"
    using same_rest_fold [of "predecessors ir ?TB" m "integrateIncoming ir (fst x)" "(snd x, n)"]
      same_rest_integrate m 1 by simp
  let ?s = "fold (spreadToSucc (terminator ir ?TB) f) (successors ir ?TB) ([], n1)"
  have "same_rest m (snd ?s)"
    using n1 by (intro same_rest_fold) (auto intro: same_rest_spread)
  moreover have "\<forall>y \<in> set (fst (fold (spreadToSucc (terminator ir ?TB) f) cs s)). fst y \<in> cfg_edges ir F"
    if "set cs \<subseteq> set (successors ir ?TB)" "\<forall>y \<in> set (fst s). fst y \<in> cfg_edges ir F" for cs s
    using that
  proof (induction cs arbitrary: s)
    case (Cons c cs)
    then have "\<forall>y \<in> set (fst (spreadToSucc (terminator ir ?TB) f c s)). fst y \<in> cfg_edges ir F"
      using cfg_edges_succ [OF wf TB, of c] by (auto simp: spreadToSucc_def Let_def split: prod.splits)
    with Cons show ?case by simp
  qed simp
  from this [of "successors ir ?TB" "([], n1)"]
  have "\<forall>y \<in> set (fst ?s). fst y \<in> cfg_edges ir F" by simp
  ultimately show ?thesis using m 1
    by (auto simp: fromBlockBody_def Let_def split: prod.splits)
qed

interpretation from_block: worklist_total never_stop fst "fromBlockBody ir" "cfg_edges ir F"
  "\<lambda>x. fst x \<in> cfg_edges ir F" "\<lambda>_ n. wf_cfg ir F \<and> same_rest m n" for ir F m
  by unfold_locales (auto dest: fromBlockBody_returns [of ir F _ m] elim!: returns_mono)

lemma recurMarkEdgesFromBlock_returns:
  assumes "wf_cfg ir F" "CE \<in> cfg_edges ir F" "same_rest m n"
  shows "returns (recurMarkEdgesFromBlock ir CE flag bbErrMap n) (same_rest m)"
  unfolding recurMarkEdgesFromBlock_def Let_def
  using from_block.loop_returns [of "[(CE, flag)]" ir F m n] assms
  by (auto intro!: returns_rbind [where R = "\<lambda>(P, n). same_rest m n"] elim!: returns_mono)

section \<open>The Must-propagating loop\<close>

lemma toBlockBody_returns:
  assumes wf: "wf_cfg ir F" and x: "fst x \<in> cfg_edges ir F" and m: "same_rest m n"
  shows "returns (toBlockBody ir x n)
    (\<lambda>(new, n'). (\<forall>y \<in> set new. fst y \<in> cfg_edges ir F) \<and> same_rest m n')"
proof -
  let ?TB = "getParent ir (fst (fst x))"
  have TB: "?TB \<in> set (blocks ir F)"
    using x wf by (cases x, cases "fst x") (auto simp: cfg_edges_iff wf_cfgD(1))
  have may: "returns (rbind (recurMarkEdgesToErrReturn ir ?TB f k) (\<lambda>m. Inr ([], m)))
      (\<lambda>(new, n'). (\<forall>y \<in> set new. fst y \<in> cfg_edges ir F) \<and> same_rest m n')"
    if "same_rest m k" for f k and a :: "(edge \<times> int32) list"
    using same_rest_ErrReturn [OF wf TB that] by (auto intro!: returns_rbind)
  obtain am az br n1 where 1: "fold (scanOutgoing ir (fst x) ?TB) (successors ir ?TB)
      (True, True, False, n) = (am, az, br, n1)"
    by (metis prod_cases4)
  have n1: "same_rest m n1"
    using same_rest_scan_fold [of m "(True, True, False, n)" ir "fst x" ?TB "successors ir ?TB"] 1 m
    by simp
  let ?r = "\<lambda>ps s. fold (raiseToMust ir ?TB Must_Return_Err) ps s"
  have raise: "(\<forall>y \<in> set (fst (?r ps s)). fst y \<in> cfg_edges ir F) \<and> same_rest m (snd (?r ps s))"
    if "set ps \<subseteq> set (predecessors ir ?TB)" "\<forall>y \<in> set (fst s). fst y \<in> cfg_edges ir F"
      "same_rest m (snd s)" for ps s
    using that
  proof (induction ps arbitrary: s)
    case (Cons p ps)
    then have "\<forall>y \<in> set (fst (raiseToMust ir ?TB Must_Return_Err p s)). fst y \<in> cfg_edges ir F"
      using cfg_edges_pred [OF wf TB, of p] by (auto simp: raiseToMust_def Let_def split: prod.splits)
    with Cons show ?case by (simp add: same_rest_raise)
  qed simp
  from raise [of "predecessors ir ?TB" "([], n1)"] n1
  have "returns (Inr (?r (predecessors ir ?TB) ([], n1)))
      (\<lambda>(new, n'). (\<forall>y \<in> set new. fst y \<in> cfg_edges ir F) \<and> same_rest m n')"
    by (auto split: prod.splits)
  with m n1 1 may show ?thesis by (auto simp: toBlockBody_def Let_def)
qed

interpretation to_block: worklist_total never_stop fst "toBlockBody ir" "cfg_edges ir F"
  "\<lambda>x. fst x \<in> cfg_edges ir F" "\<lambda>_ n. wf_cfg ir F \<and> same_rest m n" for ir F m
  by unfold_locales (auto dest: toBlockBody_returns [of ir F _ m] elim!: returns_mono)

lemma recurMarkEdgesToBlock_returns:
  assumes "wf_cfg ir F" "CE \<in> cfg_edges ir F" "same_rest m n"
  shows "returns (recurMarkEdgesToBlock ir CE flag bbErrMap n) (same_rest m)"
  unfolding recurMarkEdgesToBlock_def
  using to_block.loop_returns [of "[(CE, flag)]" ir F m n] assms
  by (auto intro!: returns_rbind [where R = "\<lambda>(P, n). same_rest m n"] elim!: returns_mono)

section \<open>All edges\<close>

text \<open>
  The predecessors a handling mark is carried to: those that do not branch. Starting from
  the blocks that handle errors, they form the straight-line backward closure.
\<close>

definition straight_preds :: "llvm \<Rightarrow> ptr \<Rightarrow> ptr set" where
  "straight_preds ir b = {p \<in> set (predecessors ir b). \<not> length (successors ir p) > 1}"

definition handle_marks :: "llvm \<Rightarrow> ptr set \<Rightarrow> edge_err_map \<Rightarrow> bool" where
  "handle_marks ir S m \<longleftrightarrow>
     (\<forall>e. bit (map_at m e) 4 \<longleftrightarrow> e \<in> edges_into ir (reach_set (straight_preds ir) S))"

lemma handle_region_union:
  assumes "handle_marks ir S m"
  shows "handle_region ir m b \<union> reach_set (straight_preds ir) S
    = reach_set (straight_preds ir) (insert b S)"
proof (rule reach_set_eqI)
  let ?X = "reach_set (straight_preds ir) S" and ?R = "handle_region ir m b"
  let ?nx = "\<lambda>c. {p \<in> set (predecessors ir c).
    \<not> bit (map_at m (terminator ir p, c)) 4 \<and> \<not> length (successors ir p) > 1}"
  have "bit (map_at m (terminator ir p, c)) 4 \<longleftrightarrow> c \<in> ?X" if "p \<in> set (predecessors ir c)" for p c
  proof -
    have "(terminator ir p, c) \<in> edges_into ir ?X \<longleftrightarrow> c \<in> ?X"
      using that edges_into_snd [of "(terminator ir p, c)"] by (auto simp: edges_into_def)
    with assms show ?thesis by (simp add: handle_marks_def)
  qed
  then have nx: "?nx c = (if c \<in> ?X then {} else straight_preds ir c)" for c
    by (auto simp: straight_preds_def)
  have R: "?R = reach_set ?nx {b}" by (simp add: handle_region_def)
  have "b \<in> ?R" unfolding R by (rule reach_set_base) simp
  moreover have "S \<subseteq> ?X" by (rule subsetI) (rule reach_set_base)
  ultimately show "insert b S \<subseteq> ?R \<union> ?X" by (simp add: le_supI2)
  show "straight_preds ir c \<subseteq> ?R \<union> ?X" if "c \<in> ?R \<union> ?X" for c
  proof (cases "c \<in> ?X")
    case True
    from reach_set_closed [OF this] show ?thesis by (simp add: le_supI2)
  next
    case False
    with that have "?nx c \<subseteq> ?R" unfolding R by (intro reach_set_closed) auto
    with False nx show ?thesis by auto
  qed
  have "?R \<subseteq> reach_set (straight_preds ir) (insert b S)"
    unfolding R
  proof (rule reach_set_least)
    fix c assume "c \<in> reach_set (straight_preds ir) (insert b S)"
    from reach_set_closed [OF this]
    show "?nx c \<subseteq> reach_set (straight_preds ir) (insert b S)" unfolding nx by simp
  qed (simp add: reach_set_base)
  moreover have "?X \<subseteq> reach_set (straight_preds ir) (insert b S)" by (rule reach_set_mono) auto
  ultimately show "?R \<union> ?X \<subseteq> reach_set (straight_preds ir) (insert b S)" by simp
qed

lemma edges_into_Un: "edges_into ir (A \<union> B) = edges_into ir A \<union> edges_into ir B"
  by (auto simp: edges_into_def)

lemma handle_marks_ErrHandle:
  assumes "wf_cfg ir F" "b \<in> set (blocks ir F)" "handle_marks ir S m"
  shows "returns (recurMarkEdgesToErrHandle ir b m) (handle_marks ir (insert b S))"
  using recurMarkEdgesToErrHandle_returns [OF assms(1,2), of m]
proof (rule returns_mono)
  fix m'
  assume "(\<forall>e. map_at m' e = (if e \<in> edges_into ir (handle_region ir m b)
       then updateHandleFlag (map_at m e) Must_Handle_Err else map_at m e)) \<and>
    dom m' = dom m \<union> edges_into ir (handle_region ir m b)"
  then show "handle_marks ir (insert b S) m'"
    unfolding handle_marks_def handle_region_union [OF assms(3), symmetric] edges_into_Un
    using assms(3) by (auto simp: handle_marks_def)
qed

lemma same_rest_bit4: "same_rest m m' \<Longrightarrow> bit (map_at m' e) 4 = bit (map_at m e) 4"
proof -
  assume "same_rest m m'"
  then have "restBits (map_at m' e) = restBits (map_at m e)" unfolding same_rest_def by (rule spec)
  then have "bit (restBits (map_at m' e)) 4 = bit (restBits (map_at m e)) 4" by (rule arg_cong)
  then show ?thesis by simp
qed

lemma handle_marks_same_rest: "same_rest m m' \<Longrightarrow> handle_marks ir S m \<Longrightarrow> handle_marks ir S m'"
  by (simp add: handle_marks_def same_rest_bit4)

lemma propagate_same_rest:
  assumes wf: "wf_cfg ir F" and b: "b \<in> set (blocks ir F)"
  shows "returns (rbind
      (foldM (\<lambda>Pred m. (let CE = (terminator ir Pred, b); m = map_touch m CE;
             m = m(CE \<mapsto> updateReturnFlag (map_at m CE) flag)
           in recurMarkEdgesToBlock ir CE flag E m)) (predecessors ir b) m)
      (foldM (\<lambda>Succ m. (let CE = (terminator ir b, Succ); m = map_touch m CE;
             m = m(CE \<mapsto> updateReturnFlag (map_at m CE) flag)
           in recurMarkEdgesFromBlock ir CE flag E m)) (successors ir b))) (same_rest m)"
proof (intro returns_rbind [where R = "same_rest m"] returns_foldM same_rest_refl)
  fix p n assume "p \<in> set (predecessors ir b)" and n: "same_rest m n"
  then have "(terminator ir p, b) \<in> cfg_edges ir F" by (intro cfg_edges_pred [OF wf b])
  then show "returns (let CE = (terminator ir p, b); m = map_touch n CE;
      m = m(CE \<mapsto> updateReturnFlag (map_at m CE) flag) in recurMarkEdgesToBlock ir CE flag E m) (same_rest m)"
    unfolding Let_def using n
    by (auto intro!: recurMarkEdgesToBlock_returns [OF wf] same_rest_mark)
next
  fix c n assume "c \<in> set (successors ir b)" and n: "same_rest m n"
  then have "(terminator ir b, c) \<in> cfg_edges ir F" by (intro cfg_edges_succ [OF wf b])
  then show "returns (let CE = (terminator ir b, c); m = map_touch n CE;
      m = m(CE \<mapsto> updateReturnFlag (map_at m CE) flag) in recurMarkEdgesFromBlock ir CE flag E m) (same_rest m)"
    unfolding Let_def using n
    by (auto intro!: recurMarkEdgesFromBlock_returns [OF wf] same_rest_mark)
qed

lemma markBlockEdges_returns:
  assumes wf: "wf_cfg ir F" and b: "b \<in> set (blocks ir F)" and m: "handle_marks ir S m"
  shows "returns (markBlockEdges ir E b m)
    (handle_marks ir (if bit (map_at E b) 4 then insert b S else S))"
proof (cases "E b")
  case None
  with m show ?thesis by (simp add: markBlockEdges_def map_at_def)
next
  case (Some f)
  have "returns (if f AND Must_Handle_Err \<noteq> 0 then recurMarkEdgesToErrHandle ir b m else Inr m)
      (handle_marks ir (if bit f 4 then insert b S else S))"
    using m handle_marks_ErrHandle [OF wf b m] by (simp add: test_flag)
  moreover have "returns (if f AND ERR_RETURN_MASK \<noteq> 0 then rbind
      (foldM (\<lambda>Pred m. (let CE = (terminator ir Pred, b); m = map_touch m CE;
             m = m(CE \<mapsto> updateReturnFlag (map_at m CE) f)
           in recurMarkEdgesToBlock ir CE f E m)) (predecessors ir b) n)
      (foldM (\<lambda>Succ m. (let CE = (terminator ir b, Succ); m = map_touch m CE;
             m = m(CE \<mapsto> updateReturnFlag (map_at m CE) f)
           in recurMarkEdgesFromBlock ir CE f E m)) (successors ir b)) else Inr n) (handle_marks ir T)"
    if "handle_marks ir T n" for n T
    using returns_mono [OF propagate_same_rest [OF wf b], of n "handle_marks ir T" f E]
      handle_marks_same_rest [OF _ that] that by simp
  ultimately show ?thesis
    unfolding markBlockEdges_def Some map_at_def option.case by (rule returns_rbind)
qed

end
