(* ===== verification/ErrnoTheorems.thy ===== *)
theory ErrnoTheorems
  imports SecurityChecks EdgeTheorems
begin

text \<open>
  What the three value searches of \<open>SecurityChecks.cc\<close> compute: \<open>isValueErrno\<close> looks for an
  error code among the operands of a constant expression, \<open>mayReturnErr\<close> for an error
  indication in the functions reachable through first callees, and \<open>findSameVariablesFrom\<close>
  collects the loads that read a stored copy of a value. Each returns, and its result is
  stated as a reachability.
\<close>

section \<open>The mask test\<close>

lemma and_page_mask: "(x :: size_t) AND 0xfffff000 = push_bit 12 (take_bit 20 (drop_bit 12 x))"
proof -
  have M: "(0xfffff000 :: size_t) = push_bit 12 (mask 20)"
    by (simp add: mask_numeral push_bit_eq_mult)
  show ?thesis unfolding M
    by (rule bit_word_eqI)
       (auto simp: bit_and_iff bit_push_bit_iff bit_mask_iff bit_take_bit_iff bit_drop_bit_eq)
qed

lemma push_bit_take_bit_eq:
  "push_bit 12 (take_bit 20 y) = push_bit 12 (take_bit 20 z) \<longleftrightarrow>
   take_bit 20 (y :: size_t) = take_bit 20 z"
proof
  assume *: "push_bit 12 (take_bit 20 y) = push_bit 12 (take_bit 20 z)"
  have "drop_bit 12 (push_bit 12 (take_bit 20 y)) = take_bit 20 y" for y :: size_t
    by (rule bit_word_eqI) (auto simp: bit_push_bit_iff bit_take_bit_iff bit_drop_bit_eq)
  from arg_cong [OF *, of "drop_bit 12"] this show "take_bit 20 y = take_bit 20 z" by simp
qed simp

text \<open>The test looks at the bits 12 to 31 only.\<close>

lemma is_errno_bits: "is_errno x \<longleftrightarrow> unat x mod 2 ^ 32 div 2 ^ 12 = 0x4cedb"
proof -
  have P: "(0x4cedb000 :: size_t) = push_bit 12 (take_bit 20 0x4cedb)"
    by (simp add: push_bit_eq_mult take_bit_eq_mod)
  have "is_errno x \<longleftrightarrow> take_bit 20 (drop_bit 12 x) = take_bit 20 0x4cedb"
    unfolding is_errno_def ERRNO_MASK_def ERRNO_PREFIX_def and_page_mask P push_bit_take_bit_eq ..
  also have "\<dots> \<longleftrightarrow> unat (take_bit 20 (drop_bit 12 x)) = unat (take_bit 20 (0x4cedb :: size_t))"
    by (rule word_unat_eq_iff)
  also have "unat (take_bit 20 (drop_bit 12 x)) = unat x mod 2 ^ 32 div 2 ^ 12"
  proof -
    have "take_bit 20 (drop_bit 12 u) = drop_bit 12 (take_bit 32 u)" for u :: nat
      by (simp add: drop_bit_take_bit)
    then show ?thesis
      unfolding unsigned_take_bit_eq unat_drop_bit_eq by (simp add: take_bit_eq_mod drop_bit_eq_div)
  qed
  also have "unat (take_bit 20 (0x4cedb :: size_t)) = 0x4cedb"
    by (simp add: take_bit_eq_mod)
  finally show ?thesis .
qed

section \<open>Constant expressions\<close>

definition exprOperands :: "llvm \<Rightarrow> ptr \<Rightarrow> ptr set" where
  "exprOperands ir V = (if V \<noteq> NULL \<and> isa ir ConstantExpr V then set (operands ir V) else {})"

definition errnoLeaf :: "llvm \<Rightarrow> ptr \<Rightarrow> ptr \<Rightarrow> bool" where
  "errnoLeaf ir F V \<longleftrightarrow> V \<noteq> NULL \<and>
     (isa ir ConstantInt V \<and> isErrnoInt (sextValue ir V) \<or>
      isa ir ConstantPointerNull V \<and> isPointerTy ir (returnType ir F))"

definition errnoValue :: "llvm \<Rightarrow> ptr \<Rightarrow> ptr \<Rightarrow> bool" where
  "errnoValue ir F V \<longleftrightarrow> (\<exists>W \<in> reach_set (exprOperands ir) {V}. errnoLeaf ir F W)"

text \<open>Constants are built from existing constants, so their operand relation has no cycle.\<close>

definition wf_constants :: "llvm \<Rightarrow> bool" where
  "wf_constants ir \<longleftrightarrow> acyclic {(v, w). w \<in> exprOperands ir v}"

lemma errnoValue_unfold:
  "errnoValue ir F V \<longleftrightarrow> errnoLeaf ir F V \<or> (\<exists>W \<in> exprOperands ir V. errnoValue ir F W)"
  unfolding errnoValue_def by (subst reach_set_unfold) blast

lemma isValueErrnoF_fuel:
  assumes "wf_constants ir" "finite (reach_set (exprOperands ir) {V})"
    and "card (reach_set (exprOperands ir) {V}) \<le> n"
  shows "isValueErrnoF ir n V F = Inr (errnoValue ir F V)"
  using assms(2,3)
proof (induction n arbitrary: V)
  case 0
  then show ?case using reach_card_pos [OF 0(1)] by simp
next
  case (Suc n)
  have IH: "isValueErrnoF ir n W F = Inr (errnoValue ir F W)" if "W \<in> exprOperands ir V" for W
    using reach_fuel_step [OF assms(1) [unfolded wf_constants_def] Suc.prems that]
    by (intro Suc.IH)
  show ?case
  proof (cases "V \<noteq> NULL \<and> isa ir ConstantExpr V")
    case True
    then have "anyM (\<lambda>op. isValueErrnoF ir n op F) (operands ir V)
      = Inr (\<exists>W \<in> set (operands ir V). errnoValue ir F W)"
      by (intro anyM_Inr IH) (simp add: exprOperands_def)
    with True show ?thesis
      by (subst errnoValue_unfold) (auto simp: errnoLeaf_def exprOperands_def)
  next
    case False
    then show ?thesis by (subst errnoValue_unfold) (auto simp: errnoLeaf_def exprOperands_def)
  qed
qed

lemma reach_exprOperands_heap:
  "wf_heap ir \<Longrightarrow> V \<in> set (heap ir) \<Longrightarrow> reach_set (exprOperands ir) {V} \<subseteq> set (heap ir)"
  by (rule reach_set_least) (auto simp: exprOperands_def dest: wf_heapD(2))

lemma isValueErrno_returns:
  assumes "wf_heap ir" "wf_constants ir" "V \<in> set (heap ir)"
  shows "isValueErrno ir V F = Inr (errnoValue ir F V)"
  unfolding isValueErrno_def
proof (rule isValueErrnoF_fuel [OF assms(2)])
  note sub = reach_exprOperands_heap [OF assms(1,3)]
  show "finite (reach_set (exprOperands ir) {V})" using sub finite_subset by blast
  show "card (reach_set (exprOperands ir) {V}) \<le> search_fuel ir"
    unfolding search_fuel_def using card_mono [OF _ sub] by simp
qed

section \<open>Functions that may return an error\<close>

text \<open>The functions, their instructions and what the call graph answers for their calls.\<close>

definition wf_functions :: "llvm \<Rightarrow> gctx \<Rightarrow> bool" where
  "wf_functions ir ctx \<longleftrightarrow>
     (\<forall>F \<in> set (heap ir). set (instructions ir F) \<subseteq> set (heap ir)) \<and>
     (\<forall>I \<in> set (heap ir). isa ir CallInst I \<longrightarrow> calledValue ir I \<noteq> NULL) \<and>
     (\<forall>I. firstCallee ir ctx I \<in> insert NULL (set (heap ir)))"

definition errIndicator :: "llvm \<Rightarrow> ptr \<Rightarrow> ptr \<Rightarrow> bool" where
  "errIndicator ir F I \<longleftrightarrow>
     (if isa ir StoreInst I then errnoValue ir F (valueOperand ir I)
      else isa ir CallInst I \<and>
        (isPointerTy ir (typeOf ir I) \<or>
         calledFunction ir I \<noteq> NULL \<and>
         getCalledFuncName ir I \<in> {Inr ''ERR_PTR'', Inr ''PTR_ERR''}))"

definition calleeOf :: "llvm \<Rightarrow> gctx \<Rightarrow> ptr \<Rightarrow> ptr set" where
  "calleeOf ir ctx C = (if Callees ctx C = {} then {} else {firstCallee ir ctx C} - {NULL})"

definition scanTargets :: "llvm \<Rightarrow> gctx \<Rightarrow> ptr \<Rightarrow> ptr set" where
  "scanTargets ir ctx I =
     (if isa ir StoreInst I then {}
      else if isa ir CallInst I then (if calledFunction ir I = NULL then {} else calleeOf ir ctx I)
      else if isa ir ReturnInst I \<and> returnValue ir I \<noteq> NULL \<and> isa ir CallInst (returnValue ir I)
      then calleeOf ir ctx (returnValue ir I) else {})"

definition calledFrom :: "llvm \<Rightarrow> gctx \<Rightarrow> ptr \<Rightarrow> ptr set" where
  "calledFrom ir ctx F = (\<Union>I \<in> set (instructions ir F). scanTargets ir ctx I)"

lemma getCalledFuncName_returns:
  "isa ir CallInst I \<Longrightarrow> calledValue ir I \<noteq> NULL \<Longrightarrow> \<exists>n. getCalledFuncName ir I = Inr n"
  by (auto simp: getCalledFuncName_def Let_def split: list.splits)

lemma mayReturnErrScan_step:
  assumes "wf_heap ir" "wf_constants ir" "wf_functions ir ctx" "I \<in> set (heap ir)"
  shows "\<exists>L. set L = scanTargets ir ctx I \<and>
    mayReturnErrScan ir ctx F (I # Is) EF =
      (if errIndicator ir F I then Inr (EF, True) else mayReturnErrScan ir ctx F Is (EF @ L))"
proof -
  consider (store) "isa ir StoreInst I"
    | (call) "\<not> isa ir StoreInst I" "isa ir CallInst I"
    | (other) "\<not> isa ir StoreInst I" "\<not> isa ir CallInst I" by blast
  then show ?thesis
  proof cases
    case store
    then have "isValueErrno ir (valueOperand ir I) F = Inr (errnoValue ir F (valueOperand ir I))"
      by (intro isValueErrno_returns assms wf_heapD(9) [OF assms(1,4)])
    with store show ?thesis by (simp add: errIndicator_def scanTargets_def)
  next
    case call
    with assms(3,4) have "calledValue ir I \<noteq> NULL" unfolding wf_functions_def by blast
    with call obtain n where n: "getCalledFuncName ir I = Inr n"
      using getCalledFuncName_returns by blast
    let ?L = "if calledFunction ir I = NULL \<or> Callees ctx I = {} \<or> firstCallee ir ctx I = NULL
      then [] else [firstCallee ir ctx I]"
    have "set ?L = scanTargets ir ctx I"
      using call by (simp add: scanTargets_def calleeOf_def)
    moreover have "mayReturnErrScan ir ctx F (I # Is) EF =
      (if errIndicator ir F I then Inr (EF, True) else mayReturnErrScan ir ctx F Is (EF @ ?L))"
      using call n by (simp add: errIndicator_def Let_def)
    ultimately show ?thesis by blast
  next
    case other
    let ?R = "returnValue ir I"
    let ?L = "if isa ir ReturnInst I \<and> ?R \<noteq> NULL \<and> isa ir CallInst ?R \<and> Callees ctx ?R \<noteq> {} \<and>
      firstCallee ir ctx ?R \<noteq> NULL then [firstCallee ir ctx ?R] else []"
    have "set ?L = scanTargets ir ctx I"
      using other by (auto simp: scanTargets_def calleeOf_def)
    moreover have "mayReturnErrScan ir ctx F (I # Is) EF =
      (if errIndicator ir F I then Inr (EF, True) else mayReturnErrScan ir ctx F Is (EF @ ?L))"
      using other by (simp add: errIndicator_def Let_def)
    ultimately show ?thesis by blast
  qed
qed

lemma mayReturnErrScan_returns:
  assumes "wf_heap ir" "wf_constants ir" "wf_functions ir ctx" "set Is \<subseteq> set (heap ir)"
  shows "returns (mayReturnErrScan ir ctx F Is EF) (\<lambda>(EF', ret).
    ret = (\<exists>I \<in> set Is. errIndicator ir F I) \<and>
    set EF' \<subseteq> set EF \<union> (\<Union>I \<in> set Is. scanTargets ir ctx I) \<and>
    (\<not> ret \<longrightarrow> set EF' = set EF \<union> (\<Union>I \<in> set Is. scanTargets ir ctx I)))"
  using assms(4)
proof (induction Is arbitrary: EF)
  case Nil
  then show ?case by simp
next
  case (Cons I Is)
  then have I: "I \<in> set (heap ir)" and Is: "set Is \<subseteq> set (heap ir)" by auto
  obtain L where L: "set L = scanTargets ir ctx I" and
    step: "mayReturnErrScan ir ctx F (I # Is) EF =
      (if errIndicator ir F I then Inr (EF, True) else mayReturnErrScan ir ctx F Is (EF @ L))"
    using mayReturnErrScan_step [OF assms(1-3) I] by blast
  show ?case
  proof (cases "errIndicator ir F I")
    case True
    with step show ?thesis by simp
  next
    case False
    show ?thesis unfolding step using False Cons.IH [OF Is, of "EF @ L"] L
      by (auto elim!: returns_mono)
  qed
qed

definition mayReturnBody :: "llvm \<Rightarrow> gctx \<Rightarrow> ptr \<Rightarrow> (ptr list \<times> bool) res" where
  "mayReturnBody ir ctx TF =
     (if blocks ir TF = [] then Inr ([], False)
      else mayReturnErrScan ir ctx TF (instructions ir TF) [])"

abbreviation wf_search :: "llvm \<Rightarrow> gctx \<Rightarrow> bool" where
  "wf_search ir ctx \<equiv> wf_heap ir \<and> wf_constants ir \<and> wf_functions ir ctx"

lemma mayReturnBody_returns:
  assumes "wf_search ir ctx" "G \<in> set (heap ir)"
  shows "returns (mayReturnBody ir ctx G) (\<lambda>(new, ret).
    ret = (\<exists>I \<in> set (instructions ir G). errIndicator ir G I) \<and>
    set new \<subseteq> calledFrom ir ctx G \<and> (\<not> ret \<longrightarrow> set new = calledFrom ir ctx G))"
proof (cases "blocks ir G = []")
  case True
  then show ?thesis by (simp add: mayReturnBody_def instructions_def calledFrom_def)
next
  case False
  from assms have "set (instructions ir G) \<subseteq> set (heap ir)" by (simp add: wf_functions_def)
  with assms have "returns (mayReturnErrScan ir ctx G (instructions ir G) []) (\<lambda>(EF', ret).
    ret = (\<exists>I \<in> set (instructions ir G). errIndicator ir G I) \<and>
    set EF' \<subseteq> set [] \<union> (\<Union>I \<in> set (instructions ir G). scanTargets ir ctx I) \<and>
    (\<not> ret \<longrightarrow> set EF' = set [] \<union> (\<Union>I \<in> set (instructions ir G). scanTargets ir ctx I)))"
    by (intro mayReturnErrScan_returns) auto
  with False show ?thesis by (simp add: mayReturnBody_def calledFrom_def)
qed

lemma calledFrom_heap:
  assumes "wf_functions ir ctx"
  shows "calledFrom ir ctx G \<subseteq> set (heap ir)"
proof -
  from assms have "firstCallee ir ctx C \<in> insert NULL (set (heap ir))" for C
    unfolding wf_functions_def by blast
  then have "calleeOf ir ctx C \<subseteq> set (heap ir)" for C
    by (auto simp: calleeOf_def)
  then show ?thesis by (auto simp: calledFrom_def scanTargets_def split: if_splits)
qed

definition indicates :: "llvm \<Rightarrow> ptr \<Rightarrow> bool" where
  "indicates ir G \<longleftrightarrow> (\<exists>I \<in> set (instructions ir G). errIndicator ir G I)"

definition mayErr :: "llvm \<Rightarrow> gctx \<Rightarrow> ptr \<Rightarrow> bool" where
  "mayErr ir ctx F \<longleftrightarrow> (\<exists>G \<in> reach_set (calledFrom ir ctx) {F}. indicates ir G)"

interpretation may_return: worklist_find "\<lambda>ret. ret" "\<lambda>x. x" "\<lambda>G _. mayReturnBody ir ctx G"
  "set (heap ir)" "\<lambda>G. G \<in> set (heap ir)"
  "\<lambda>P ret. wf_search ir ctx \<and> ret = (\<exists>G \<in> P. indicates ir G)" "calledFrom ir ctx" for ir ctx
proof unfold_locales
  fix G P and ret :: bool
  assume G: "G \<in> set (heap ir)" and I: "wf_search ir ctx \<and> ret = (\<exists>G \<in> P. indicates ir G)"
    and run: "\<not> ret"
  then have wf: "wf_search ir ctx" by blast
  from mayReturnBody_returns [OF wf G] obtain new r where b: "mayReturnBody ir ctx G = Inr (new, r)"
    and r: "r = indicates ir G"
    and n: "set new \<subseteq> calledFrom ir ctx G" "\<not> r \<Longrightarrow> set new = calledFrom ir ctx G"
    unfolding indicates_def by (elim returnsE) auto
  from wf have "calledFrom ir ctx G \<subseteq> set (heap ir)" by (intro calledFrom_heap) simp
  with n have "\<forall>y \<in> set new. y \<in> set (heap ir)" by blast
  moreover from I run r have "r = (\<exists>G \<in> insert G P. indicates ir G)" by simp
  ultimately show "returns (mayReturnBody ir ctx G) (\<lambda>(new, s'). (\<forall>y \<in> set new. y \<in> set (heap ir)) \<and>
      wf_search ir ctx \<and> s' = (\<exists>G \<in> insert G P. indicates ir G))"
    using b wf by simp
  show "(\<lambda>x. x) ` set nw \<subseteq> calledFrom ir ctx G \<and> (\<not> s' \<longrightarrow> (\<lambda>x. x) ` set nw = calledFrom ir ctx G)"
    if "mayReturnBody ir ctx G = Inr (nw, s')" for nw s'
    using that b n by simp
qed (simp_all)

lemma mayReturnErr_returns:
  assumes "wf_search ir ctx" "F \<in> set (heap ir)"
  shows "mayReturnErr ir ctx F = Inr (mayErr ir ctx F)"
proof -
  let ?R = "reach_set (calledFrom ir ctx) {F}"
  have "returns (worklist (\<lambda>ret. ret) (\<lambda>x. x) (\<lambda>G _. mayReturnBody ir ctx G) [F] False)
    (\<lambda>(P, ret). P \<subseteq> ?R \<and> (\<not> ret \<longrightarrow> P = ?R) \<and> wf_search ir ctx \<and> ret = (\<exists>G \<in> P. indicates ir G))"
    using may_return.loop_finds [of "[F]" ir ctx False] assms by simp
  then obtain P ret where
    w: "worklist (\<lambda>ret. ret) (\<lambda>x. x) (\<lambda>G _. mayReturnBody ir ctx G) [F] False = Inr (P, ret)"
    and *: "P \<subseteq> ?R \<and> (\<not> ret \<longrightarrow> P = ?R) \<and> wf_search ir ctx \<and> ret = (\<exists>G \<in> P. indicates ir G)"
    by (rule returnsE2)
  from * have "ret = (\<exists>G \<in> ?R. indicates ir G)" by (cases ret) blast+
  with w show ?thesis by (simp add: mayReturnErr_def mayReturnBody_def mayErr_def)
qed

section \<open>Variables that hold the same value\<close>

text \<open>The loads that read a location the value is stored to.\<close>

definition storedLoads :: "llvm \<Rightarrow> ptr \<Rightarrow> ptr set" where
  "storedLoads ir V =
     {L. isa ir LoadInst L \<and> (\<exists>S \<in> set (users ir V). isa ir StoreInst S \<and>
        valueOperand ir S = V \<and> L \<in> set (users ir (pointerOperand ir S)))}"

lemma fold_sameVarLoad:
  "fold (sameVarLoad ir) us (EV, VSet) =
     (EV @ filter (isa ir LoadInst) us, VSet \<union> set (filter (isa ir LoadInst) us))"
  by (induction us arbitrary: EV VSet) (auto simp: sameVarLoad_def)

lemma fold_sameVarUser:
  assumes "fold (sameVarUser ir V) us (EV, VSet) = (EV', VSet')"
  shows "set EV' = set EV \<union> {L. isa ir LoadInst L \<and> (\<exists>S \<in> set us. isa ir StoreInst S \<and>
        valueOperand ir S = V \<and> L \<in> set (users ir (pointerOperand ir S)))} \<and>
    VSet' = VSet \<union> {L. isa ir LoadInst L \<and> (\<exists>S \<in> set us. isa ir StoreInst S \<and>
        valueOperand ir S = V \<and> L \<in> set (users ir (pointerOperand ir S)))}"
  using assms
proof (induction us arbitrary: EV VSet)
  case Nil
  then show ?case by simp
next
  case (Cons U us)
  show ?case
  proof (cases "isa ir StoreInst U \<and> V = valueOperand ir U")
    case True
    let ?ls = "filter (isa ir LoadInst) (users ir (pointerOperand ir U))"
    from True have "sameVarUser ir V U (EV, VSet) = (EV @ ?ls, VSet \<union> set ?ls)"
      by (simp add: sameVarUser_def fold_sameVarLoad)
    with Cons.prems have
      "fold (sameVarUser ir V) us (EV @ ?ls, VSet \<union> set ?ls) = (EV', VSet')" by simp
    from Cons.IH [OF this] True show ?thesis by auto
  next
    case False
    then have "sameVarUser ir V U (EV, VSet) = (EV, VSet)" by (auto simp: sameVarUser_def)
    with Cons.prems have "fold (sameVarUser ir V) us (EV, VSet) = (EV', VSet')" by simp
    from Cons.IH [OF this] False show ?thesis by auto
  qed
qed

lemma storedLoads_heap:
  assumes "wf_heap ir" "V \<in> set (heap ir)"
  shows "storedLoads ir V \<subseteq> set (heap ir)"
proof
  fix L assume "L \<in> storedLoads ir V"
  then obtain S where "S \<in> set (users ir V)" "isa ir StoreInst S"
    "L \<in> set (users ir (pointerOperand ir S))" by (auto simp: storedLoads_def)
  with wf_heapD(1) [OF assms] have "S \<in> set (heap ir)" by blast
  with \<open>isa ir StoreInst S\<close> have "pointerOperand ir S \<in> set (heap ir)"
    using wf_heapD(8) [OF assms(1)] by blast
  with \<open>L \<in> set (users ir (pointerOperand ir S))\<close> show "L \<in> set (heap ir)"
    using wf_heapD(1) [OF assms(1)] by blast
qed

interpretation same_vars: worklist_search
  "\<lambda>TV VSet. Inr (fold (sameVarUser ir TV) (users ir TV) ([], VSet))"
  "set (heap ir)" "\<lambda>V. V \<in> set (heap ir)"
  "\<lambda>P VSet. wf_heap ir \<and> VSet = V0 \<union> (\<Union>x \<in> P. storedLoads ir x)" "storedLoads ir" for ir V0
proof unfold_locales
  fix V P VSet
  assume V: "V \<in> set (heap ir)" and I: "wf_heap ir \<and> VSet = V0 \<union> (\<Union>x \<in> P. storedLoads ir x)"
  obtain EV W where f: "fold (sameVarUser ir V) (users ir V) ([], VSet) = (EV, W)" by fastforce
  from fold_sameVarUser [OF this] have n: "set EV = storedLoads ir V" "W = VSet \<union> storedLoads ir V"
    by (simp_all add: storedLoads_def)
  from I V have "storedLoads ir V \<subseteq> set (heap ir)" by (intro storedLoads_heap) simp_all
  with n have "\<forall>y \<in> set EV. y \<in> set (heap ir)" by blast
  moreover from I n have "W = V0 \<union> (\<Union>x \<in> insert V P. storedLoads ir x)" by blast
  ultimately show "returns (Inr (fold (sameVarUser ir V) (users ir V) ([], VSet)))
      (\<lambda>(new, s'). (\<forall>y \<in> set new. y \<in> set (heap ir)) \<and> wf_heap ir \<and>
         s' = V0 \<union> (\<Union>x \<in> insert V P. storedLoads ir x))"
    using I f by simp
  show "set nw = storedLoads ir V"
    if "Inr (fold (sameVarUser ir V) (users ir V) ([], VSet)) = Inr (nw, s')" for nw s'
    using that f n by simp
qed (simp_all)

lemma findSameVariablesFrom_returns:
  assumes "wf_heap ir" "V \<in> set (heap ir)"
  shows "findSameVariablesFrom ir V VSet = Inr (VSet \<union> reach_set (storedLoads ir) {V})"
proof -
  let ?R = "reach_set (storedLoads ir) {V}"
  let ?body = "\<lambda>TV VSet. Inr (fold (sameVarUser ir TV) (users ir TV) ([], VSet))"
  have "returns (worklist never_stop (\<lambda>x. x) ?body [V] (insert V VSet))
    (\<lambda>(P, W). P = ?R \<and> wf_heap ir \<and> W = insert V VSet \<union> (\<Union>x \<in> P. storedLoads ir x))"
    using same_vars.loop_reaches [of "[V]" ir "insert V VSet" "insert V VSet"] assms by simp
  then obtain P W where w: "worklist never_stop (\<lambda>x. x) ?body [V] (insert V VSet) = Inr (P, W)"
    and *: "P = ?R \<and> wf_heap ir \<and> W = insert V VSet \<union> (\<Union>x \<in> P. storedLoads ir x)"
    by (rule returnsE2)
  have "{V} \<union> (\<Union>x \<in> ?R. storedLoads ir x) = ?R" by (rule reach_set_Union)
  moreover have "W = VSet \<union> ({V} \<union> (\<Union>x \<in> ?R. storedLoads ir x))" using * by simp
  ultimately have "W = VSet \<union> ?R" by simp
  with w show ?thesis by (simp add: findSameVariablesFrom_def)
qed

end
