(* ===== verification/FlowTheorems.thy ===== *)
theory FlowTheorems
  imports ErrnoTheorems
begin

text \<open>
  What \<open>checkErrReturn\<close> computes. Every value contributes a set of marks (block, flag) and
  pushes a set of values, both independent of the state of the loop; the search visits the
  values reachable from the returned ones, and the block map is the union of their marks.
\<close>

section \<open>Marked block maps\<close>

type_synonym bb_mark = "ptr \<times> int32"

definition marked_by :: "bb_mark set \<Rightarrow> bb_err_map \<Rightarrow> bb_err_map \<Rightarrow> bool" where
  "marked_by M m m' \<longleftrightarrow> dom m' = dom m \<union> fst ` M \<and>
     (\<forall>b n. bit (map_at m' b) n \<longleftrightarrow> bit (map_at m b) n \<or> (\<exists>f. (b, f) \<in> M \<and> bit f n))"

lemma marked_by_empty [simp]: "marked_by {} m m"
  by (simp add: marked_by_def)

lemma marked_by_trans:
  assumes "marked_by M m m'" "marked_by N m' m''"
  shows "marked_by (M \<union> N) m m''"
proof -
  note D = assms [unfolded marked_by_def]
  have "dom m'' = dom m \<union> fst ` (M \<union> N)"
    by (simp only: D image_Un Un_assoc)
  moreover have "bit (map_at m'' b) n \<longleftrightarrow>
      bit (map_at m b) n \<or> (\<exists>f. (b, f) \<in> M \<union> N \<and> bit f n)" for b n
  proof -
    have "(\<exists>f. (b, f) \<in> M \<union> N \<and> bit f n) \<longleftrightarrow>
        (\<exists>f. (b, f) \<in> M \<and> bit f n) \<or> (\<exists>f. (b, f) \<in> N \<and> bit f n)" by blast
    then show ?thesis by (simp only: D disj_assoc)
  qed
  ultimately show ?thesis by (simp only: marked_by_def simp_thms)
qed

lemma markBBErr_marks [returnsI]:
  "BB \<noteq> NULL \<Longrightarrow> returns (markBBErr BB f m) (marked_by {(BB, f)} m)"
  using markBBErr_returns [of BB f m] by (auto simp: returns_iff marked_by_def bit_or_iff)

text \<open>A loop whose iterations each mark and push, independently of the state.\<close>

lemma marking_loop:
  assumes "\<And>x EV m. x \<in> set xs \<Longrightarrow> returns (f x (EV, m))
      (\<lambda>(EV', m'). key ` set EV' = key ` set EV \<union> N x \<and> marked_by (M x) m m')"
  shows "returns (foldM f xs (EV, m))
      (\<lambda>(EV', m'). key ` set EV' = key ` set EV \<union> (\<Union>x \<in> set xs. N x) \<and>
         marked_by (\<Union>x \<in> set xs. M x) m m')"
  using assms
proof (induction xs arbitrary: EV m)
  case Nil
  then show ?case by simp
next
  case (Cons x xs)
  have "returns (f x (EV, m)) (\<lambda>(EV', m'). key ` set EV' = key ` set EV \<union> N x \<and> marked_by (M x) m m')"
    by (rule Cons.prems) simp
  then obtain EV1 m1 where 1: "f x (EV, m) = Inr (EV1, m1)"
    and k: "key ` set EV1 = key ` set EV \<union> N x" and m: "marked_by (M x) m m1"
    by (elim returnsE2) simp
  have "returns (foldM f xs (EV1, m1))
      (\<lambda>(EV', m'). key ` set EV' = key ` set EV1 \<union> (\<Union>x \<in> set xs. N x) \<and>
         marked_by (\<Union>x \<in> set xs. M x) m1 m')"
    by (rule Cons.IH) (simp add: Cons.prems)
  then show ?case
    using k marked_by_trans [OF m] by (auto simp: 1 Un_assoc elim!: returns_mono)
qed

section \<open>The contribution of a value\<close>

definition constMark :: "llvm \<Rightarrow> ptr \<Rightarrow> ptr \<Rightarrow> ptr \<Rightarrow> bb_mark" where
  "constMark ir F V BB = (BB, if errnoValue ir F V then Must_Return_Err else May_Return_Err)"

text \<open>The stores to the location a load reads.\<close>

definition storesTo :: "llvm \<Rightarrow> ptr \<Rightarrow> ptr set" where
  "storesTo ir LI = {S \<in> set (users ir (pointerOperand ir LI)).
     S \<noteq> LI \<and> isa ir StoreInst S \<and> pointerOperand ir S = pointerOperand ir LI}"

definition operandMarks :: "llvm \<Rightarrow> ptr \<Rightarrow> ptr \<Rightarrow> ptr \<Rightarrow> bb_mark set" where
  "operandMarks ir F I OP = (if isConstant ir OP then {constMark ir F OP (getParent ir I)} else {})"

definition armErrno :: "llvm \<Rightarrow> ptr \<Rightarrow> ptr \<Rightarrow> bool" where
  "armErrno ir F V \<longleftrightarrow> isConstant ir V \<and> errnoValue ir F V"

text \<open>A select of which exactly one arm is an error code.\<close>

definition errSelect :: "llvm \<Rightarrow> ptr \<Rightarrow> ptr \<Rightarrow> bool" where
  "errSelect ir F V \<longleftrightarrow> isa ir Instruction V \<and> \<not> isa ir LoadInst V \<and> \<not> isa ir PHINode V \<and>
     isa ir SelectInst V \<and> armErrno ir F (trueValue ir V) \<noteq> armErrno ir F (falseValue ir V)"

text \<open>The branch after a call tests the result of the call.\<close>

definition checkedAfterCall :: "llvm \<Rightarrow> ptr \<Rightarrow> bool" where
  "checkedAfterCall ir CaI \<longleftrightarrow>
     (let TI = terminator ir (getParent ir CaI); Cond = branchCond ir TI
      in length (succs ir TI) > 1 \<and> Cond \<noteq> NULL \<and>
         (\<exists>op \<in> set (operands ir Cond). op \<in> reach_set (storedLoads ir) {CaI}))"

definition callMarks :: "llvm \<Rightarrow> gctx \<Rightarrow> ptr \<Rightarrow> bb_mark set" where
  "callMarks ir ctx CaI =
     (if calledFunction ir CaI = NULL then {}
      else if getCalledFuncName ir CaI \<in> {Inr ''PTR_ERR'', Inr ''ERR_PTR''}
      then {(getParent ir CaI, Must_Return_Err)}
      else if Callees ctx CaI = {} \<or> firstCallee ir ctx CaI = NULL then {}
      else {(getParent ir CaI, May_Return_Err)} \<union>
        (if mayErr ir ctx (firstCallee ir ctx CaI) \<and> checkedAfterCall ir CaI
         then {(succs ir (terminator ir (getParent ir CaI)) ! 0, Must_Return_Err)} else {}))"

definition flowMarks :: "llvm \<Rightarrow> gctx \<Rightarrow> ptr \<Rightarrow> ptr \<Rightarrow> bb_mark set" where
  "flowMarks ir ctx F V =
     (if \<not> isa ir Instruction V then {}
      else if isa ir LoadInst V then
        (\<Union>S \<in> storesTo ir V. if isConstant ir (valueOperand ir S)
           then {constMark ir F (valueOperand ir S) (getParent ir S)} else {})
      else if isa ir PHINode V then
        (\<Union>(IV, inBB) \<in> set (incoming ir V).
           if isConstant ir IV then {constMark ir F IV inBB} else {})
      else if isa ir SelectInst V then
        (if armErrno ir F (trueValue ir V) \<and> armErrno ir F (falseValue ir V)
         then {(getParent ir V, Must_Return_Err)}
         else if armErrno ir F (trueValue ir V) \<or> armErrno ir F (falseValue ir V)
         then {(getParent ir V, May_Return_Err)} else {})
      else if isa ir GetElementPtrInst V then operandMarks ir F V (pointerOperand ir V)
      else if isa ir CallInst V then callMarks ir ctx V
      else if isa ir ICmpInst V then {}
      else if isa ir UnaryInstruction V then operandMarks ir F V (hd (operands ir V))
      else if isa ir BinaryOperator V then {(getParent ir V, May_Return_Err)}
      else {})"

definition nonConst :: "llvm \<Rightarrow> ptr \<Rightarrow> ptr set" where
  "nonConst ir V = (if isConstant ir V then {} else {V})"

definition flowNext :: "llvm \<Rightarrow> ptr \<Rightarrow> ptr set" where
  "flowNext ir V =
     (if \<not> isa ir Instruction V then {}
      else if isa ir LoadInst V then (\<Union>S \<in> storesTo ir V. nonConst ir (valueOperand ir S))
      else if isa ir PHINode V then (\<Union>(IV, inBB) \<in> set (incoming ir V). nonConst ir IV)
      else if isa ir SelectInst V then
        nonConst ir (trueValue ir V) \<union> nonConst ir (falseValue ir V)
      else if isa ir GetElementPtrInst V then nonConst ir (pointerOperand ir V)
      else if isa ir CallInst V then {}
      else if isa ir ICmpInst V then {}
      else if isa ir UnaryInstruction V then nonConst ir (hd (operands ir V))
      else {})"

section \<open>What LLVM and the static tables promise\<close>

definition wf_flow :: "llvm \<Rightarrow> gctx \<Rightarrow> bool" where
  "wf_flow ir ctx \<longleftrightarrow> wf_search ir ctx \<and> wf_classes ir \<and> \<not> isa ir Instruction NULL \<and>
     (\<forall>I \<in> set (heap ir). isa ir Instruction I \<longrightarrow> getParent ir I \<noteq> NULL) \<and>
     (\<forall>I \<in> set (heap ir). \<forall>(v, b) \<in> set (incoming ir I). b \<noteq> NULL) \<and>
     (\<forall>I \<in> set (heap ir). isa ir UnaryInstruction I \<longrightarrow> operands ir I \<noteq> []) \<and>
     (\<forall>I \<in> set (heap ir). isa ir ReturnInst I \<longrightarrow> returnValue ir I \<in> insert NULL (set (heap ir))) \<and>
     (\<forall>b. NULL \<notin> set (successors ir b)) \<and>
     (\<forall>f s d z. CopyFuncs ctx f = Some (s, d, z) \<longrightarrow> d \<noteq> -1)"

lemma wf_flowD:
  assumes "wf_flow ir ctx"
  shows "wf_search ir ctx" "wf_heap ir" "wf_constants ir" "wf_functions ir ctx" "wf_classes ir"
    and "\<not> isa ir Instruction NULL"
    and "I \<in> set (heap ir) \<Longrightarrow> isa ir Instruction I \<Longrightarrow> getParent ir I \<noteq> NULL"
    and "I \<in> set (heap ir) \<Longrightarrow> (v, b) \<in> set (incoming ir I) \<Longrightarrow> b \<noteq> NULL"
    and "I \<in> set (heap ir) \<Longrightarrow> isa ir UnaryInstruction I \<Longrightarrow> operands ir I \<noteq> []"
    and "I \<in> set (heap ir) \<Longrightarrow> isa ir ReturnInst I \<Longrightarrow> returnValue ir I \<in> insert NULL (set (heap ir))"
    and "NULL \<notin> set (successors ir BB)"
    and "CopyFuncs ctx f = Some (s, d, z) \<Longrightarrow> d \<noteq> -1"
  using assms unfolding wf_flow_def by blast+

section \<open>The cases of the loop body\<close>

section \<open>The cases of the loop body\<close>

text \<open>Every case pushes \<open>N\<close> and marks \<open>M\<close>.\<close>

abbreviation contributes ::
  "(edge_value list \<times> bb_err_map) res \<Rightarrow> ptr set \<Rightarrow> bb_mark set \<Rightarrow> bb_err_map \<Rightarrow> bool" where
  "contributes r N M m \<equiv> returns r (\<lambda>(new, m'). snd ` set new = N \<and> marked_by M m m')"

lemma wf_instruction:
  assumes "wf_flow ir ctx"
  shows "isa ir LoadInst v \<Longrightarrow> isa ir Instruction v" "isa ir StoreInst v \<Longrightarrow> isa ir Instruction v"
    "isa ir PHINode v \<Longrightarrow> isa ir Instruction v" "isa ir SelectInst v \<Longrightarrow> isa ir Instruction v"
    "isa ir GetElementPtrInst v \<Longrightarrow> isa ir Instruction v" "isa ir CallInst v \<Longrightarrow> isa ir Instruction v"
    "isa ir UnaryInstruction v \<Longrightarrow> isa ir Instruction v" "isa ir BinaryOperator v \<Longrightarrow> isa ir Instruction v"
  using wf_flowD(5) [OF assms] unfolding wf_classes_def by blast+

lemma wf_not_argument_constant:
  assumes "wf_flow ir ctx" "isa ir Instruction v"
  shows "\<not> isa ir Argument v" "\<not> isConstant ir v"
proof -
  have "\<not> (isa ir Constant v \<and> isa ir Instruction v)" "\<not> (isa ir Argument v \<and> isa ir Instruction v)"
    using wf_flowD(5) [OF assms(1)] unfolding wf_classes_def by blast+
  with assms(2) show "\<not> isa ir Argument v" "\<not> isConstant ir v" by (simp_all add: isConstant_def)
qed

lemma markConstant_marks:
  assumes "wf_flow ir ctx" "V \<in> set (heap ir)" "BB \<noteq> NULL"
  shows "returns (markConstant ir F V BB m) (marked_by {constMark ir F V BB} m)"
  unfolding markConstant_def isValueErrno_returns [OF wf_flowD(2,3) [OF assms(1)] assms(2)] rbind.simps
    constMark_def
  by (rule markBBErr_marks [OF assms(3)])

lemma flowOperand_contributes:
  assumes "wf_flow ir ctx" "OP \<in> set (heap ir)" "getParent ir I \<noteq> NULL"
  shows "contributes (flowOperand ir F I BB OP m) (nonConst ir OP) (operandMarks ir F I OP) m"
  using markConstant_marks [OF assms(1,2,3), of F m]
  by (auto simp: flowOperand_def nonConst_def operandMarks_def intro!: returns_rbind)

lemma flowLoad_contributes:
  assumes wf: "wf_flow ir ctx" and V: "V \<in> set (heap ir)" "isa ir LoadInst V"
  shows "contributes (flowLoad ir F V BB m) (\<Union>S \<in> storesTo ir V. nonConst ir (valueOperand ir S))
    (\<Union>S \<in> storesTo ir V. if isConstant ir (valueOperand ir S)
       then {constMark ir F (valueOperand ir S) (getParent ir S)} else {}) m"
proof -
  let ?P = "pointerOperand ir V"
  let ?f = "\<lambda>U (EEV, bbErrMap).
    if V = U then Inr (EEV, bbErrMap)
    else if isa ir StoreInst U \<and> ?P = pointerOperand ir U then
      (let SVO = valueOperand ir U
       in if isConstant ir SVO then
            rbind (markConstant ir F SVO (getParent ir U) bbErrMap) (\<lambda>m. Inr (EEV, m))
          else Inr (EEV @ [((terminator ir (getParent ir U), BB), SVO)], bbErrMap))
    else Inr (EEV, bbErrMap)"
  let ?st = "\<lambda>U. U \<noteq> V \<and> isa ir StoreInst U \<and> pointerOperand ir U = ?P"
  let ?N = "\<lambda>U. if ?st U then nonConst ir (valueOperand ir U) else {}"
  let ?M = "\<lambda>U. if ?st U \<and> isConstant ir (valueOperand ir U)
    then {constMark ir F (valueOperand ir U) (getParent ir U)} else {}"
  note heap = wf_flowD(2) [OF wf]
  have us: "set (users ir ?P) \<subseteq> set (heap ir)"
    using wf_heapD(8) [OF heap V(1)] V(2) by (intro wf_heapD(1) [OF heap]) blast
  have "returns (foldM ?f (users ir ?P) ([], m))
      (\<lambda>(EV', m'). snd ` set EV' = snd ` set ([] :: edge_value list) \<union> (\<Union>U \<in> set (users ir ?P). ?N U) \<and>
         marked_by (\<Union>U \<in> set (users ir ?P). ?M U) m m')"
  proof (rule marking_loop [where f = ?f and N = ?N and M = ?M])
    fix U EV m assume "U \<in> set (users ir ?P)"
    with us have U: "U \<in> set (heap ir)" by blast
    show "returns (?f U (EV, m))
        (\<lambda>(EV', m'). snd ` set EV' = snd ` set EV \<union> ?N U \<and> marked_by (?M U) m m')"
    proof (cases "?st U \<and> isConstant ir (valueOperand ir U)")
      case True
      have "returns (markConstant ir F (valueOperand ir U) (getParent ir U) m)
          (marked_by {constMark ir F (valueOperand ir U) (getParent ir U)} m)"
        using True by (intro markConstant_marks [OF wf] wf_heapD(9) [OF heap U] wf_flowD(7) [OF wf U]
          wf_instruction(2) [OF wf]) simp_all
      with True show ?thesis by (auto simp: nonConst_def intro!: returns_rbind)
    next
      case False
      then show ?thesis by (auto simp: Let_def nonConst_def)
    qed
  qed
  moreover have "(\<Union>U \<in> set (users ir ?P). ?N U) = (\<Union>S \<in> storesTo ir V. nonConst ir (valueOperand ir S))"
    by (auto simp: storesTo_def split: if_splits)
  moreover have "(\<Union>U \<in> set (users ir ?P). ?M U) =
      (\<Union>S \<in> storesTo ir V. if isConstant ir (valueOperand ir S)
       then {constMark ir F (valueOperand ir S) (getParent ir S)} else {})"
    by (auto simp: storesTo_def split: if_splits)
  ultimately show ?thesis by (simp add: flowLoad_def Let_def)
qed

lemma flowPHI_contributes:
  assumes wf: "wf_flow ir ctx" and V: "V \<in> set (heap ir)"
  shows "contributes (flowPHI ir F V BB m) (\<Union>(IV, inBB) \<in> set (incoming ir V). nonConst ir IV)
    (\<Union>(IV, inBB) \<in> set (incoming ir V). if isConstant ir IV then {constMark ir F IV inBB} else {}) m"
proof -
  let ?f = "\<lambda>(IV, inBB) (EEV, bbErrMap).
    if isConstant ir IV then rbind (markConstant ir F IV inBB bbErrMap) (\<lambda>m. Inr (EEV, m))
    else Inr (EEV @ [((terminator ir inBB, BB), IV)], bbErrMap)"
  have "returns (foldM ?f (incoming ir V) ([], m))
      (\<lambda>(EV', m'). snd ` set EV' = snd ` set ([] :: edge_value list) \<union>
           (\<Union>x \<in> set (incoming ir V). case x of (IV, inBB) \<Rightarrow> nonConst ir IV) \<and>
         marked_by (\<Union>x \<in> set (incoming ir V). case x of (IV, inBB) \<Rightarrow>
           if isConstant ir IV then {constMark ir F IV inBB} else {}) m m')"
  proof (rule marking_loop [where f = ?f and N = "\<lambda>x. case x of (IV, inBB) \<Rightarrow> nonConst ir IV"
        and M = "\<lambda>x. case x of (IV, inBB) \<Rightarrow> if isConstant ir IV then {constMark ir F IV inBB} else {}"])
    fix x EV m assume x: "x \<in> set (incoming ir V)"
    obtain IV b where [simp]: "x = (IV, b)" by fastforce
    from x wf_heapD(4) [OF wf_flowD(2) [OF wf] V] have "IV \<in> set (heap ir)" by force
    moreover from x wf_flowD(8) [OF wf V] have "b \<noteq> NULL" by simp
    ultimately have "returns (markConstant ir F IV b m) (marked_by {constMark ir F IV b} m)"
      by (intro markConstant_marks [OF wf])
    then show "returns (?f x (EV, m)) (\<lambda>(EV', m').
        snd ` set EV' = snd ` set EV \<union> (case x of (IV, inBB) \<Rightarrow> nonConst ir IV) \<and>
        marked_by (case x of (IV, inBB) \<Rightarrow>
          if isConstant ir IV then {constMark ir F IV inBB} else {}) m m')"
      by (auto simp: nonConst_def intro!: returns_rbind)
  qed
  then show ?thesis by (simp add: flowPHI_def)
qed

lemma flowArm_returns:
  assumes "wf_flow ir ctx" "SV \<in> set (heap ir)"
  shows "returns (flowArm ir F SI BB SV)
    (\<lambda>(flag, EEV). flag = armErrno ir F SV \<and> snd ` set EEV = nonConst ir SV)"
  using isValueErrno_returns [OF wf_flowD(2,3) [OF assms(1)] assms(2)]
  by (simp add: flowArm_def armErrno_def nonConst_def)

text \<open>The case of a select also extends the static set.\<close>

lemma flowSelect_returns:
  assumes wf: "wf_flow ir ctx" and V: "V \<in> set (heap ir)" "isa ir SelectInst V"
  shows "returns (flowSelect ir F V BB (m, Sel)) (\<lambda>(new, m', Sel').
    snd ` set new = nonConst ir (trueValue ir V) \<union> nonConst ir (falseValue ir V) \<and>
    marked_by (if armErrno ir F (trueValue ir V) \<and> armErrno ir F (falseValue ir V)
         then {(getParent ir V, Must_Return_Err)}
         else if armErrno ir F (trueValue ir V) \<or> armErrno ir F (falseValue ir V)
         then {(getParent ir V, May_Return_Err)} else {}) m m' \<and>
    Sel' = (if armErrno ir F (trueValue ir V) \<noteq> armErrno ir F (falseValue ir V)
            then insert V Sel else Sel))"
proof -
  note heap = wf_flowD(2) [OF wf]
  note arm = flowArm_returns [OF wf, of _ F V BB]
  obtain e1 where 1: "flowArm ir F V BB (trueValue ir V) = Inr (armErrno ir F (trueValue ir V), e1)"
    and n1: "snd ` set e1 = nonConst ir (trueValue ir V)"
    using arm [OF wf_heapD(10) [OF heap V]] by (elim returnsE2) simp
  obtain e2 where 2: "flowArm ir F V BB (falseValue ir V) = Inr (armErrno ir F (falseValue ir V), e2)"
    and n2: "snd ` set e2 = nonConst ir (falseValue ir V)"
    using arm [OF wf_heapD(11) [OF heap V]] by (elim returnsE2) simp
  have p: "getParent ir V \<noteq> NULL"
    using V by (intro wf_flowD(7) [OF wf] wf_instruction(4) [OF wf])
  have mk: "returns (rbind (markBBErr (getParent ir V) f m) (\<lambda>m. Inr (e1 @ e2, m, S)))
    (\<lambda>(new, m', Sel'). snd ` set new = nonConst ir (trueValue ir V) \<union> nonConst ir (falseValue ir V) \<and>
       marked_by {(getParent ir V, f)} m m' \<and> Sel' = S)" for f S
    by (rule returns_rbind [OF markBBErr_marks [OF p]]) (simp add: image_Un n1 n2)
  show ?thesis
    unfolding flowSelect_def prod.case 1 2 rbind.simps
    using mk [of Must_Return_Err Sel] mk [of May_Return_Err "insert V Sel"]
    by (cases "armErrno ir F (trueValue ir V)"; cases "armErrno ir F (falseValue ir V)")
       (simp_all add: image_Un n1 n2)
qed

lemma flowCheckedCall_marks:
  assumes wf: "wf_flow ir ctx" and V: "V \<in> set (heap ir)" "isa ir CallInst V"
  shows "returns (flowCheckedCall ir V m) (marked_by ({(getParent ir V, May_Return_Err)} \<union>
    (if checkedAfterCall ir V
     then {(succs ir (terminator ir (getParent ir V)) ! 0, Must_Return_Err)} else {})) m)"
proof -
  let ?B = "getParent ir V" and ?T = "terminator ir (getParent ir V)"
  have p: "?B \<noteq> NULL" using V by (intro wf_flowD(7) [OF wf] wf_instruction(6) [OF wf])
  have s: "succs ir ?T ! 0 \<noteq> NULL" if "length (succs ir ?T) > 1"
  proof
    assume "succs ir ?T ! 0 = NULL"
    with that have "NULL \<in> set (succs ir ?T)" by (metis nth_mem order_less_trans zero_less_one)
    with wf_flowD(11) [OF wf] show False by (simp add: successors_def)
  qed
  note fs = findSameVariablesFrom_returns [OF wf_flowD(2) [OF wf] V(1), of "{}"]
  show ?thesis
    unfolding flowCheckedCall_def Let_def
  proof (rule returns_rbind [OF markBBErr_marks [OF p]])
    fix m' assume m': "marked_by {(?B, May_Return_Err)} m m'"
    show "returns (if length (succs ir ?T) > 1 then
        if branchCond ir ?T = NULL then Inr m'
        else rbind (findSameVariablesFrom ir V {}) (\<lambda>VSet.
          if \<not> (\<exists>op \<in> set (operands ir (branchCond ir ?T)). op \<in> VSet) then Inr m'
          else markBBErr (succs ir ?T ! inferErrBranch (branchCond ir ?T)) Must_Return_Err m')
        else Inr m')
      (marked_by ({(?B, May_Return_Err)} \<union>
        (if checkedAfterCall ir V then {(succs ir ?T ! 0, Must_Return_Err)} else {})) m)"
    proof (cases "checkedAfterCall ir V")
      case True
      then have "returns (markBBErr (succs ir ?T ! 0) Must_Return_Err m')
          (marked_by {(succs ir ?T ! 0, Must_Return_Err)} m')"
        by (intro markBBErr_marks s) (simp add: checkedAfterCall_def Let_def)
      then have "returns (markBBErr (succs ir ?T ! 0) Must_Return_Err m')
          (marked_by ({(?B, May_Return_Err)} \<union> {(succs ir ?T ! 0, Must_Return_Err)}) m)"
        by (rule returns_mono) (rule marked_by_trans [OF m'])
      with True show ?thesis
        by (auto simp: fs checkedAfterCall_def Let_def inferErrBranch_def)
    next
      case False
      with m' show ?thesis
        by (auto simp: fs checkedAfterCall_def Let_def inferErrBranch_def)
    qed
  qed
qed

lemma flowCallee_contributes:
  assumes wf: "wf_flow ir ctx" and V: "V \<in> set (heap ir)" "isa ir CallInst V"
  shows "contributes (flowCallee ir ctx V m) {}
    (if Callees ctx V = {} \<or> firstCallee ir ctx V = NULL then {}
      else {(getParent ir V, May_Return_Err)} \<union>
        (if mayErr ir ctx (firstCallee ir ctx V) \<and> checkedAfterCall ir V
         then {(succs ir (terminator ir (getParent ir V)) ! 0, Must_Return_Err)} else {})) m"
proof (cases "Callees ctx V = {} \<or> firstCallee ir ctx V = NULL")
  case True
  then show ?thesis by (auto simp: flowCallee_def Let_def)
next
  case False
  let ?C = "firstCallee ir ctx V"
  have "?C \<in> insert NULL (set (heap ir))"
    using wf_flowD(4) [OF wf] unfolding wf_functions_def by blast
  with False have m: "mayReturnErr ir ctx ?C = Inr (mayErr ir ctx ?C)"
    by (intro mayReturnErr_returns wf_flowD(1) [OF wf]) simp
  have p: "getParent ir V \<noteq> NULL" using V by (intro wf_flowD(7) [OF wf] wf_instruction(6) [OF wf])
  show ?thesis
    using False flowCheckedCall_marks [OF wf V, of m] markBBErr_marks [OF p, of May_Return_Err m]
    by (auto simp: flowCallee_def Let_def m intro!: returns_rbind)
qed

lemma flowCall_contributes:
  assumes wf: "wf_flow ir ctx" and V: "V \<in> set (heap ir)" "isa ir CallInst V"
  shows "contributes (flowCall ir ctx F V BB m) {} (callMarks ir ctx V) m"
proof (cases "calledFunction ir V = NULL")
  case True
  then show ?thesis by (simp add: flowCall_def callMarks_def)
next
  case False
  have p: "getParent ir V \<noteq> NULL" using V by (intro wf_flowD(7) [OF wf] wf_instruction(6) [OF wf])
  have "calledValue ir V \<noteq> NULL"
    using wf_flowD(4) [OF wf] V unfolding wf_functions_def by blast
  then obtain n where n: "getCalledFuncName ir V = Inr n"
    using getCalledFuncName_returns V(2) by blast
  have c: "(case CopyFuncs ctx n of Some (src, dst, sz) \<Rightarrow> if dst = -1 then A src else B | None \<Rightarrow> B) = B"
    for A and B :: "(edge_value list \<times> bb_err_map) res"
    using wf_flowD(12) [OF wf] by (auto split: option.split)
  show ?thesis
  proof (cases "n = ''PTR_ERR'' \<or> n = ''ERR_PTR''")
    case True
    then show ?thesis
      using False n markBBErr_marks [OF p, of Must_Return_Err m]
      by (auto simp: flowCall_def callMarks_def intro!: returns_rbind)
  next
    case name: False
    then have "flowCall ir ctx F V BB m = flowCallee ir ctx V m"
      using False n by (simp add: flowCall_def c)
    moreover have "callMarks ir ctx V = (if Callees ctx V = {} \<or> firstCallee ir ctx V = NULL then {}
      else {(getParent ir V, May_Return_Err)} \<union>
        (if mayErr ir ctx (firstCallee ir ctx V) \<and> checkedAfterCall ir V
         then {(succs ir (terminator ir (getParent ir V)) ! 0, Must_Return_Err)} else {}))"
      using False n name by (simp add: callMarks_def)
    ultimately show ?thesis using flowCallee_contributes [OF wf V, of m] by simp
  qed
qed

section \<open>The loop\<close>

abbreviation flows ::
  "(edge_value list \<times> flow_state) res \<Rightarrow> ptr set \<Rightarrow> bb_mark set \<Rightarrow> ptr set \<Rightarrow> flow_state \<Rightarrow> bool"
where
  "flows r N M S st \<equiv> returns r (\<lambda>(new, m', Sel').
     snd ` set new = N \<and> marked_by M (fst st) m' \<and> Sel' = snd st \<union> S)"

lemma keepSelects_flows:
  "contributes r N M m \<Longrightarrow> flows (keepSelects Sel r) N M {} (m, Sel)"
  by (auto simp: keepSelects_def elim!: returnsE2)

definition errSelects :: "llvm \<Rightarrow> ptr \<Rightarrow> ptr \<Rightarrow> ptr set" where
  "errSelects ir F V = (if errSelect ir F V then {V} else {})"

lemma valueFlowBody_flows:
  assumes wf: "wf_flow ir ctx" and V: "snd EV \<in> set (heap ir)"
  shows "flows (valueFlowBody ir ctx F EV (m, Sel)) (flowNext ir (snd EV))
    (flowMarks ir ctx F (snd EV)) (errSelects ir F (snd EV)) (m, Sel)"
proof -
  let ?V = "snd EV" and ?B = "getParent ir (snd EV)"
  note heap = wf_flowD(2) [OF wf]
  show ?thesis
  proof (cases "isa ir Instruction ?V")
    case False
    then show ?thesis
      by (simp add: valueFlowBody_def flowNext_def flowMarks_def errSelects_def errSelect_def)
  next
    case I: True
    have p: "?B \<noteq> NULL" by (rule wf_flowD(7) [OF wf V I])
    note na = wf_not_argument_constant [OF wf I]
    note defs = valueFlowBody_def flowNext_def flowMarks_def errSelects_def errSelect_def Let_def
    consider (load) "isa ir LoadInst ?V"
      | (phi) "\<not> isa ir LoadInst ?V" "isa ir PHINode ?V"
      | (sel) "\<not> isa ir LoadInst ?V" "\<not> isa ir PHINode ?V" "isa ir SelectInst ?V"
      | (gep) "\<not> isa ir LoadInst ?V" "\<not> isa ir PHINode ?V" "\<not> isa ir SelectInst ?V"
          "isa ir GetElementPtrInst ?V"
      | (call) "\<not> isa ir LoadInst ?V" "\<not> isa ir PHINode ?V" "\<not> isa ir SelectInst ?V"
          "\<not> isa ir GetElementPtrInst ?V" "isa ir CallInst ?V"
      | (icmp) "\<not> isa ir LoadInst ?V" "\<not> isa ir PHINode ?V" "\<not> isa ir SelectInst ?V"
          "\<not> isa ir GetElementPtrInst ?V" "\<not> isa ir CallInst ?V" "isa ir ICmpInst ?V"
      | (unary) "\<not> isa ir LoadInst ?V" "\<not> isa ir PHINode ?V" "\<not> isa ir SelectInst ?V"
          "\<not> isa ir GetElementPtrInst ?V" "\<not> isa ir CallInst ?V" "\<not> isa ir ICmpInst ?V"
          "isa ir UnaryInstruction ?V"
      | (rest) "\<not> isa ir LoadInst ?V" "\<not> isa ir PHINode ?V" "\<not> isa ir SelectInst ?V"
          "\<not> isa ir GetElementPtrInst ?V" "\<not> isa ir CallInst ?V" "\<not> isa ir ICmpInst ?V"
          "\<not> isa ir UnaryInstruction ?V"
      by blast
    then show ?thesis
    proof cases
      case load
      with I keepSelects_flows [OF flowLoad_contributes [OF wf V load]]
      show ?thesis by (simp add: defs)
    next
      case phi
      with I keepSelects_flows [OF flowPHI_contributes [OF wf V]]
      show ?thesis by (simp add: defs)
    next
      case sel
      show ?thesis
        using I sel flowSelect_returns [OF wf V sel(3), of F ?B m Sel]
        by (auto simp: defs elim!: returns_mono)
    next
      case gep
      have "pointerOperand ir ?V \<in> set (heap ir)"
        using gep(4) by (intro wf_heapD(8) [OF heap V]) simp
      with I gep keepSelects_flows [OF flowOperand_contributes [OF wf _ p]]
      show ?thesis by (simp add: defs)
    next
      case call
      with I keepSelects_flows [OF flowCall_contributes [OF wf V call(5)]]
      show ?thesis by (simp add: defs)
    next
      case icmp
      with I show ?thesis by (simp add: defs)
    next
      case unary
      obtain UO us where o: "operands ir ?V = UO # us"
        using wf_flowD(9) [OF wf V unary(7)] by (cases "operands ir ?V") simp_all
      with wf_heapD(2) [OF heap V] have "UO \<in> set (heap ir)" by simp
      with I unary na o keepSelects_flows [OF flowOperand_contributes [OF wf _ p]]
      show ?thesis by (simp add: defs)
    next
      case rest
      have "returns (rbind (markBBErr ?B May_Return_Err m) (\<lambda>m. Inr ([], m, Sel)))
          (\<lambda>(new, m', Sel'). snd ` set (new :: edge_value list) = {} \<and>
             marked_by {(?B, May_Return_Err)} m m' \<and> Sel' = Sel)"
        by (rule returns_rbind [OF markBBErr_marks [OF p]]) simp
      with I rest na show ?thesis by (simp add: defs)
    qed
  qed
qed

lemma flowNext_heap:
  assumes wf: "wf_flow ir ctx" and V: "V \<in> set (heap ir)"
  shows "flowNext ir V \<subseteq> set (heap ir)"
proof -
  note heap = wf_flowD(2) [OF wf]
  have stores: "valueOperand ir S \<in> set (heap ir)" if "isa ir LoadInst V" "S \<in> storesTo ir V" for S
  proof -
    have "pointerOperand ir V \<in> set (heap ir)" using that(1) wf_heapD(8) [OF heap V] by blast
    with that(2) wf_heapD(1) [OF heap] have "S \<in> set (heap ir)" by (auto simp: storesTo_def)
    with that(2) show ?thesis by (intro wf_heapD(9) [OF heap]) (simp_all add: storesTo_def)
  qed
  have inc: "IV \<in> set (heap ir)" if "(IV, b) \<in> set (incoming ir V)" for IV b
    using that wf_heapD(4) [OF heap V] by force
  have un: "hd (operands ir V) \<in> set (heap ir)" if "isa ir UnaryInstruction V"
    using wf_flowD(9) [OF wf V that] wf_heapD(2) [OF heap V] hd_in_set by blast
  show ?thesis
    using stores inc un wf_heapD(8,10,11) [OF heap V]
    by (auto simp: flowNext_def nonConst_def split: if_splits)
qed

abbreviation flow_inv ::
  "llvm \<Rightarrow> gctx \<Rightarrow> ptr \<Rightarrow> flow_state \<Rightarrow> ptr set \<Rightarrow> flow_state \<Rightarrow> bool"
where
  "flow_inv ir ctx F st P st' \<equiv> wf_flow ir ctx \<and>
     marked_by (\<Union>V \<in> P. flowMarks ir ctx F V) (fst st) (fst st') \<and>
     snd st' = snd st \<union> (\<Union>V \<in> P. errSelects ir F V)"

interpretation value_flow: worklist_find never_stop snd "valueFlowBody ir ctx F" "set (heap ir)"
  "\<lambda>x. snd x \<in> set (heap ir)" "flow_inv ir ctx F st" "flowNext ir" for ir ctx F st
proof unfold_locales
  fix x :: edge_value and P and st' :: flow_state
  obtain m Sel where [simp]: "st' = (m, Sel)" by fastforce
  assume x: "snd x \<in> set (heap ir)" and I: "flow_inv ir ctx F st P st'"
  then have wf: "wf_flow ir ctx" by blast
  obtain new m' Sel' where b: "valueFlowBody ir ctx F x st' = Inr (new, m', Sel')"
    and n: "snd ` set new = flowNext ir (snd x)"
    and m: "marked_by (flowMarks ir ctx F (snd x)) m m'"
    and S: "Sel' = Sel \<union> errSelects ir F (snd x)"
    using valueFlowBody_flows [OF wf x, of F m Sel] by (elim returnsE2) auto
  have "\<forall>y \<in> set new. snd y \<in> set (heap ir)"
    using flowNext_heap [OF wf x] n by blast
  moreover have "marked_by (\<Union>V \<in> insert (snd x) P. flowMarks ir ctx F V) (fst st) m'"
  proof -
    have "marked_by ((\<Union>V \<in> P. flowMarks ir ctx F V) \<union> flowMarks ir ctx F (snd x)) (fst st) m'"
      by (rule marked_by_trans [OF _ m]) (use I in simp)
    then show ?thesis by (simp only: UN_insert Un_commute)
  qed
  moreover have "Sel' = snd st \<union> (\<Union>V \<in> insert (snd x) P. errSelects ir F V)"
    using I S by auto
  ultimately show "returns (valueFlowBody ir ctx F x st')
      (\<lambda>(new, s'). (\<forall>y \<in> set new. snd y \<in> set (heap ir)) \<and>
         flow_inv ir ctx F st (insert (snd x) P) s')"
    using b wf by simp
  show "snd ` set nw \<subseteq> flowNext ir (snd x) \<and> (\<not> never_stop s' \<longrightarrow> snd ` set nw = flowNext ir (snd x))"
    if "valueFlowBody ir ctx F x st' = Inr (nw, s')" for nw s'
    using that b n by simp
qed (simp_all)

text \<open>The values the returns of a function return.\<close>

definition returnedValues :: "llvm \<Rightarrow> ptr set \<Rightarrow> ptr set" where
  "returnedValues ir Is = {returnValue ir I | I. I \<in> Is \<and> isa ir ReturnInst I \<and> returnValue ir I \<noteq> NULL}"

definition flowValues :: "llvm \<Rightarrow> ptr set \<Rightarrow> ptr set" where
  "flowValues ir Is = reach_set (flowNext ir) (returnedValues ir Is)"

lemma flow_null:
  assumes "wf_flow ir ctx"
  shows "flowNext ir NULL = {}" "flowMarks ir ctx F NULL = {}" "errSelects ir F NULL = {}"
    "\<not> errSelect ir F NULL"
  using wf_flowD(6) [OF assms] by (simp_all add: flowNext_def flowMarks_def errSelects_def errSelect_def)

lemma checkErrValueFlow_returns:
  assumes wf: "wf_flow ir ctx" and RI: "RI \<in> set (heap ir)" "isa ir ReturnInst RI"
    and I: "insert NULL PV = insert NULL (flowValues ir Is)" "flow_inv ir ctx F st (insert NULL PV) fs"
  shows "returns (checkErrValueFlow ir ctx F RI (PV, fs)) (\<lambda>(PV', fs').
    insert NULL PV' = insert NULL (flowValues ir (insert RI Is)) \<and>
    flow_inv ir ctx F st (insert NULL PV') fs')"
proof (cases "returnValue ir RI = NULL")
  case True
  then have "returnedValues ir (insert RI Is) = returnedValues ir Is"
    by (auto simp: returnedValues_def)
  then have "flowValues ir (insert RI Is) = flowValues ir Is" by (simp add: flowValues_def)
  moreover have "checkErrValueFlow ir ctx F RI (PV, fs) = Inr (PV, fs)"
    using True by (simp add: checkErrValueFlow_def)
  ultimately show ?thesis using I by (simp only: returns_Inr prod.case simp_thms)
next
  case False
  let ?R = "returnValue ir RI" and ?q = "[((NULL, getParent ir RI), returnValue ir RI)]"
  have R: "?R \<in> set (heap ir)" using wf_flowD(10) [OF wf RI] False by simp
  have closed: "flowNext ir x \<subseteq> insert NULL PV" if "x \<in> insert NULL PV" for x
  proof (cases "x = NULL")
    case True
    then show ?thesis by (simp add: flow_null [OF wf])
  next
    case False
    with that I(1) have "x \<in> flowValues ir Is" by blast
    then have "flowNext ir x \<subseteq> flowValues ir Is" unfolding flowValues_def by (rule reach_set_closed)
    with I(1) show ?thesis by blast
  qed
  have "returns (worklist_from never_stop snd (valueFlowBody ir ctx F) ?q (insert NULL PV) fs)
    (\<lambda>(P, s'). P \<subseteq> insert NULL PV \<union> reach_set (flowNext ir) (snd ` set ?q) \<and>
       (\<not> never_stop s' \<longrightarrow> P = insert NULL PV \<union> reach_set (flowNext ir) (snd ` set ?q)) \<and>
       flow_inv ir ctx F st P s')"
    by (rule value_flow.loop_from_finds) (use R I(2) closed in simp_all)
  then obtain P fs' where w: "worklist_from never_stop snd (valueFlowBody ir ctx F) ?q (insert NULL PV) fs = Inr (P, fs')"
    and P: "P = insert NULL PV \<union> reach_set (flowNext ir) {?R}" and I': "flow_inv ir ctx F st P fs'"
    by (elim returnsE2) simp
  have "returnedValues ir (insert RI Is) = returnedValues ir Is \<union> {?R}"
    using False RI(2) by (auto simp: returnedValues_def)
  then have "flowValues ir (insert RI Is) = flowValues ir Is \<union> reach_set (flowNext ir) {?R}"
    by (simp only: flowValues_def reach_set_Un)
  with P I(1) have "insert NULL (P - {NULL}) = insert NULL (flowValues ir (insert RI Is))" by blast
  moreover have "insert NULL (P - {NULL}) = P" using P by blast
  moreover have "checkErrValueFlow ir ctx F RI (PV, fs) = Inr (P - {NULL}, fs')"
    using False w by (simp add: checkErrValueFlow_def)
  ultimately show ?thesis using I' by (simp only: returns_Inr prod.case simp_thms)
qed

text \<open>
  The whole search: the marks of every value that flows into a return, and the selects among
  them with one error arm. The result does not depend on the order of the returns.
\<close>

lemma checkErrReturn_returns:
  assumes wf: "wf_flow ir ctx" and F: "F \<in> set (heap ir)"
  defines "R \<equiv> flowValues ir (set (instructions ir F))"
  shows "returns (checkErrReturn ir ctx F (m, Sel)) (\<lambda>(m', Sel').
    marked_by (\<Union>V \<in> R. flowMarks ir ctx F V) m m' \<and> Sel' = Sel \<union> {V \<in> R. errSelect ir F V})"
proof -
  let ?Q = "\<lambda>Is (PV, fs). insert NULL PV = insert NULL (flowValues ir Is) \<and>
    flow_inv ir ctx F (m, Sel) (insert NULL PV) fs"
  have "returns (foldM (\<lambda>I st. if isa ir ReturnInst I then checkErrValueFlow ir ctx F I st else Inr st)
      (instructions ir F) ({}, m, Sel)) (?Q (set (instructions ir F)))"
  proof (rule returns_foldM_seen [where Q = ?Q])
    show "?Q {} ({}, m, Sel)"
      using wf by (simp add: flowValues_def returnedValues_def reach_set_def flow_null)
  next
    fix ys x zs and s :: "ptr set \<times> flow_state"
    obtain PV fs where s: "s = (PV, fs)" by (cases s) blast
    assume xs: "instructions ir F = ys @ x # zs" and Q: "?Q (set ys) s"
    show "returns (if isa ir ReturnInst x then checkErrValueFlow ir ctx F x s else Inr s)
        (?Q (insert x (set ys)))"
    proof (cases "isa ir ReturnInst x")
      case True
      from xs F wf_flowD(4) [OF wf] have "x \<in> set (heap ir)" by (auto simp: wf_functions_def)
      moreover from Q have "insert NULL PV = insert NULL (flowValues ir (set ys))"
        "flow_inv ir ctx F (m, Sel) (insert NULL PV) fs"
        unfolding s prod.case by blast+
      ultimately have "returns (checkErrValueFlow ir ctx F x (PV, fs)) (?Q (insert x (set ys)))"
        by (intro checkErrValueFlow_returns [OF wf _ True])
      with True show ?thesis by (simp only: s if_True)
    next
      case False
      then have "flowValues ir (insert x (set ys)) = flowValues ir (set ys)"
        by (auto simp: flowValues_def returnedValues_def intro!: arg_cong [where f = "reach_set (flowNext ir)"])
      with False Q show ?thesis by (simp only: if_False returns_Inr)
    qed
  qed
  then obtain r where r: "foldM (\<lambda>I st. if isa ir ReturnInst I then checkErrValueFlow ir ctx F I st else Inr st)
      (instructions ir F) ({}, m, Sel) = Inr r" "?Q (set (instructions ir F)) r"
    by (rule returnsE)
  obtain PV fs where s: "r = (PV, fs)" by (cases r) blast
  have
    f: "foldM (\<lambda>I st. if isa ir ReturnInst I then checkErrValueFlow ir ctx F I st else Inr st)
      (instructions ir F) ({}, m, Sel) = Inr (PV, fs)"
    and PV: "insert NULL PV = insert NULL R"
    and I: "flow_inv ir ctx F (m, Sel) (insert NULL PV) fs"
    using r unfolding s R_def prod.case by blast+
  have "(\<Union>V \<in> insert NULL R. flowMarks ir ctx F V) = (\<Union>V \<in> R. flowMarks ir ctx F V)"
    "(\<Union>V \<in> insert NULL R. errSelects ir F V) = {V \<in> R. errSelect ir F V}"
    using flow_null(2,4) [OF wf]
    by (auto simp: errSelects_def split: if_splits)
  with I have "marked_by (\<Union>V \<in> R. flowMarks ir ctx F V) m (fst fs)"
    "snd fs = Sel \<union> {V \<in> R. errSelect ir F V}"
    unfolding PV by (simp_all only: fst_conv snd_conv)
  with f show ?thesis by (cases fs) (simp add: checkErrReturn_def)
qed

end
