(* ===== verification/CheckTheorems.thy ===== *)
theory CheckTheorems
  imports FlowTheorems
begin

text \<open>
  The security checks of a function: which blocks handle an error, what the edge marking of
  the whole function guarantees, which conditional statements are reported, and the invariant
  of the sets the module pass records them in.
\<close>

section \<open>Blocks that handle an error\<close>

definition handlesError :: "llvm \<Rightarrow> (string \<Rightarrow> string) \<Rightarrow> gctx \<Rightarrow> ptr \<Rightarrow> bool" where
  "handlesError ir files ctx I \<longleftrightarrow> isa ir CallInst I \<and>
     (case getCalledFuncName ir I of Inl _ \<Rightarrow> False
      | Inr n \<Rightarrow>
          (let name = takeWhile (\<lambda>c. c \<noteq> CHR '' '') n
           in (if endswith name ''printk'' then getSourceFuncName ir files I else name)
              \<in> ErrorHandleFuncs ctx))"

definition handleMarks :: "llvm \<Rightarrow> (string \<Rightarrow> string) \<Rightarrow> gctx \<Rightarrow> ptr \<Rightarrow> bb_mark set" where
  "handleMarks ir files ctx BB =
     (if \<exists>I \<in> set (insts ir BB). handlesError ir files ctx I then {(BB, Must_Handle_Err)} else {})"

text \<open>A function whose blocks exist and whose calls call something.\<close>

definition wf_calls :: "llvm \<Rightarrow> ptr \<Rightarrow> bool" where
  "wf_calls ir F \<longleftrightarrow> NULL \<notin> set (blocks ir F) \<and>
     (\<forall>I \<in> set (instructions ir F). isa ir CallInst I \<longrightarrow> calledValue ir I \<noteq> NULL)"

lemma returns_foldM_marks:
  assumes "\<And>x m. x \<in> set xs \<Longrightarrow> returns (f x m) (marked_by (M x) m)"
  shows "returns (foldM f xs m) (marked_by (\<Union>x \<in> set xs. M x) m)"
  using assms
proof (induction xs arbitrary: m)
  case Nil
  then show ?case by simp
next
  case (Cons x xs)
  have "returns (f x m) (marked_by (M x) m)" by (rule Cons.prems) simp
  then show ?case
    unfolding foldM.simps
  proof (rule returns_rbind)
    fix m1 assume m1: "marked_by (M x) m m1"
    have "returns (foldM f xs m1) (marked_by (\<Union>x \<in> set xs. M x) m1)"
      by (rule Cons.IH) (simp add: Cons.prems)
    then show "returns (foldM f xs m1) (marked_by (\<Union>y \<in> set (x # xs). M y) m)"
      using marked_by_trans [OF m1] by (auto elim!: returns_mono)
  qed
qed

lemma checkErrHandleInst_marks:
  assumes "BB \<noteq> NULL" "isa ir CallInst I \<longrightarrow> calledValue ir I \<noteq> NULL"
  shows "returns (checkErrHandleInst ir files ctx BB I m)
    (marked_by (if handlesError ir files ctx I then {(BB, Must_Handle_Err)} else {}) m)"
proof (cases "isa ir CallInst I")
  case True
  with assms(2) obtain n where n: "getCalledFuncName ir I = Inr n"
    using getCalledFuncName_returns by blast
  show ?thesis
    using True n markBBErr_marks [OF assms(1), of Must_Handle_Err m]
    by (simp add: checkErrHandleInst_def handlesError_def Let_def)
next
  case False
  then show ?thesis by (simp add: checkErrHandleInst_def handlesError_def)
qed

lemma checkErrHandle_returns:
  assumes "wf_calls ir F"
  shows "returns (checkErrHandle ir files ctx F m)
    (marked_by (\<Union>b \<in> set (blocks ir F). handleMarks ir files ctx b) m)"
  unfolding checkErrHandle_def
proof (rule returns_foldM_marks)
  fix b m assume b: "b \<in> set (blocks ir F)"
  then have "b \<noteq> NULL" using assms by (auto simp: wf_calls_def)
  have "returns (foldM (checkErrHandleInst ir files ctx b) (insts ir b) m) (marked_by
      (\<Union>I \<in> set (insts ir b). if handlesError ir files ctx I then {(b, Must_Handle_Err)} else {}) m)"
    by (rule returns_foldM_marks, rule checkErrHandleInst_marks [OF \<open>b \<noteq> NULL\<close>])
       (use assms b in \<open>auto simp: wf_calls_def instructions_def\<close>)
  moreover have "(\<Union>I \<in> set (insts ir b). if handlesError ir files ctx I then {(b, Must_Handle_Err)} else {})
      = handleMarks ir files ctx b"
    by (auto simp: handleMarks_def split: if_splits)
  ultimately show "returns (foldM (checkErrHandleInst ir files ctx b) (insts ir b) m)
      (marked_by (handleMarks ir files ctx b) m)" by simp
qed

section \<open>The marking of all edges\<close>

definition handleBlocks :: "llvm \<Rightarrow> ptr \<Rightarrow> bb_err_map \<Rightarrow> ptr set" where
  "handleBlocks ir F E = {b \<in> set (blocks ir F). bit (map_at E b) 4}"

lemma markAllEdges_handle:
  assumes wf: "wf_cfg ir F"
  shows "returns (markAllEdgesErrFlag ir F E Map.empty)
    (\<lambda>(marked, m). marked = (E \<noteq> Map.empty) \<and> handle_marks ir (handleBlocks ir F E) m)"
proof (cases "E = Map.empty")
  case True
  then show ?thesis
    by (simp add: markAllEdgesErrFlag_def handle_marks_def handleBlocks_def reach_set_def)
next
  case False
  let ?Q = "\<lambda>B m. handle_marks ir {b \<in> B. bit (map_at E b) 4} m"
  have "returns (foldM (markBlockEdges ir E) (blocks ir F) Map.empty) (?Q (set (blocks ir F)))"
  proof (rule returns_foldM_seen [where Q = ?Q])
    show "?Q {} Map.empty" by (simp add: handle_marks_def reach_set_def)
  next
    fix ys b zs m assume bs: "blocks ir F = ys @ b # zs" and m: "?Q (set ys) m"
    have "{c \<in> insert b (set ys). bit (map_at E c) 4} =
        (if bit (map_at E b) 4 then insert b {c \<in> set ys. bit (map_at E c) 4}
         else {c \<in> set ys. bit (map_at E c) 4})" by auto
    moreover have "b \<in> set (blocks ir F)" by (simp add: bs)
    ultimately show "returns (markBlockEdges ir E b m) (?Q (insert b (set ys)))"
      using markBlockEdges_returns [OF wf _ m] by simp
  qed
  with False show ?thesis
    by (auto simp: markAllEdgesErrFlag_def handleBlocks_def intro: returns_rbind)
qed

section \<open>The reported conditional statements\<close>

definition conditional :: "llvm \<Rightarrow> ptr \<Rightarrow> bool" where
  "conditional ir I \<longleftrightarrow>
     (if isa ir BranchInst I \<or> isa ir SwitchInst I then 2 \<le> length (succs ir I)
      else isa ir SelectInst I)"

text \<open>Some outgoing edge carries the flag bit and some does not.\<close>

definition mixedBit :: "llvm \<Rightarrow> edge_err_map \<Rightarrow> ptr \<Rightarrow> nat \<Rightarrow> bool" where
  "mixedBit ir m I n \<longleftrightarrow>
     (\<exists>c \<in> set (successors ir (getParent ir I)). bit (map_at m (I, c)) n) \<and>
     (\<exists>c \<in> set (successors ir (getParent ir I)). \<not> bit (map_at m (I, c)) n)"

definition reported :: "llvm \<Rightarrow> edge_err_map \<Rightarrow> ptr set \<Rightarrow> ptr \<Rightarrow> bool" where
  "reported ir m Sel I \<longleftrightarrow> conditional ir I \<and> condition ir I \<noteq> NULL \<and>
     (if isa ir BranchInst I \<or> isa ir SwitchInst I then mixedBit ir m I 0 \<or> mixedBit ir m I 4
      else I \<in> Sel)"

lemma countSuccessors:
  assumes "fold (countSuccessor I) cs (n, m) = (n', m')"
  shows "map_at m' e = map_at m e"
    and "NumMustErrReturn n' \<noteq> 0 \<longleftrightarrow>
      NumMustErrReturn n \<noteq> 0 \<or> (\<exists>c \<in> set cs. bit (map_at m (I, c)) 0)"
    and "NumMayErrReturn n' \<noteq> 0 \<longleftrightarrow>
      NumMayErrReturn n \<noteq> 0 \<or> (\<exists>c \<in> set cs. \<not> bit (map_at m (I, c)) 0)"
    and "NumMustErrHandle n' \<noteq> 0 \<longleftrightarrow>
      NumMustErrHandle n \<noteq> 0 \<or> (\<exists>c \<in> set cs. bit (map_at m (I, c)) 4)"
    and "NumMayErrHandle n' \<noteq> 0 \<longleftrightarrow>
      NumMayErrHandle n \<noteq> 0 \<or> (\<exists>c \<in> set cs. \<not> bit (map_at m (I, c)) 4)"
  using assms
  by (induction cs arbitrary: n m)
     (force simp: countSuccessor_def Let_def test_flag split: if_splits)+

lemma isMixedBranch_iff:
  assumes "fold (countSuccessor I) (successors ir (getParent ir I))
    (\<lparr> NumMustErrReturn = 0, NumMayErrReturn = 0, NumMustErrHandle = 0, NumMayErrHandle = 0 \<rparr>, m)
    = (n, m')"
  shows "isMixedBranch n \<longleftrightarrow> mixedBit ir m I 0 \<or> mixedBit ir m I 4"
  using countSuccessors(2-5) [OF assms] by (simp add: isMixedBranch_def mixedBit_def)

lemma SCheck_newSecurityCheck [simp]:
  "SCheck (newSecurityCheck ir SC Br) = SC" "SCBranch (newSecurityCheck ir SC Br) = Br"
  by (simp_all add: newSecurityCheck_def Let_def)

lemma addSecurityCheck_set:
  "SCheck ` set (addSecurityCheck ir SC Br S) = insert SC (SCheck ` set S)"
  by (auto simp: addSecurityCheck_def)

lemma addSecurityCheck_distinct:
  "distinct (map SCheck (addSecurityCheck ir SC Br S)) = distinct (map SCheck S)"
  by (auto simp: addSecurityCheck_def)

lemma addSecurityCheck_new:
  "sc \<in> set (addSecurityCheck ir SC Br S) \<Longrightarrow> sc \<in> set S \<or> sc = newSecurityCheck ir SC Br"
  by (auto simp: addSecurityCheck_def split: if_splits)

text \<open>One statement: the flags are unchanged; it is added to the checks if it is reported.\<close>

lemma identifyInst_cases:
  "\<exists>m'. (\<forall>e. map_at m' e = map_at m e) \<and>
     identifyInst ir Sel I (m, S, n) =
       (m', if reported ir m Sel I then addSecurityCheck ir (condition ir I) I S else S,
        if conditional ir I then n + 1 else n)"
proof (cases "isa ir BranchInst I \<or> isa ir SwitchInst I")
  case True
  obtain k m' where f: "fold (countSuccessor I) (successors ir (getParent ir I))
    (\<lparr> NumMustErrReturn = 0, NumMayErrReturn = 0, NumMustErrHandle = 0, NumMayErrHandle = 0 \<rparr>, m)
    = (k, m')" by fastforce
  note mixed = isMixedBranch_iff [OF f]
  show ?thesis
  proof (cases "length (succs ir I) < 2")
    case short: True
    with True show ?thesis
      by (intro exI [of _ m]) (simp add: identifyInst_def conditional_def reported_def)
  next
    case False
    show ?thesis
    proof (intro exI [of _ m'] conjI allI)
      show "map_at m' e = map_at m e" for e by (rule countSuccessors(1) [OF f])
      show "identifyInst ir Sel I (m, S, n) =
       (m', if reported ir m Sel I then addSecurityCheck ir (condition ir I) I S else S,
        if conditional ir I then n + 1 else n)"
        using True False mixed by (simp add: identifyInst_def conditional_def reported_def f Let_def)
    qed
  qed
next
  case False
  then show ?thesis
    by (intro exI [of _ m])
       (simp add: identifyInst_def conditional_def reported_def Let_def)
qed

lemma reported_cong: "(\<And>e. map_at m' e = map_at m e) \<Longrightarrow> reported ir m' Sel I = reported ir m Sel I"
  by (simp add: reported_def mixedBit_def)

text \<open>What a list of security checks says about the statements it was found in.\<close>

definition checks_of :: "llvm \<Rightarrow> ptr set \<Rightarrow> security_check list \<Rightarrow> bool" where
  "checks_of ir R S \<longleftrightarrow> SCheck ` set S = condition ir ` R \<and> distinct (map SCheck S) \<and>
     (\<forall>sc \<in> set S. SCBranch sc \<in> R \<and> condition ir (SCBranch sc) = SCheck sc)"

lemma checks_of_empty [simp]: "checks_of ir {} []"
  by (simp add: checks_of_def)

lemma checks_of_add:
  "checks_of ir R S \<Longrightarrow> checks_of ir (insert I R) (addSecurityCheck ir (condition ir I) I S)"
  by (auto simp: checks_of_def addSecurityCheck_set addSecurityCheck_distinct
      dest!: addSecurityCheck_new)

lemma identify_all:
  assumes "checks_of ir R S"
  shows "\<exists>m' S'. fold (identifyInst ir Sel) Is (m, S, n) =
      (m', S', n + of_nat (length (filter (conditional ir) Is))) \<and>
    (\<forall>e. map_at m' e = map_at m e) \<and>
    checks_of ir (R \<union> {I \<in> set Is. reported ir m Sel I}) S'"
  using assms
proof (induction Is arbitrary: m S n R)
  case Nil
  then show ?case by simp
next
  case (Cons I Is)
  obtain m1 where m1: "\<And>e. map_at m1 e = map_at m e"
    and st: "identifyInst ir Sel I (m, S, n) =
       (m1, if reported ir m Sel I then addSecurityCheck ir (condition ir I) I S else S,
        if conditional ir I then n + 1 else n)"
    using identifyInst_cases by metis
  let ?S1 = "if reported ir m Sel I then addSecurityCheck ir (condition ir I) I S else S"
  let ?R1 = "if reported ir m Sel I then insert I R else R"
  let ?n1 = "if conditional ir I then n + 1 else n"
  have "checks_of ir ?R1 ?S1" using Cons.prems checks_of_add by simp
  from Cons.IH [OF this, of m1 ?n1] obtain m' S' where
    f: "fold (identifyInst ir Sel) Is (m1, ?S1, ?n1) =
      (m', S', ?n1 + of_nat (length (filter (conditional ir) Is)))"
    and m': "\<forall>e. map_at m' e = map_at m1 e"
    and c: "checks_of ir (?R1 \<union> {I \<in> set Is. reported ir m1 Sel I}) S'" by blast
  have "?R1 \<union> {I \<in> set Is. reported ir m1 Sel I} = R \<union> {J \<in> set (I # Is). reported ir m Sel J}"
    using reported_cong [of m1 m, OF m1] by auto
  moreover have "?n1 + of_nat (length (filter (conditional ir) Is)) =
      n + of_nat (length (filter (conditional ir) (I # Is)))" by simp
  ultimately have "fold (identifyInst ir Sel) (I # Is) (m, S, n) =
      (m', S', n + of_nat (length (filter (conditional ir) (I # Is)))) \<and>
    (\<forall>e. map_at m' e = map_at m e) \<and>
    checks_of ir (R \<union> {J \<in> set (I # Is). reported ir m Sel J}) S'"
    using f m' m1 c st by simp
  then show ?case by blast
qed

section \<open>One function\<close>

text \<open>The block map of a function: its error-returning and its error-handling marks.\<close>

definition functionMarks ::
  "llvm \<Rightarrow> (string \<Rightarrow> string) \<Rightarrow> gctx \<Rightarrow> ptr \<Rightarrow> bb_mark set"
where
  "functionMarks ir files ctx F =
     (\<Union>V \<in> flowValues ir (set (instructions ir F)). flowMarks ir ctx F V) \<union>
     (\<Union>b \<in> set (blocks ir F). handleMarks ir files ctx b)"

text \<open>The blocks from which an error-handling call is reached without a branch.\<close>

definition handlingRegion ::
  "llvm \<Rightarrow> (string \<Rightarrow> string) \<Rightarrow> gctx \<Rightarrow> ptr \<Rightarrow> ptr set"
where
  "handlingRegion ir files ctx F = reach_set (straight_preds ir)
     {b \<in> set (blocks ir F). \<exists>I \<in> set (insts ir b). handlesError ir files ctx I}"

definition functionSelects :: "llvm \<Rightarrow> ptr \<Rightarrow> ptr set" where
  "functionSelects ir F = {V \<in> flowValues ir (set (instructions ir F)). errSelect ir F V}"

lemma flowMarks_flags: "(b, f) \<in> flowMarks ir ctx F V \<Longrightarrow> f = Must_Return_Err \<or> f = May_Return_Err"
  by (auto simp: flowMarks_def operandMarks_def callMarks_def constMark_def split: if_splits)

lemma functionMarks_bit4:
  assumes "marked_by (functionMarks ir files ctx F) Map.empty E"
  shows "handleBlocks ir F E =
    {b \<in> set (blocks ir F). \<exists>I \<in> set (insts ir b). handlesError ir files ctx I}"
proof -
  have "bit (map_at E b) 4 \<longleftrightarrow> (\<exists>I \<in> set (insts ir b). handlesError ir files ctx I)"
    if "b \<in> set (blocks ir F)" for b
  proof -
    have "bit (map_at E b) 4 \<longleftrightarrow> (\<exists>f. (b, f) \<in> functionMarks ir files ctx F \<and> bit f 4)"
      using assms by (simp add: marked_by_def)
    also have "\<dots> \<longleftrightarrow> (\<exists>I \<in> set (insts ir b). handlesError ir files ctx I)"
      using that by (auto simp: functionMarks_def handleMarks_def dest!: flowMarks_flags split: if_splits)
    finally show ?thesis .
  qed
  then show ?thesis by (auto simp: handleBlocks_def)
qed

abbreviation wf_function :: "llvm \<Rightarrow> gctx \<Rightarrow> ptr \<Rightarrow> bool" where
  "wf_function ir ctx F \<equiv>
     wf_flow ir ctx \<and> wf_cfg ir F \<and> wf_calls ir F \<and> F \<in> set (heap ir)"

lemma identifySecurityChecks_returns:
  assumes wf: "wf_function ir ctx F"
  shows "returns (identifySecurityChecks ir files F (ctx, Sel)) (\<lambda>(m, S, ctx', Sel').
    Sel' = Sel \<union> functionSelects ir F \<and>
    handle_marks ir {b \<in> set (blocks ir F). \<exists>I \<in> set (insts ir b). handlesError ir files ctx I} m \<and>
    checks_of ir {I \<in> set (instructions ir F). reported ir m Sel' I} S \<and>
    (\<exists>k. ctx' = ctx\<lparr>NumCondStatements := NumCondStatements ctx + k\<rparr> \<and>
       (S \<noteq> [] \<longrightarrow> k = of_nat (length (filter (conditional ir) (instructions ir F))))))"
proof -
  let ?Is = "instructions ir F"
  let ?H = "{b \<in> set (blocks ir F). \<exists>I \<in> set (insts ir b). handlesError ir files ctx I}"
  from wf have flow: "wf_flow ir ctx" and cfg: "wf_cfg ir F" and calls: "wf_calls ir F"
    and F: "F \<in> set (heap ir)" by blast+
  obtain m1 Sel1 where 1: "checkErrReturn ir ctx F (Map.empty, Sel) = Inr (m1, Sel1)"
    and m1: "marked_by (\<Union>V \<in> flowValues ir (set ?Is). flowMarks ir ctx F V) Map.empty m1"
    and Sel1: "Sel1 = Sel \<union> functionSelects ir F"
    using checkErrReturn_returns [OF flow F, of Map.empty Sel] unfolding functionSelects_def
    by (elim returnsE2) blast
  obtain E where 2: "checkErrHandle ir files ctx F m1 = Inr E"
    and E: "marked_by (\<Union>b \<in> set (blocks ir F). handleMarks ir files ctx b) m1 E"
    using checkErrHandle_returns [OF calls, of files ctx m1] by (elim returnsE) blast
  have "marked_by (functionMarks ir files ctx F) Map.empty E"
    unfolding functionMarks_def by (rule marked_by_trans [OF m1 E])
  then have H: "handleBlocks ir F E = ?H" by (rule functionMarks_bit4)
  obtain b m where 3: "markAllEdgesErrFlag ir F E Map.empty = Inr (b, m)"
    and m: "handle_marks ir ?H m"
    using markAllEdges_handle [OF cfg, of E] unfolding H by (elim returnsE2) blast
  obtain m' S' where 4: "fold (identifyInst ir Sel1) ?Is (m, [], NumCondStatements ctx) =
      (m', S', NumCondStatements ctx + of_nat (length (filter (conditional ir) ?Is)))"
    and m': "\<forall>e. map_at m' e = map_at m e"
    and c: "checks_of ir ({} \<union> {I \<in> set ?Is. reported ir m Sel1 I}) S'"
    using identify_all [OF checks_of_empty] by blast
  show ?thesis
  proof (cases "m = Map.empty \<and> Sel1 = {}")
    case True
    then have run: "identifySecurityChecks ir files F (ctx, Sel) = Inr (m, [], ctx, Sel1)"
      unfolding identifySecurityChecks_def prod.case 1 2 3 rbind.simps by simp
    from True have "\<not> reported ir m Sel1 I" for I by (simp add: reported_def mixedBit_def)
    then have "checks_of ir {I \<in> set ?Is. reported ir m Sel1 I} []" by simp
    moreover have "\<exists>k. ctx = ctx\<lparr>NumCondStatements := NumCondStatements ctx + k\<rparr>"
      by (rule exI [of _ 0]) simp
    ultimately show ?thesis unfolding run using m Sel1 by simp
  next
    case False
    have "handle_marks ir ?H m'" using m m' by (simp add: handle_marks_def)
    moreover have "checks_of ir {I \<in> set ?Is. reported ir m' Sel1 I} S'"
      using c reported_cong [of m' m] m' by simp
    moreover have "identifySecurityChecks ir files F (ctx, Sel) = Inr (m', S', ctx\<lparr>NumCondStatements :=
        NumCondStatements ctx + of_nat (length (filter (conditional ir) ?Is))\<rparr>, Sel1)"
      unfolding identifySecurityChecks_def prod.case 1 2 3 rbind.simps if_not_P [OF False] 4 Let_def ..
    ultimately show ?thesis using Sel1 by auto
  qed
qed

lemma identifySecurityChecks_result:
  assumes "wf_function ir ctx F"
  obtains m S ctx' Sel' where
    "identifySecurityChecks ir files F (ctx, Sel) = Inr (m, S, ctx', Sel')"
    and "Sel' = Sel \<union> functionSelects ir F"
    and "handle_marks ir {b \<in> set (blocks ir F). \<exists>I \<in> set (insts ir b). handlesError ir files ctx I} m"
    and "checks_of ir {I \<in> set (instructions ir F). reported ir m Sel' I} S"
    and "S \<noteq> [] \<longrightarrow> NumCondStatements ctx' =
      NumCondStatements ctx + of_nat (length (filter (conditional ir) (instructions ir F)))"
proof -
  from identifySecurityChecks_returns [OF assms, of files Sel]
  obtain m S ctx' Sel' where i: "identifySecurityChecks ir files F (ctx, Sel) = Inr (m, S, ctx', Sel')"
    and *: "Sel' = Sel \<union> functionSelects ir F \<and>
      handle_marks ir {b \<in> set (blocks ir F). \<exists>I \<in> set (insts ir b). handlesError ir files ctx I} m \<and>
      checks_of ir {I \<in> set (instructions ir F). reported ir m Sel' I} S \<and>
      (\<exists>k. ctx' = ctx\<lparr>NumCondStatements := NumCondStatements ctx + k\<rparr> \<and>
        (S \<noteq> [] \<longrightarrow> k = of_nat (length (filter (conditional ir) (instructions ir F)))))"
    by (elim returnsE) (auto split: prod.splits)
  then have n: "S \<noteq> [] \<longrightarrow> NumCondStatements ctx' =
      NumCondStatements ctx + of_nat (length (filter (conditional ir) (instructions ir F)))" by force
  show thesis by (rule that [OF i _ _ _ n]) (use * in blast)+
qed

section \<open>Completeness of the error-handling half\<close>

lemma handling_branch_reported:
  assumes wf: "wf_cfg ir F" and b: "b \<in> set (blocks ir F)" "I = terminator ir b"
    and I: "isa ir BranchInst I \<or> isa ir SwitchInst I" "condition ir I \<noteq> NULL"
    and c: "c \<in> set (successors ir b)" "d \<in> set (successors ir b)"
      "c \<in> reach_set (straight_preds ir) H" "d \<notin> reach_set (straight_preds ir) H"
    and m: "handle_marks ir H m"
  shows "reported ir m Sel I"
proof -
  have p: "getParent ir I = b" using wf_cfgD(1) [OF wf b(1)] b(2) by simp
  have "c \<in> set (blocks ir F)" using wf_cfgD(2) [OF wf b(1)] c(1) by blast
  then have "b \<in> set (predecessors ir c)" using wf_cfg_pred_iff [OF wf _ b(1)] c(1) by blast
  with c(3) b(2) have "(I, c) \<in> edges_into ir (reach_set (straight_preds ir) H)"
    by (auto simp: edges_into_def)
  then have 1: "bit (map_at m (I, c)) 4" using m by (simp add: handle_marks_def)
  have "(I, d) \<notin> edges_into ir (reach_set (straight_preds ir) H)"
    using c(4) edges_into_snd by fastforce
  then have 2: "\<not> bit (map_at m (I, d)) 4" using m by (simp add: handle_marks_def)
  have "c \<noteq> d" using c(3,4) by blast
  have "2 \<le> length (succs ir I)"
  proof (rule ccontr)
    assume "\<not> 2 \<le> length (succs ir I)"
    with b(2) have "length (successors ir b) \<le> 1" by (simp add: successors_def)
    then have "\<exists>x. set (successors ir b) \<subseteq> {x}"
      by (cases "successors ir b") (auto simp: le_Suc_eq)
    with c(1,2) \<open>c \<noteq> d\<close> show False by blast
  qed
  with 1 2 c(1,2) I p show ?thesis
    by (auto simp: reported_def conditional_def mixedBit_def)
qed

text \<open>
  The conditions the handling half alone makes checks: those of branches of which one successor
  leads straight to an error-handling call and another does not.
\<close>

definition handlingConditions :: "llvm \<Rightarrow> (string \<Rightarrow> string) \<Rightarrow> gctx \<Rightarrow> ptr \<Rightarrow> ptr set" where
  "handlingConditions ir files ctx F =
     {condition ir (terminator ir b) |b c d. b \<in> set (blocks ir F) \<and> terminator ir b \<in> set (instructions ir F) \<and>
        (isa ir BranchInst (terminator ir b) \<or> isa ir SwitchInst (terminator ir b)) \<and>
        condition ir (terminator ir b) \<noteq> NULL \<and> c \<in> set (successors ir b) \<and> d \<in> set (successors ir b) \<and>
        c \<in> handlingRegion ir files ctx F \<and> d \<notin> handlingRegion ir files ctx F}"

lemma handlingConditions_checked:
  assumes wf: "wf_cfg ir F" and c: "checks_of ir {I \<in> set (instructions ir F). reported ir m Sel I} S"
    and m: "handle_marks ir {b \<in> set (blocks ir F). \<exists>I \<in> set (insts ir b). handlesError ir files ctx I} m"
  shows "handlingConditions ir files ctx F \<subseteq> SCheck ` set S"
proof -
  have "SCheck ` set S = condition ir ` {I \<in> set (instructions ir F). reported ir m Sel I}"
    using c by (simp add: checks_of_def)
  moreover have "reported ir m Sel (terminator ir b)"
    if "b \<in> set (blocks ir F)" "isa ir BranchInst (terminator ir b) \<or> isa ir SwitchInst (terminator ir b)"
      "condition ir (terminator ir b) \<noteq> NULL" "c \<in> set (successors ir b)" "d \<in> set (successors ir b)"
      "c \<in> handlingRegion ir files ctx F" "d \<notin> handlingRegion ir files ctx F" for b c d
    by (rule handling_branch_reported [OF wf that(1) refl that(2-5) _ _ m])
       (use that(6,7) in \<open>simp_all add: handlingRegion_def\<close>)
  ultimately show ?thesis by (auto simp: handlingConditions_def)
qed

section \<open>The module pass\<close>

text \<open>
  The recorded sets: strictly ordered by the check instruction, and \<open>CheckInstSets\<close> holds
  exactly the instructions of \<open>SecurityCheckSets\<close>.
\<close>

definition recorded_ok :: "gctx \<Rightarrow> bool" where
  "recorded_ok ctx \<longleftrightarrow> (\<forall>F. sorted_wrt security_check_less (SecurityCheckSets ctx F) \<and>
     CheckInstSets ctx F = SCheck ` set (SecurityCheckSets ctx F))"

lemma insertSecurityCheck_set:
  "SCheck ` set (insertSecurityCheck SC S) = insert (SCheck SC) (SCheck ` set S)"
proof (cases "\<exists>x \<in> set S. \<not> security_check_less x SC \<and> \<not> security_check_less SC x")
  case True
  then have "SCheck SC \<in> SCheck ` set S" by (force simp: security_check_less_def)
  with True show ?thesis by (auto simp: insertSecurityCheck_def)
next
  case False
  have "set S = set (takeWhile (\<lambda>x. security_check_less x SC) S) \<union>
      set (dropWhile (\<lambda>x. security_check_less x SC) S)"
    by (metis set_append takeWhile_dropWhile_id)
  with False show ?thesis by (auto simp: insertSecurityCheck_def)
qed

lemma insertSecurityCheck_sorted:
  assumes "sorted_wrt security_check_less S"
  shows "sorted_wrt security_check_less (insertSecurityCheck SC S)"
proof (cases "\<exists>x \<in> set S. \<not> security_check_less x SC \<and> \<not> security_check_less SC x")
  case True
  then show ?thesis using assms by (simp add: insertSecurityCheck_def)
next
  case False
  let ?t = "takeWhile (\<lambda>x. security_check_less x SC) S"
  let ?d = "dropWhile (\<lambda>x. security_check_less x SC) S"
  have S: "S = ?t @ ?d" by simp
  have sorted: "sorted_wrt security_check_less ?t \<and> sorted_wrt security_check_less ?d \<and>
      (\<forall>x \<in> set ?t. \<forall>y \<in> set ?d. security_check_less x y)"
    using assms S by (metis sorted_wrt_append)
  have low: "\<forall>x \<in> set ?t. security_check_less x SC" by (auto dest: set_takeWhileD)
  have "security_check_less SC y" if y: "y \<in> set ?d" for y
  proof -
    obtain z zs where d: "?d = z # zs" using y by (cases ?d) auto
    then have "\<not> security_check_less z SC" by (metis hd_dropWhile list.discI list.sel(1))
    moreover have "z \<in> set S" using d by (metis list.set_intros(1) set_dropWhileD)
    ultimately have z: "security_check_less SC z" using False by blast
    from y d have "y = z \<or> y \<in> set zs" by simp
    with sorted d z show ?thesis by (auto simp: security_check_less_def)
  qed
  with sorted low have "sorted_wrt security_check_less (?t @ SC # ?d)"
    unfolding sorted_wrt_append sorted_wrt.simps list.set
    by (blast intro: order_less_trans [folded security_check_less_def])
  then show ?thesis unfolding insertSecurityCheck_def if_not_P [OF False] .
qed

lemma recordCheck_ok: "recorded_ok ctx \<Longrightarrow> recorded_ok (recordCheck F SC ctx)"
  by (simp add: recorded_ok_def recordCheck_def insertSecurityCheck_set insertSecurityCheck_sorted)

text \<open>What the pass leaves alone.\<close>

definition same_graph :: "gctx \<Rightarrow> gctx \<Rightarrow> bool" where
  "same_graph ctx ctx' \<longleftrightarrow> Callees ctx' = Callees ctx \<and> CopyFuncs ctx' = CopyFuncs ctx \<and>
     ErrorHandleFuncs ctx' = ErrorHandleFuncs ctx \<and> UnifiedFuncSet ctx' = UnifiedFuncSet ctx \<and>
     Callers ctx' = Callers ctx \<and> FuncPAResults ctx' = FuncPAResults ctx \<and> Modules ctx' = Modules ctx"

lemma same_graph_simps [simp]:
  "same_graph ctx ctx"
  "same_graph ctx (recordCheck F SC ctx') = same_graph ctx ctx'"
  "same_graph ctx (ctx'\<lparr>NumSecurityChecks := n\<rparr>) = same_graph ctx ctx'"
  "same_graph ctx (ctx'\<lparr>NumCondStatements := n\<rparr>) = same_graph ctx ctx'"
  by (simp_all add: same_graph_def recordCheck_def)

lemma wf_flow_same_graph: "same_graph ctx ctx' \<Longrightarrow> wf_flow ir ctx' = wf_flow ir ctx"
  by (simp add: wf_flow_def wf_functions_def firstCallee_def same_graph_def)

lemma recordCheck_sets:
  "SecurityCheckSets (recordCheck F SC ctx) G =
     (if G = F then insertSecurityCheck SC (SecurityCheckSets ctx F) else SecurityCheckSets ctx G)"
  "NumSecurityChecks (recordCheck F SC ctx) = NumSecurityChecks ctx"
  by (simp_all add: recordCheck_def)

lemma handlingConditions_same:
  assumes "same_graph ctx ctx'"
  shows "handlingConditions ir files ctx' F = handlingConditions ir files ctx F"
proof -
  have e: "ErrorHandleFuncs ctx' = ErrorHandleFuncs ctx" using assms by (simp only: same_graph_def)
  have "handlesError ir files ctx' = handlesError ir files ctx" by (intro ext) (simp only: handlesError_def e)
  then show ?thesis by (simp only: handlingConditions_def handlingRegion_def)
qed

lemma fold_recordCheck:
  "recorded_ok ctx \<Longrightarrow> recorded_ok (fold (recordCheck F) S ctx)"
  "same_graph ctx0 (fold (recordCheck F) S ctx) = same_graph ctx0 ctx"
  "G \<noteq> F \<Longrightarrow> SecurityCheckSets (fold (recordCheck F) S ctx) G = SecurityCheckSets ctx G"
  "SCheck ` set (SecurityCheckSets (fold (recordCheck F) S ctx) F) =
     SCheck ` set (SecurityCheckSets ctx F) \<union> SCheck ` set S"
  "NumSecurityChecks (fold (recordCheck F) S ctx) = NumSecurityChecks ctx"
  by (induction S arbitrary: ctx)
     (simp_all add: recordCheck_ok recordCheck_sets insertSecurityCheck_set)

text \<open>The functions the pass looks at.\<close>

definition analysed :: "llvm \<Rightarrow> gctx \<Rightarrow> ptr \<Rightarrow> bool" where
  "analysed ir ctx F \<longleftrightarrow>
     blocks ir F \<noteq> [] \<and> length (blocks ir F) \<le> MAX_BLOCKS_SUPPORT \<and> F \<in> UnifiedFuncSet ctx"

text \<open>The conditions of a function, of which its security checks are taken.\<close>

definition conditionsOf :: "llvm \<Rightarrow> ptr \<Rightarrow> ptr set" where
  "conditionsOf ir F = {condition ir I |I. I \<in> set (instructions ir F) \<and> conditional ir I \<and> condition ir I \<noteq> NULL}"

abbreviation pass_ok :: "llvm \<Rightarrow> gctx \<Rightarrow> sc_state \<Rightarrow> bool" where
  "pass_ok ir ctx0 st \<equiv> recorded_ok (fst st) \<and> same_graph ctx0 (fst st) \<and>
     (\<forall>G. \<not> analysed ir ctx0 G \<longrightarrow> SecurityCheckSets (fst st) G = SecurityCheckSets ctx0 G) \<and>
     (\<forall>G. SCheck ` set (SecurityCheckSets (fst st) G) \<subseteq>
       SCheck ` set (SecurityCheckSets ctx0 G) \<union> conditionsOf ir G)"

lemma passFunction_returns:
  assumes wf: "analysed ir ctx0 F \<longrightarrow> wf_function ir ctx0 F" and st: "pass_ok ir ctx0 st"
  shows "returns (passFunction ir files F st) (\<lambda>st'. pass_ok ir ctx0 st' \<and>
    (\<forall>G. SCheck ` set (SecurityCheckSets (fst st) G) \<subseteq> SCheck ` set (SecurityCheckSets (fst st') G)) \<and>
    (analysed ir ctx0 F \<longrightarrow> handlingConditions ir files ctx0 F \<subseteq> SCheck ` set (SecurityCheckSets (fst st') F)) \<and>
    (\<exists>m S. (analysed ir ctx0 F \<longrightarrow>
         checks_of ir {I \<in> set (instructions ir F). reported ir m (snd st') I} S) \<and>
       (\<not> analysed ir ctx0 F \<longrightarrow> S = []) \<and>
       NumSecurityChecks (fst st') = NumSecurityChecks (fst st) + of_nat (length S) \<and>
       SCheck ` set (SecurityCheckSets (fst st') F) =
         SCheck ` set (SecurityCheckSets (fst st) F) \<union> SCheck ` set S))"
proof (cases "analysed ir ctx0 F")
  case False
  with st have "passFunction ir files F st = Inr st"
    by (auto simp: passFunction_def analysed_def same_graph_def)
  with st False show ?thesis by auto
next
  case True
  obtain ctx Sel where s: "st = (ctx, Sel)" by fastforce
  have g: "same_graph ctx0 ctx" using st s by simp
  with wf True have wfF: "wf_function ir ctx F" using wf_flow_same_graph by blast
  from identifySecurityChecks_returns [OF wfF, of files Sel]
  obtain m S ctx1 Sel1 k where i: "identifySecurityChecks ir files F st = Inr (m, S, ctx1, Sel1)"
    and c: "checks_of ir {I \<in> set (instructions ir F). reported ir m Sel1 I} S"
    and hm: "handle_marks ir {b \<in> set (blocks ir F). \<exists>I \<in> set (insts ir b). handlesError ir files ctx I} m"
    and k: "ctx1 = ctx\<lparr>NumCondStatements := NumCondStatements ctx + k\<rparr>"
    unfolding s by (elim returnsE) (auto split: prod.splits)
  let ?ctx2 = "ctx1\<lparr>NumSecurityChecks := NumSecurityChecks ctx1 + of_nat (length S)\<rparr>"
  have ok2: "recorded_ok ?ctx2" "same_graph ctx0 ?ctx2"
    using st s g k by (simp_all add: recorded_ok_def)
  let ?ctx3 = "fold (recordCheck F) S ?ctx2"
  have p: "passFunction ir files F st = Inr (?ctx3, Sel1)"
    using True g i s by (auto simp: passFunction_def analysed_def same_graph_def Let_def)
  have "SecurityCheckSets ?ctx3 G = SecurityCheckSets ctx0 G" if "\<not> analysed ir ctx0 G" for G
  proof -
    from that True have "G \<noteq> F" by blast
    then have "SecurityCheckSets ?ctx3 G = SecurityCheckSets ctx G"
      by (simp add: fold_recordCheck(3) k)
    with st s that show ?thesis by simp
  qed
  moreover have "recorded_ok ?ctx3" by (rule fold_recordCheck(1) [OF ok2(1)])
  moreover have "same_graph ctx0 ?ctx3" using ok2(2) by (simp only: fold_recordCheck(2))
  moreover have "SCheck ` set (SecurityCheckSets ?ctx3 G) \<subseteq> SCheck ` set (SecurityCheckSets ctx0 G) \<union> conditionsOf ir G" for G
  proof -
    have old: "SCheck ` set (SecurityCheckSets ctx G) \<subseteq> SCheck ` set (SecurityCheckSets ctx0 G) \<union> conditionsOf ir G"
      using st unfolding s fst_conv by blast
    show ?thesis
    proof (cases "G = F")
      case True
      have "SCheck ` set S \<subseteq> conditionsOf ir F"
        using c by (auto simp: checks_of_def reported_def conditionsOf_def)
      then show ?thesis using old by (simp add: fold_recordCheck(4) k True) blast
    next
      case False
      then have "SecurityCheckSets ?ctx3 G = SecurityCheckSets ctx G" by (simp add: fold_recordCheck(3) k)
      with old show ?thesis by simp
    qed
  qed
  ultimately have pk: "pass_ok ir ctx0 (?ctx3, Sel1)" unfolding fst_conv by (intro conjI allI impI)
  have num: "NumSecurityChecks ?ctx3 = NumSecurityChecks ctx + of_nat (length S)"
    by (simp add: fold_recordCheck(5) k)
  have un: "SCheck ` set (SecurityCheckSets ?ctx3 F) =
      SCheck ` set (SecurityCheckSets ctx F) \<union> SCheck ` set S"
    by (simp add: fold_recordCheck(4) k)
  have "SCheck ` set (SecurityCheckSets ctx G) \<subseteq> SCheck ` set (SecurityCheckSets ?ctx3 G)" for G
    using un by (cases "G = F") (simp_all add: fold_recordCheck(3) k)
  then have mono: "\<forall>G. SCheck ` set (SecurityCheckSets ctx G) \<subseteq> SCheck ` set (SecurityCheckSets ?ctx3 G)" ..
  have "handlingConditions ir files ctx F \<subseteq> SCheck ` set S"
    by (rule handlingConditions_checked [OF _ c hm]) (use wfF in simp)
  then have hc: "handlingConditions ir files ctx0 F \<subseteq> SCheck ` set (SecurityCheckSets ?ctx3 F)"
    unfolding un handlingConditions_same [OF g] by (rule le_supI2)
  show ?thesis
    unfolding s p [unfolded s] returns_Inr fst_conv snd_conv
    by (rule conjI [OF pk [unfolded fst_conv] conjI [OF mono conjI [OF impI [OF hc]]]],
        rule exI [of _ m], rule exI [of _ S]) (use True c num un in simp)
qed

lemma doModulePass_returns:
  assumes wf: "\<And>F. F \<in> set (moduleFunctions ir M) \<Longrightarrow> analysed ir ctx F \<Longrightarrow> wf_function ir ctx F"
    and ok: "recorded_ok ctx"
  shows "returns (SecurityChecks_doModulePass ir files M (ctx, Sel))
    (\<lambda>(changed, st). \<not> changed \<and> pass_ok ir ctx st)"
proof -
  have "returns (foldM (passFunction ir files) (moduleFunctions ir M) (ctx, Sel)) (pass_ok ir ctx)"
  proof (rule returns_foldM)
    fix F st assume F: "F \<in> set (moduleFunctions ir M)" and st: "pass_ok ir ctx st"
    show "returns (passFunction ir files F st) (pass_ok ir ctx)"
      using passFunction_returns [OF _ st, of F files] wf [OF F] by (auto elim!: returns_mono)
  qed (use ok in simp)
  then show ?thesis
    unfolding SecurityChecks_doModulePass_def by (rule returns_rbind) simp
qed

end
