(* ===== verification/Samples.thy ===== *)
theory Samples
  imports LLVM_IR
begin

text \<open>
  A small concrete program, on which the properties of the development are instantiated:

  \<^verbatim>\<open>
  fn(100):                        objects
   10: x30 = call foo()          40 = @foo, 41 = @panic, 50 = i64 -22, 51 = i64 0
       c31 = icmp x30, 0
       t20 = br c31, 11, 12
   11: p32 = call panic()
       t21 = br 13
   12: t22 = br 13
   13: v33 = phi [50, 11], [51, 12]
       t23 = ret v33
  \<close>
\<close>

definition look :: "'b \<Rightarrow> (nat \<times> 'b) list \<Rightarrow> nat \<Rightarrow> 'b" where
  "look d xs v = (case map_of xs v of None \<Rightarrow> d | Some x \<Rightarrow> x)"

definition sample_classes :: "llvm_class \<Rightarrow> nat list" where
  "sample_classes k = (case k of
     Instruction \<Rightarrow> [20, 21, 22, 23, 30, 31, 32, 33]
   | CallInst \<Rightarrow> [30, 32] | ICmpInst \<Rightarrow> [31] | CmpInst \<Rightarrow> [31]
   | BranchInst \<Rightarrow> [20, 21, 22] | ReturnInst \<Rightarrow> [23] | PHINode \<Rightarrow> [33]
   | Constant \<Rightarrow> [40, 41, 50, 51] | ConstantInt \<Rightarrow> [50, 51] | FunctionValue \<Rightarrow> [40, 41]
   | _ \<Rightarrow> [])"

definition sample :: llvm where
  "sample = empty_ir
     \<lparr> isa := (\<lambda>k v. v \<in> set (sample_classes k)),
       users := look [] [(30, [31]), (31, [20]), (33, [23]), (40, [30]), (41, [32]), (50, [33]), (51, [33])],
       operands := look [] [(20, [31]), (23, [33]), (30, [40]), (31, [30]), (32, [41]), (33, [50, 51])],
       nameOf := look [] [(40, ''foo''), (41, ''panic'')],
       getParent := look NULL [(30, 10), (31, 10), (20, 10), (32, 11), (21, 11), (22, 12), (33, 13), (23, 13)],
       condition := look NULL [(20, 31)],
       incoming := look [] [(33, [(50, 11), (51, 12)])],
       calledValue := look NULL [(30, 40), (32, 41)],
       calledFunction := look NULL [(30, 40), (32, 41)],
       predicate := look P_ICMP_NE [],
       returnValue := look NULL [(23, 33)],
       succs := look [] [(20, [11, 12]), (21, [13]), (22, [13])],
       sextValue := look 0 [(50, -22)],
       insts := look [] [(10, [30, 31, 20]), (11, [32, 21]), (12, [22]), (13, [33, 23])],
       terminator := look NULL [(10, 20), (11, 21), (12, 22), (13, 23)],
       predecessors := look [] [(11, [10]), (12, [10]), (13, [11, 12])],
       blockParent := look NULL [(10, 100), (11, 100), (12, 100), (13, 100)],
       blocks := look [] [(100, [10, 11, 12, 13])],
       isDeclaration := (\<lambda>F. F \<noteq> 100),
       moduleFunctions := look [] [(200, [100, 40, 41])],
       heap := [100, 10, 11, 12, 13, 20, 21, 22, 23, 30, 31, 32, 33, 40, 41, 50, 51] \<rparr>"

lemma sample_fields:
  "isa sample k v = (v \<in> set (sample_classes k))"
  "users sample = look [] [(30, [31]), (31, [20]), (33, [23]), (40, [30]), (41, [32]), (50, [33]), (51, [33])]"
  "operands sample = look [] [(20, [31]), (23, [33]), (30, [40]), (31, [30]), (32, [41]), (33, [50, 51])]"
  "typeOf sample = (\<lambda>_. NULL)"
  "nameOf sample = look [] [(40, ''foo''), (41, ''panic'')]"
  "hasName sample = (\<lambda>_. False)"
  "getParent sample = look NULL [(30, 10), (31, 10), (20, 10), (32, 11), (21, 11), (22, 12), (33, 13), (23, 13)]"
  "pointerOperand sample = (\<lambda>_. NULL)"
  "valueOperand sample = (\<lambda>_. NULL)"
  "condition sample = look NULL [(20, 31)]"
  "trueValue sample = (\<lambda>_. NULL)"
  "falseValue sample = (\<lambda>_. NULL)"
  "incoming sample = look [] [(33, [(50, 11), (51, 12)])]"
  "argOperands sample = (\<lambda>_. [])"
  "calledValue sample = look NULL [(30, 40), (32, 41)]"
  "calledFunction sample = look NULL [(30, 40), (32, 41)]"
  "isIndirectCall sample = (\<lambda>_. False)"
  "intrinsicID sample = (\<lambda>_. 0)"
  "predicate sample = look P_ICMP_NE []"
  "returnValue sample = look NULL [(23, 33)]"
  "succs sample = look [] [(20, [11, 12]), (21, [13]), (22, [13])]"
  "sextValue sample = look 0 [(50, -22)]"
  "asmString sample = (\<lambda>_. [])"
  "dbgMetadata sample = (\<lambda>_. NULL)"
  "diFilename sample = (\<lambda>_. [])"
  "diLine sample = (\<lambda>_. 0)"
  "subprogram sample = (\<lambda>_. NULL)"
  "insts sample = look [] [(10, [30, 31, 20]), (11, [32, 21]), (12, [22]), (13, [33, 23])]"
  "terminator sample = look NULL [(10, 20), (11, 21), (12, 22), (13, 23)]"
  "predecessors sample = look [] [(11, [10]), (12, [10]), (13, [11, 12])]"
  "blockParent sample = look NULL [(10, 100), (11, 100), (12, 100), (13, 100)]"
  "blocks sample = look [] [(100, [10, 11, 12, 13])]"
  "args sample = (\<lambda>_. [])"
  "argParent sample = (\<lambda>_. NULL)"
  "functionType sample = (\<lambda>_. NULL)"
  "returnType sample = (\<lambda>_. NULL)"
  "isVarArg sample = (\<lambda>_. False)"
  "isIntrinsic sample = (\<lambda>_. False)"
  "isDeclaration sample = (\<lambda>F. F \<noteq> 100)"
  "hasAddressTaken sample = (\<lambda>_. False)"
  "hasExternalLinkage sample = (\<lambda>_. False)"
  "moduleFunctions sample = look [] [(200, [100, 40, 41])]"
  "moduleGlobals sample = (\<lambda>_. [])"
  "hasInitializer sample = (\<lambda>_. False)"
  "initializer sample = (\<lambda>_. NULL)"
  "valueType sample = (\<lambda>_. NULL)"
  "isPointerTy sample = (\<lambda>_. False)"
  "isStructTy sample = (\<lambda>_. False)"
  "isArrayTy sample = (\<lambda>_. False)"
  "isVectorTy sample = (\<lambda>_. False)"
  "isIntegerTy sample = (\<lambda>_. False)"
  "elementType sample = (\<lambda>_. NULL)"
  "integerBitWidth sample = (\<lambda>_. 0)"
  "scalarSizeInBits sample = (\<lambda>_. 0)"
  "structHasName sample = (\<lambda>_. False)"
  "structName sample = (\<lambda>_. [])"
  "numElements sample = (\<lambda>_. 0)"
  "isOpaque sample = (\<lambda>_. False)"
  "structSizeInBits sample = (\<lambda>_. 0)"
  "typePrint sample = (\<lambda>_. [])"
  "int8PtrTy sample = NULL"
  "intPtrTy sample = NULL"
  "allConstantIndices sample = (\<lambda>_. False)"
  "lastIndex sample = (\<lambda>_. 0)"
  "aliasQuery sample = (\<lambda>_ _. NoAlias)"
  "strHash sample = (\<lambda>_. 0)"
  "smallSetOrder sample = (\<lambda>S. sorted_list_of_set S)"
  "heap sample = [100, 10, 11, 12, 13, 20, 21, 22, 23, 30, 31, 32, 33, 40, 41, 50, 51]"
  by (simp_all add: sample_def empty_ir_def)

lemmas sample_simps = sample_fields look_def successors_def instructions_def

lemma sample_wf_cfg: "wf_cfg sample 100"
  by (simp add: wf_cfg_def sample_simps) auto

lemma sample_wf_heap: "wf_heap sample"
  by (simp add: wf_heap_def sample_simps sample_classes_def) auto

lemma sample_wf_classes: "wf_classes sample"
  by (auto simp: wf_classes_def sample_simps sample_classes_def)

end
