(* ===== verification/SecurityProperties.thy ===== *)
theory SecurityProperties
  imports CheckTheorems Samples
begin

text \<open>
  The properties of \<open>SecurityChecksPass\<close> and of its parts, each with an instance on the
  sample program.
\<close>

section \<open>The sample as a program\<close>

definition sample_ctx :: gctx where
  "sample_ctx = newGlobalContext
     \<lparr> Callees := (\<lambda>I. if I = 30 then {40} else if I = 32 then {41} else {}),
       ErrorHandleFuncs := {''panic''}, CopyFuncs := SetCopyFuncs Map.empty,
       UnifiedFuncSet := {100} \<rparr>"

lemma sample_ctx_fields:
  "Callees sample_ctx I = (if I = 30 then {40} else if I = 32 then {41} else {})"
  "ErrorHandleFuncs sample_ctx = {''panic''}" "CopyFuncs sample_ctx = SetCopyFuncs Map.empty"
  "UnifiedFuncSet sample_ctx = {100}" "NumCondStatements sample_ctx = 0"
  "NumSecurityChecks sample_ctx = 0" "SecurityCheckSets sample_ctx F = []"
  "CheckInstSets sample_ctx F = {}"
  by (simp_all add: sample_ctx_def newGlobalContext_def)

lemmas sample_eval = sample_simps sample_classes_def sample_ctx_fields

lemma sample_firstCallee:
  "firstCallee sample sample_ctx I = (if I = 30 then 40 else if I = 32 then 41 else NULL)"
  by (simp add: firstCallee_def sample_eval)

lemma sample_wf_constants: "wf_constants sample"
  by (simp add: wf_constants_def exprOperands_def sample_eval acyclic_def)

lemma sample_wf_functions: "wf_functions sample sample_ctx"
  unfolding wf_functions_def sample_firstCallee by (simp add: sample_eval) auto

lemma SetCopyFuncs_destination:
  "SetCopyFuncs Map.empty f = Some (s, d, z) \<Longrightarrow> d = 0"
  by (auto simp: SetCopyFuncs_def copy_func_names_def split: if_splits)

lemma sample_wf_flow: "wf_flow sample sample_ctx"
proof -
  have "\<forall>f s d z. CopyFuncs sample_ctx f = Some (s, d, z) \<longrightarrow> d \<noteq> -1"
    using SetCopyFuncs_destination by (fastforce simp: sample_ctx_fields)
  moreover have "\<forall>b. NULL \<notin> set (successors sample b)"
    by (auto simp: sample_simps split: option.splits if_splits)
  ultimately show ?thesis
    unfolding wf_flow_def
    using sample_wf_heap sample_wf_constants sample_wf_functions sample_wf_classes
    by (simp add: sample_eval)
qed

lemma sample_wf_calls: "wf_calls sample 100"
  by (simp add: wf_calls_def sample_eval)

lemma sample_wf_function: "wf_function sample sample_ctx 100"
  using sample_wf_flow sample_wf_cfg sample_wf_calls by (simp add: sample_eval)

lemma sample_handles: "handlesError sample files sample_ctx I \<longleftrightarrow> I = 32"
  by (simp add: handlesError_def getCalledFuncName_def sample_eval Let_def endswith_def)

lemma sample_region: "handlingRegion sample files sample_ctx 100 = {11}"
proof -
  have "{b \<in> set (blocks sample 100). \<exists>I \<in> set (insts sample b). handlesError sample files sample_ctx I} = {11}"
    unfolding sample_handles by (simp add: sample_simps) auto
  moreover have "{11} = reach_set (straight_preds sample) {11}"
  proof (rule reach_set_eqI)
    show "{11} \<subseteq> reach_set (straight_preds sample) {11}" by (simp add: reach_set_base)
    show "straight_preds sample b \<subseteq> {11}" if "b \<in> {11}" for b
      using that by (simp add: straight_preds_def sample_simps)
  qed simp
  ultimately show ?thesis by (simp only: handlingRegion_def)
qed

section \<open>Security checks\<close>

text \<open>
  C1: No branch on an error-handling path is missed. If one successor of a conditional branch
  or switch leads to an error-handling call without another branch and another successor does
  not, then \<open>identifySecurityChecks\<close> returns and its set contains the branch condition,
  recorded with a statement that tests it.
\<close>

theorem error_handling_branch_is_found:
  assumes "wf_function ir ctx F" "b \<in> set (blocks ir F)"
    and "terminator ir b \<in> set (instructions ir F)"
    and "isa ir BranchInst (terminator ir b) \<or> isa ir SwitchInst (terminator ir b)"
    and "condition ir (terminator ir b) \<noteq> NULL"
    and "c \<in> set (successors ir b)" "d \<in> set (successors ir b)"
    and "c \<in> handlingRegion ir files ctx F" "d \<notin> handlingRegion ir files ctx F"
  shows "returns (identifySecurityChecks ir files F (ctx, Sel)) (\<lambda>(edgeErrMap, SCSet, st).
    \<exists>SC \<in> set SCSet. SCheck SC = condition ir (terminator ir b) \<and>
      condition ir (SCBranch SC) = SCheck SC)"
proof -
  obtain m S ctx' Sel' where r: "identifySecurityChecks ir files F (ctx, Sel) = Inr (m, S, ctx', Sel')"
    and m: "handle_marks ir {b \<in> set (blocks ir F). \<exists>I \<in> set (insts ir b). handlesError ir files ctx I} m"
    and S: "checks_of ir {I \<in> set (instructions ir F). reported ir m Sel' I} S"
    by (rule identifySecurityChecks_result [OF assms(1)])
  have "wf_cfg ir F" using assms(1) by blast
  then have "reported ir m Sel' (terminator ir b)"
    by (rule handling_branch_reported [OF _ assms(2) refl assms(4-7) _ _ m])
       (use assms(8,9) in \<open>simp_all add: handlingRegion_def\<close>)
  with assms(3) S have "condition ir (terminator ir b) \<in> SCheck ` set S"
    by (auto simp: checks_of_def)
  then obtain SC where "SC \<in> set S" "SCheck SC = condition ir (terminator ir b)" by force
  then show ?thesis using S by (auto simp: r checks_of_def)
qed

lemma error_handling_branch_is_found_witness:
  "returns (identifySecurityChecks sample (\<lambda>_. []) 100 (sample_ctx, {}))
     (\<lambda>(edgeErrMap, SCSet, st). \<exists>SC \<in> set SCSet. SCheck SC = 31)"
proof -
  have e: "terminator sample 10 = 20" "condition sample 20 = 31" by (simp_all add: sample_eval)
  have "returns (identifySecurityChecks sample (\<lambda>_. []) 100 (sample_ctx, {}))
     (\<lambda>(edgeErrMap, SCSet, st). \<exists>SC \<in> set SCSet. SCheck SC = condition sample (terminator sample 10) \<and>
        condition sample (SCBranch SC) = SCheck SC)"
    by (rule error_handling_branch_is_found [OF sample_wf_function, of 10 11 12])
       (simp_all add: sample_region, simp_all add: sample_eval)
  then show ?thesis by (auto simp: e elim!: returns_mono)
qed

text \<open>
  C3: The exact result of \<open>identifySecurityChecks\<close>. It returns for every well-formed function;
  the handling bit of an edge is set exactly for the edges into the handling region; the set
  holds one check per reported condition and nothing else, a branch or switch being reported
  when its outgoing edges disagree in the Must-return or the Must-handle bit, a select when it
  has one error arm; and the static set only grows by the error selects of the function.
\<close>

theorem identifySecurityChecks_exact:
  assumes "wf_function ir ctx F"
  shows "\<exists>m S ctx' Sel'.
    identifySecurityChecks ir files F (ctx, Sel) = Inr (m, S, ctx', Sel') \<and>
    (\<forall>e. bit (map_at m e) 4 \<longleftrightarrow> e \<in> edges_into ir (handlingRegion ir files ctx F)) \<and>
    SCheck ` set S = {condition ir I | I. I \<in> set (instructions ir F) \<and> condition ir I \<noteq> NULL \<and>
      conditional ir I \<and>
      (if isa ir BranchInst I \<or> isa ir SwitchInst I
       then mixedBit ir m I 0 \<or> mixedBit ir m I 4 else I \<in> Sel')} \<and>
    distinct (map SCheck S) \<and>
    Sel' = Sel \<union> functionSelects ir F \<and>
    (S \<noteq> [] \<longrightarrow> NumCondStatements ctx' =
       NumCondStatements ctx + of_nat (length (filter (conditional ir) (instructions ir F))))"
proof -
  obtain m S ctx' Sel' where r: "identifySecurityChecks ir files F (ctx, Sel) = Inr (m, S, ctx', Sel')"
    and Sel': "Sel' = Sel \<union> functionSelects ir F"
    and m: "handle_marks ir {b \<in> set (blocks ir F). \<exists>I \<in> set (insts ir b). handlesError ir files ctx I} m"
    and S: "checks_of ir {I \<in> set (instructions ir F). reported ir m Sel' I} S"
    and n: "S \<noteq> [] \<longrightarrow> NumCondStatements ctx' =
      NumCondStatements ctx + of_nat (length (filter (conditional ir) (instructions ir F)))"
    by (rule identifySecurityChecks_result [OF assms])
  have "\<forall>e. bit (map_at m e) 4 \<longleftrightarrow> e \<in> edges_into ir (handlingRegion ir files ctx F)"
    using m by (simp add: handle_marks_def handlingRegion_def)
  moreover have "SCheck ` set S = {condition ir I | I. I \<in> set (instructions ir F) \<and>
      condition ir I \<noteq> NULL \<and> conditional ir I \<and>
      (if isa ir BranchInst I \<or> isa ir SwitchInst I
       then mixedBit ir m I 0 \<or> mixedBit ir m I 4 else I \<in> Sel')}"
    using S by (auto simp: checks_of_def reported_def)
  moreover have "distinct (map SCheck S)" using S by (simp add: checks_of_def)
  ultimately show ?thesis using r Sel' n by blast
qed

lemma identifySecurityChecks_exact_witness:
  "\<exists>m S ctx' Sel'. identifySecurityChecks sample (\<lambda>_. []) 100 (sample_ctx, {}) = Inr (m, S, ctx', Sel') \<and>
     bit (map_at m (20, 11)) 4 \<and> \<not> bit (map_at m (20, 12)) 4 \<and> distinct (map SCheck S)"
proof -
  have e: "(20, 11) \<in> edges_into sample {11}" "(20, 12) \<notin> edges_into sample {11}"
    by (auto simp: edges_into_def sample_eval)
  obtain m S ctx' Sel' where
    "identifySecurityChecks sample (\<lambda>_. []) 100 (sample_ctx, {}) = Inr (m, S, ctx', Sel')"
    "\<forall>e. bit (map_at m e) 4 \<longleftrightarrow> e \<in> edges_into sample {11}" "distinct (map SCheck S)"
    using identifySecurityChecks_exact [OF sample_wf_function, of "\<lambda>_. []" "{}", unfolded sample_region]
    by (elim exE conjE) (rule that)
  with e show ?thesis by (intro exI [of _ m] exI [of _ S] exI [of _ ctx'] exI [of _ Sel']) simp
qed

section \<open>Error codes and error-returning values\<close>

lemma sample_errnoValue: "errnoValue sample F V \<longleftrightarrow> V = 50"
proof -
  have "errnoValue sample F V \<longleftrightarrow> errnoLeaf sample F V"
    by (subst errnoValue_unfold) (simp add: exprOperands_def sample_eval)
  also have "\<dots> \<longleftrightarrow> V = 50"
    by (auto simp: errnoLeaf_def sample_eval isErrnoInt_def is_errno_def ERRNO_MASK_def ERRNO_PREFIX_def)
  finally show ?thesis .
qed

lemma sample_flowNext: "flowNext sample V = {}"
  by (auto simp: flowNext_def nonConst_def isConstant_def sample_eval)

lemma sample_flowValues: "flowValues sample (set (instructions sample 100)) = {33}"
proof -
  have "returnedValues sample (set (instructions sample 100)) = {33}"
    by (auto simp: returnedValues_def sample_eval)
  moreover have "{33} = reach_set (flowNext sample) {33}"
    by (rule reach_set_eqI) (simp_all add: reach_set_base sample_flowNext)
  ultimately show ?thesis by (simp only: flowValues_def)
qed

lemma sample_flowMarks:
  "flowMarks sample ctx F 33 = {(11, Must_Return_Err), (12, May_Return_Err)}"
proof -
  have "constMark sample F 50 11 = (11, Must_Return_Err)"
    "constMark sample F 51 12 = (12, May_Return_Err)"
    by (simp_all add: constMark_def sample_errnoValue)
  then show ?thesis
    by (simp add: flowMarks_def isConstant_def sample_simps sample_classes_def insert_commute)
qed

text \<open>
  C4: The exact result of \<open>checkErrReturn\<close>. The search returns; a block is in the map exactly
  when a value that flows into some return marks it, with the union of those marks as its
  flag; and the error selects among these values join the static set. In particular the
  result does not depend on the order of the returns, users or incoming values.
\<close>

theorem checkErrReturn_exact:
  assumes "wf_flow ir ctx" "F \<in> set (heap ir)"
  defines "R \<equiv> flowValues ir (set (instructions ir F))"
  shows "\<exists>m. checkErrReturn ir ctx F (Map.empty, Sel) = Inr (m, Sel \<union> {V \<in> R. errSelect ir F V}) \<and>
    dom m = (\<Union>V \<in> R. fst ` flowMarks ir ctx F V) \<and>
    (\<forall>b n. bit (map_at m b) n \<longleftrightarrow> (\<exists>V \<in> R. \<exists>f. (b, f) \<in> flowMarks ir ctx F V \<and> bit f n))"
proof -
  obtain m Sel' where r: "checkErrReturn ir ctx F (Map.empty, Sel) = Inr (m, Sel')"
    and *: "marked_by (\<Union>V \<in> R. flowMarks ir ctx F V) Map.empty m \<and> Sel' = Sel \<union> {V \<in> R. errSelect ir F V}"
    using checkErrReturn_returns [OF assms(1,2), of Map.empty Sel, folded R_def]
    by (rule returnsE2)
  then have "dom m = (\<Union>V \<in> R. fst ` flowMarks ir ctx F V)"
    by (simp add: marked_by_def image_UN)
  moreover from * have "\<forall>b n. bit (map_at m b) n \<longleftrightarrow> (\<exists>V \<in> R. \<exists>f. (b, f) \<in> flowMarks ir ctx F V \<and> bit f n)"
    by (simp add: marked_by_def) blast
  ultimately show ?thesis using r * by blast
qed

lemma checkErrReturn_exact_witness:
  "\<exists>m Sel. checkErrReturn sample sample_ctx 100 (Map.empty, {}) = Inr (m, Sel) \<and>
     dom m = {11, 12} \<and> bit (map_at m 11) 0 \<and> \<not> bit (map_at m 12) 0 \<and> bit (map_at m 12) 1"
proof -
  have "100 \<in> set (heap sample)" by (simp add: sample_eval)
  from checkErrReturn_exact [OF sample_wf_flow this, of "{}", unfolded sample_flowValues]
  obtain m Sel where "checkErrReturn sample sample_ctx 100 (Map.empty, {}) = Inr (m, Sel)"
    "dom m = {11, 12}"
    "\<forall>b n. bit (map_at m b) n \<longleftrightarrow> (\<exists>f. (b, f) \<in> flowMarks sample sample_ctx 100 33 \<and> bit f n)"
    by (auto simp: sample_flowMarks)
  then show ?thesis
    by (intro exI [of _ m] exI [of _ Sel]) (simp add: sample_flowMarks)
qed

text \<open>
  C16: \<open>mayReturnErr\<close> is a reachability test. It returns for every function of the program, and
  answers yes exactly when some function reachable through first callees contains an error
  indication: a store of an error code, a call of pointer type, or a call of \<open>ERR_PTR\<close> or
  \<open>PTR_ERR\<close>. Stopping at the first indication does not change the answer.
\<close>

theorem mayReturnErr_reaches_indication:
  assumes "wf_heap ir" "wf_constants ir" "wf_functions ir ctx" "F \<in> set (heap ir)"
  shows "mayReturnErr ir ctx F = Inr (\<exists>G \<in> reach_set (calledFrom ir ctx) {F}.
    \<exists>I \<in> set (instructions ir G). errIndicator ir G I)"
  using mayReturnErr_returns [of ir ctx F] assms by (simp add: mayErr_def indicates_def)

lemma mayReturnErr_reaches_indication_witness:
  "mayReturnErr sample sample_ctx 100 = Inr False"
proof -
  have i: "instructions sample G = [30, 31, 20, 32, 21, 22, 33, 23] \<or> instructions sample G = []" for G
    by (simp add: sample_simps)
  have "calledFrom sample sample_ctx G \<subseteq> {40, 41}" for G
    using i [of G] by (auto simp: calledFrom_def scanTargets_def calleeOf_def sample_firstCallee sample_eval
        split: if_splits)
  moreover have "\<not> errIndicator sample G I" if "I \<in> set (instructions sample G)" for G I
    using i [of G] that
    by (auto simp: errIndicator_def getCalledFuncName_def sample_eval)
  moreover have "100 \<in> set (heap sample)" by (simp add: sample_eval)
  ultimately show ?thesis
    using mayReturnErr_reaches_indication [OF sample_wf_heap sample_wf_constants sample_wf_functions]
    by auto
qed

text \<open>
  C37: \<open>isValueErrno\<close> terminates on every constant, however deep its expression is nested, and
  answers whether an error leaf (an error integer, or a null pointer in a function that
  returns a pointer) can be reached through operands of constant expressions.
\<close>

theorem isValueErrno_finds_leaf:
  assumes "wf_heap ir" "wf_constants ir" "V \<in> set (heap ir)"
  shows "isValueErrno ir V F =
    Inr (\<exists>W \<in> reach_set (exprOperands ir) {V}. errnoLeaf ir F W)"
  using isValueErrno_returns [OF assms] by (simp add: errnoValue_def)

lemma isValueErrno_finds_leaf_witness:
  "isValueErrno sample 50 100 = Inr True \<and> isValueErrno sample 51 100 = Inr False"
proof -
  have "50 \<in> set (heap sample)" "51 \<in> set (heap sample)" by (simp_all add: sample_eval)
  then show ?thesis
    using isValueErrno_finds_leaf [OF sample_wf_heap sample_wf_constants, of _ 100]
    by (simp add: errnoValue_def [symmetric] sample_errnoValue)
qed

text \<open>
  The error integers: exactly the values from -4095 to -1 and those that carry, directly or
  negated, the 20-bit error prefix in bits 12 to 31. The upper half of a 64-bit value does
  not take part in the prefix test.
\<close>

lemma isErrnoInt_range:
  "isErrnoInt v \<longleftrightarrow> sint v \<in> {-4095..-1} \<or> unat v mod 2 ^ 32 div 2 ^ 12 = 0x4cedb \<or>
     unat (- v) mod 2 ^ 32 div 2 ^ 12 = 0x4cedb"
  unfolding isErrnoInt_def is_errno_bits by auto

text \<open>
  C40: \<open>findSameVariablesFrom\<close> adds to the set exactly the value and the loads reachable from it
  by following a store of the value to a location and a load of that location.
\<close>

theorem findSameVariablesFrom_exact:
  assumes "wf_heap ir" "V \<in> set (heap ir)"
  shows "findSameVariablesFrom ir V VSet = Inr (VSet \<union> reach_set (storedLoads ir) {V})"
  by (rule findSameVariablesFrom_returns [OF assms])

lemma findSameVariablesFrom_exact_witness: "findSameVariablesFrom sample 30 {} = Inr {30}"
proof -
  have "{30} = reach_set (storedLoads sample) {30}"
    by (rule reach_set_eqI) (simp_all add: reach_set_base storedLoads_def sample_eval)
  moreover have "30 \<in> set (heap sample)" by (simp add: sample_eval)
  ultimately show ?thesis
    using findSameVariablesFrom_exact [OF sample_wf_heap, of 30 "{}"] by simp
qed

text \<open>
  C36: \<open>checkErrHandle\<close> sets the Must-handle bit of exactly the blocks that call an
  error-handling function, and changes no other bit and no other block.
\<close>

theorem checkErrHandle_exact:
  assumes "wf_calls ir F"
  shows "\<exists>m'. checkErrHandle ir files ctx F m = Inr m' \<and>
    dom m' = dom m \<union> {b \<in> set (blocks ir F). \<exists>I \<in> set (insts ir b). handlesError ir files ctx I} \<and>
    (\<forall>b n. bit (map_at m' b) n \<longleftrightarrow> bit (map_at m b) n \<or>
       n = 4 \<and> b \<in> set (blocks ir F) \<and> (\<exists>I \<in> set (insts ir b). handlesError ir files ctx I))"
proof -
  obtain m' where r: "checkErrHandle ir files ctx F m = Inr m'"
    and *: "marked_by (\<Union>b \<in> set (blocks ir F). handleMarks ir files ctx b) m m'"
    using checkErrHandle_returns [OF assms] by (rule returnsE)
  have d: "fst ` (\<Union>b \<in> set (blocks ir F). handleMarks ir files ctx b) =
      {b \<in> set (blocks ir F). \<exists>I \<in> set (insts ir b). handlesError ir files ctx I}"
    by (force simp: handleMarks_def split: if_splits)
  have e: "(\<exists>f. (b, f) \<in> (\<Union>b \<in> set (blocks ir F). handleMarks ir files ctx b) \<and> bit f n) \<longleftrightarrow>
      n = 4 \<and> b \<in> set (blocks ir F) \<and> (\<exists>I \<in> set (insts ir b). handlesError ir files ctx I)" for b n
    by (auto simp: handleMarks_def split: if_splits)
  have "dom m' = dom m \<union> {b \<in> set (blocks ir F). \<exists>I \<in> set (insts ir b). handlesError ir files ctx I}"
    using * unfolding marked_by_def d by (rule conjunct1)
  moreover have "\<forall>b n. bit (map_at m' b) n \<longleftrightarrow> bit (map_at m b) n \<or>
       n = 4 \<and> b \<in> set (blocks ir F) \<and> (\<exists>I \<in> set (insts ir b). handlesError ir files ctx I)"
    using * unfolding marked_by_def e by (rule conjunct2)
  ultimately show ?thesis using r by (intro exI conjI)
qed

lemma checkErrHandle_exact_witness:
  "\<exists>m. checkErrHandle sample (\<lambda>_. []) sample_ctx 100 Map.empty = Inr m \<and> dom m = {11}"
proof -
  have "{b \<in> set (blocks sample 100). \<exists>I \<in> set (insts sample b).
      handlesError sample (\<lambda>_. []) sample_ctx I} = {11}"
    unfolding sample_handles by (simp add: sample_simps) auto
  note region = this
  obtain m where r: "checkErrHandle sample (\<lambda>_. []) sample_ctx 100 Map.empty = Inr m"
    and "dom m = dom (Map.empty :: bb_err_map) \<union> {b \<in> set (blocks sample 100). \<exists>I \<in> set (insts sample b).
      handlesError sample (\<lambda>_. []) sample_ctx I}"
    using checkErrHandle_exact [OF sample_wf_calls, of "\<lambda>_. []" sample_ctx Map.empty]
    by (elim exE conjE) (rule that)
  then have "dom m = {11}" unfolding region dom_empty Un_empty_left by blast
  with r show ?thesis by blast
qed

section \<open>Edges\<close>

text \<open>
  C5: The whole edge marking, in its error-handling half. \<open>markAllEdgesErrFlag\<close> returns on every
  well-formed function, reports whether there was anything to mark, and sets the Must-handle
  bit of exactly the edges into the blocks from which a block with an error-handling call is
  reached without a branch. No propagation of the error-returning half disturbs this.
\<close>

theorem markAllEdges_handling_exact:
  assumes "wf_cfg ir F"
  shows "\<exists>m. markAllEdgesErrFlag ir F E Map.empty = Inr (E \<noteq> Map.empty, m) \<and>
    (\<forall>e. bit (map_at m e) 4 \<longleftrightarrow> e \<in> edges_into ir
       (reach_set (straight_preds ir) {b \<in> set (blocks ir F). bit (map_at E b) 4}))"
proof -
  obtain r m where "markAllEdgesErrFlag ir F E Map.empty = Inr (r, m)"
    and "r = (E \<noteq> Map.empty) \<and> handle_marks ir (handleBlocks ir F E) m"
    using markAllEdges_handle [OF assms, of E] by (rule returnsE2)
  then show ?thesis by (simp add: handle_marks_def handleBlocks_def)
qed

lemma straight_11: "reach_set (straight_preds sample) {11} = {11}"
proof (rule sym, rule reach_set_eqI)
  show "{11} \<subseteq> reach_set (straight_preds sample) {11}" by (simp add: reach_set_base)
  show "straight_preds sample b \<subseteq> {11}" if "b \<in> {11}" for b
    using that by (simp add: straight_preds_def sample_simps)
qed simp

lemma edges_into_11: "edges_into sample {11} = {(20, 11)}"
  by (auto simp: edges_into_def sample_simps)

lemma markAllEdges_handling_exact_witness:
  "\<exists>m. markAllEdgesErrFlag sample 100 [11 \<mapsto> Must_Handle_Err] Map.empty = Inr (True, m) \<and>
     bit (map_at m (20, 11)) 4 \<and> \<not> bit (map_at m (20, 12)) 4"
proof -
  have "{b \<in> set (blocks sample 100). bit (map_at [11 \<mapsto> Must_Handle_Err] b) 4} = {11}"
    by (simp add: sample_simps map_at_def)
  with markAllEdges_handling_exact [OF sample_wf_cfg, of "[11 \<mapsto> Must_Handle_Err]"]
  obtain m where "markAllEdgesErrFlag sample 100 [11 \<mapsto> Must_Handle_Err] Map.empty = Inr (True, m)"
    "\<forall>e. bit (map_at m e) 4 \<longleftrightarrow> e \<in> {(20, 11)}"
    by (auto simp: straight_11 edges_into_11)
  then show ?thesis by (intro exI [of _ m]) simp
qed

text \<open>
  C17: \<open>recurMarkEdgesToErrHandle\<close> terminates on every control-flow graph, loops included, and
  raises to Must-handle exactly the edges into the blocks it reaches backwards: a predecessor
  is followed when its edge was not marked before and it has at most one successor. Every
  other edge keeps its flag, and only those edges get a map entry.
\<close>

theorem recurMarkEdgesToErrHandle_exact:
  assumes "wf_cfg ir F" "BB \<in> set (blocks ir F)"
  shows "\<exists>m'. recurMarkEdgesToErrHandle ir BB m = Inr m' \<and>
    (\<forall>e. map_at m' e =
      (if e \<in> edges_into ir (reach_set (\<lambda>b. {p \<in> set (predecessors ir b).
            \<not> bit (map_at m (terminator ir p, b)) 4 \<and> length (successors ir p) \<le> 1}) {BB})
       then updateHandleFlag (map_at m e) Must_Handle_Err else map_at m e))"
  using recurMarkEdgesToErrHandle_returns [OF assms, of m]
  by (auto simp: handle_region_def not_less elim!: returnsE)

lemma recurMarkEdgesToErrHandle_exact_witness:
  "\<exists>m'. recurMarkEdgesToErrHandle sample 11 Map.empty = Inr m' \<and>
     bit (map_at m' (20, 11)) 4 \<and> map_at m' (20, 12) = 0"
proof -
  let ?N = "\<lambda>b. {p \<in> set (predecessors sample b).
    \<not> bit (map_at Map.empty (terminator sample p, b)) 4 \<and> length (successors sample p) \<le> 1}"
  have "reach_set ?N {11} = {11}"
  proof (rule sym, rule reach_set_eqI)
    show "{11} \<subseteq> reach_set ?N {11}" by (simp add: reach_set_base)
    show "?N b \<subseteq> {11}" if "b \<in> {11}" for b using that by (simp add: sample_simps)
  qed simp
  moreover have "11 \<in> set (blocks sample 100)" by (simp add: sample_simps)
  ultimately show ?thesis
    using recurMarkEdgesToErrHandle_exact [OF sample_wf_cfg, of 11 Map.empty]
    by (auto simp: edges_into_11)
qed

text \<open>
  C18: \<open>recurMarkEdgesToErrReturn\<close> terminates on every control-flow graph and gives exactly the
  edges into its backward region the return half of the flag, leaving their handling half and
  every other edge alone. A predecessor is followed when the return half of its edge differs.
\<close>

theorem recurMarkEdgesToErrReturn_exact:
  assumes "wf_cfg ir F" "BB \<in> set (blocks ir F)"
  shows "\<exists>m'. recurMarkEdgesToErrReturn ir BB flag m = Inr m' \<and>
    (\<forall>e. map_at m' e =
      (if e \<in> edges_into ir (reach_set (\<lambda>b. {p \<in> set (predecessors ir b).
            retBits (map_at m (terminator ir p, b)) \<noteq> retBits flag}) {BB})
       then updateReturnFlag (map_at m e) flag else map_at m e))"
  using recurMarkEdgesToErrReturn_returns [OF assms, of flag m]
  by (auto simp: return_region_def elim!: returnsE)

lemma recurMarkEdgesToErrReturn_exact_witness:
  "\<exists>m'. recurMarkEdgesToErrReturn sample 13 May_Return_Err Map.empty = Inr m' \<and>
     map_at m' (21, 13) = May_Return_Err \<and> map_at m' (10, 11) = 0"
proof -
  let ?N = "\<lambda>b. {p \<in> set (predecessors sample b).
    retBits (map_at Map.empty (terminator sample p, b)) \<noteq> retBits May_Return_Err}"
  have "13 \<in> reach_set ?N {13}" by (simp add: reach_set_base)
  then have "(21, 13) \<in> edges_into sample (reach_set ?N {13})"
    unfolding edges_into_def
    by (intro CollectI exI [of _ 11] exI [of _ 13]) (simp add: sample_simps)
  moreover have "(10, 11) \<notin> edges_into sample R" for R
    by (auto simp: edges_into_def sample_simps split: if_splits)
  moreover have "13 \<in> set (blocks sample 100)" by (simp add: sample_simps)
  moreover have "updateReturnFlag 0 May_Return_Err = May_Return_Err"
    by (simp add: updateReturnFlag_def flag_defs)
  ultimately show ?thesis
    using recurMarkEdgesToErrReturn_exact [OF sample_wf_cfg, of 13 May_Return_Err Map.empty]
    by auto
qed

text \<open>
  C27: The forward and the Must-propagating loop terminate on every control-flow graph, whatever
  the flags, and change nothing but the return half (the low four bits) of any flag.
\<close>

theorem propagation_returns:
  assumes "wf_cfg ir F" "b \<in> set (blocks ir F)" "c \<in> set (blocks ir F)"
  shows "\<exists>m' m''. recurMarkEdgesFromBlock ir (terminator ir b, c) flag E m = Inr m' \<and>
    recurMarkEdgesToBlock ir (terminator ir b, c) flag E m = Inr m'' \<and>
    (\<forall>e n. 4 \<le> n \<longrightarrow> bit (map_at m' e) n = bit (map_at m e) n \<and>
       bit (map_at m'' e) n = bit (map_at m e) n)"
proof -
  have e: "(terminator ir b, c) \<in> cfg_edges ir F" using assms by (auto simp: cfg_edges_iff)
  obtain m' where 1: "recurMarkEdgesFromBlock ir (terminator ir b, c) flag E m = Inr m'" "same_rest m m'"
    using recurMarkEdgesFromBlock_returns [OF assms(1) e same_rest_refl] by (rule returnsE)
  obtain m'' where 2: "recurMarkEdgesToBlock ir (terminator ir b, c) flag E m = Inr m''" "same_rest m m''"
    using recurMarkEdgesToBlock_returns [OF assms(1) e same_rest_refl] by (rule returnsE)
  have "bit (map_at k e) n = bit (map_at m e) n" if "same_rest m k" "4 \<le> n" for k e n
  proof -
    have "restBits (map_at k e) = restBits (map_at m e)" using that(1) unfolding same_rest_def by (rule spec)
    then have "bit (restBits (map_at k e)) n = bit (restBits (map_at m e)) n" by simp
    with that(2) show ?thesis by simp
  qed
  with 1 2 show ?thesis by blast
qed

lemma propagation_returns_witness:
  "\<exists>m'. recurMarkEdgesFromBlock sample (20, 11) Must_Return_Err Map.empty [(20, 11) \<mapsto> 17] = Inr m' \<and>
     bit (map_at m' (20, 11)) 4"
proof -
  have s: "10 \<in> set (blocks sample 100)" "11 \<in> set (blocks sample 100)" "terminator sample 10 = 20"
    by (simp_all add: sample_simps)
  let ?m = "[(20, 11) \<mapsto> 17] :: edge_err_map"
  have "bit (17 :: int32) 4" by (simp add: bit_numeral_rec)
  then have b: "bit (map_at ?m (20, 11)) 4" by simp
  obtain m' m'' where
    r: "recurMarkEdgesFromBlock sample (20, 11) Must_Return_Err Map.empty ?m = Inr m'"
    and k: "\<forall>e n. 4 \<le> n \<longrightarrow> bit (map_at m' e) n = bit (map_at ?m e) n \<and>
       bit (map_at m'' e) n = bit (map_at ?m e) n"
    using propagation_returns [OF sample_wf_cfg s(1,2), of Must_Return_Err Map.empty ?m,
        unfolded s(3)] by (elim exE conjE) (rule that)
  have "bit (map_at m' (20, 11)) 4 = bit (map_at ?m (20, 11)) 4"
    using k by (metis order_refl)
  with r b show ?thesis by blast
qed

text \<open>
  The integration of the flags of several edges by \<open>mergeFlag\<close> does not depend on the order
  in which the edges are visited, nor on how often one is visited, for flags with no handling
  bit but Must and at most one of the two return bits.
\<close>

lemma mergeFlag_order_independent:
  assumes "set xs \<subseteq> edge_flags" "set ys \<subseteq> edge_flags" "a \<in> edge_flags" "b \<in> edge_flags"
    and "insert a (set xs) = insert b (set ys)"
  shows "foldl mergeFlag a xs = foldl mergeFlag b ys"
  using assms by (rule flag_merge.integrate_order_independent)

lemma mergeFlag_order_independent_witness:
  "foldl mergeFlag 1 [2, 16, 2] = foldl mergeFlag 16 [1, 2]"
  by (rule mergeFlag_order_independent) (simp_all add: edge_flags_def insert_commute)

text \<open>
  \<open>mergeFlag\<close> loses a May-handle flag. When one side may handle an error and not both must,
  the result has no handling bit at all and claims instead that an error may be returned.
\<close>

lemma mergeFlag_drops_may_handle:
  assumes "bit a 5 \<or> bit b 5" "\<not> (bit a 4 \<and> bit b 4)"
  shows "hdlBits (mergeFlag a b) = 0 \<and> bit (mergeFlag a b) 1"
proof -
  have "mergeFlag a b = t OR May_Return_Err" if "t = (if bit a 0 \<and> bit b 0 then Must_Return_Err
      else if bit a 1 \<or> bit b 1 then May_Return_Err
      else if retBits a = 0 then retBits b else retBits a)" for t
    using assms that
    by (auto simp: mergeFlag_def Let_def test_flag retBits_def)
  moreover have "hdlBits (t OR May_Return_Err) = 0" if "hdlBits t = 0" for t
    using that by (simp add: hdlBits_def flag_defs bit.conj_disj_distrib2)
  moreover have "bit (t OR May_Return_Err) 1" for t by (simp add: bit_or_iff)
  moreover have "hdlBits (retBits f) = 0" for f by (rule bit_eqI) auto
  ultimately show ?thesis by simp
qed

lemma mergeFlag_drops_may_handle_witness:
  "hdlBits (mergeFlag May_Handle_Err 0) = 0 \<and> bit (mergeFlag May_Handle_Err 0) 1"
  by (rule mergeFlag_drops_may_handle) simp_all

text \<open>Scanning outgoing edges that may return an error changes nothing.\<close>

lemma scanOutgoing_may:
  assumes "\<forall>x \<in> set xs. x \<noteq> d \<longrightarrow> retBits (map_at m (terminator ir TB, x)) = May_Return_Err"
    and "\<forall>e. map_at k e = map_at m e"
  shows "\<exists>m'. fold (scanOutgoing ir (T, d) TB) xs (am, True, False, k) =
      (am \<and> (\<forall>x \<in> set xs. x = d), True, False, m') \<and> (\<forall>e. map_at m' e = map_at m e)"
  using assms
proof (induction xs arbitrary: am k)
  case Nil
  then show ?case by simp
next
  case (Cons x xs)
  show ?case
  proof (cases "x = d")
    case True
    with Cons show ?thesis by (simp add: scanOutgoing_def)
  next
    case False
    let ?v = "map_at m (terminator ir TB, x)"
    have "retBits ?v = May_Return_Err" using Cons.prems(1) False by simp
    then have "\<not> bit (retBits ?v) 0" by simp
    then have "\<not> bit ?v 0" by simp
    then have "scanOutgoing ir (T, d) TB x (am, True, False, k) =
        (False, True, False, map_touch k (terminator ir TB, x))"
      using False Cons.prems(2) by (simp add: scanOutgoing_def Let_def test_flag)
    moreover have "\<forall>e. map_at (map_touch k (terminator ir TB, x)) e = map_at m e"
      using Cons.prems(2) by simp
    ultimately show ?thesis
      using Cons.IH [of "map_touch k (terminator ir TB, x)" False] Cons.prems(1) False by simp
  qed
qed

text \<open>
  A May-return edge counts as unmarked. When the edge of the item must return an error and
  every other outgoing edge of its block may return one, the loop body of
  \<open>recurMarkEdgesToBlock\<close> changes no flag and pushes nothing: the test for May comes after the
  test for a missing Must, so it is not reached.
\<close>

lemma may_edges_stop_propagation:
  assumes "predecessors ir TB \<noteq> []" "getParent ir T = TB"
    and "c \<in> set (successors ir TB)" "c \<noteq> d"
    and "\<forall>x \<in> set (successors ir TB). x \<noteq> d \<longrightarrow> retBits (map_at m (terminator ir TB, x)) = May_Return_Err"
  shows "\<exists>m'. toBlockBody ir ((T, d), Must_Return_Err) m = Inr ([], m') \<and>
    (\<forall>e. map_at m' e = map_at m e)"
proof -
  obtain m' where f: "fold (scanOutgoing ir (T, d) TB) (successors ir TB) (True, True, False, m) =
      (False, True, False, m')" "\<forall>e. map_at m' e = map_at m e"
  proof -
    have "\<not> (\<forall>x \<in> set (successors ir TB). x = d)" using assms(3,4) by blast
    with scanOutgoing_may [OF assms(5), of m T True] that show thesis by auto
  qed
  have "\<not> (Must_Return_Err AND ERR_RETURN_MASK = 0)" "Must_Return_Err AND May_Return_Err = 0"
    by (simp_all add: flag_defs)
  then have "toBlockBody ir ((T, d), Must_Return_Err) m = Inr ([], m')"
    using assms(1,2) f(1) by (simp add: toBlockBody_def Let_def)
  with f(2) show ?thesis by blast
qed

definition sample_loop :: llvm where
  "sample_loop = sample\<lparr>predecessors := (\<lambda>b. [10])\<rparr>"

lemma may_edges_stop_propagation_witness:
  "\<exists>m'. toBlockBody sample_loop ((20, 12), Must_Return_Err) [(20, 11) \<mapsto> May_Return_Err] = Inr ([], m')
     \<and> map_at m' (20, 11) = May_Return_Err"
proof -
  have "\<exists>m'. toBlockBody sample_loop ((20, 12), Must_Return_Err) [(20, 11) \<mapsto> May_Return_Err] = Inr ([], m') \<and>
      (\<forall>e. map_at m' e = map_at [(20, 11) \<mapsto> May_Return_Err] e)"
    by (rule may_edges_stop_propagation [where TB = 10 and c = 11])
       (simp_all add: sample_loop_def sample_simps)
  then show ?thesis by auto
qed

section \<open>The module pass\<close>

text \<open>
  C28: The module pass returns and never asks for another iteration; it keeps the recorded sets
  consistent (strictly ordered by check instruction, with \<open>CheckInstSets\<close> their instructions),
  and records nothing for a function that is empty, too large or not unified.
\<close>

theorem SecurityChecks_module_pass:
  assumes "recorded_ok ctx"
    and "\<forall>F \<in> set (moduleFunctions ir M). analysed ir ctx F \<longrightarrow> wf_function ir ctx F"
  shows "\<exists>ctx' Sel'. SecurityChecks_doModulePass ir files M (ctx, Sel) = Inr (False, ctx', Sel') \<and>
    recorded_ok ctx' \<and>
    (\<forall>G. blocks ir G = [] \<or> 500 < length (blocks ir G) \<or> G \<notin> UnifiedFuncSet ctx \<longrightarrow>
       SecurityCheckSets ctx' G = SecurityCheckSets ctx G)"
proof -
  have "returns (SecurityChecks_doModulePass ir files M (ctx, Sel))
      (\<lambda>(changed, st). \<not> changed \<and> pass_ok ir ctx st)"
    by (rule doModulePass_returns) (use assms in blast)+
  then obtain r st where "SecurityChecks_doModulePass ir files M (ctx, Sel) = Inr (r, st)"
    and "\<not> r \<and> pass_ok ir ctx st" by (rule returnsE2)
  moreover obtain ctx' Sel' where "st = (ctx', Sel')" by fastforce
  ultimately show ?thesis
    by (auto simp: analysed_def MAX_BLOCKS_SUPPORT_def)
qed

lemma SecurityChecks_module_pass_witness:
  "\<exists>ctx' Sel'. SecurityChecks_doModulePass sample (\<lambda>_. []) 200 (sample_ctx, {}) = Inr (False, ctx', Sel') \<and>
     recorded_ok ctx' \<and> SecurityCheckSets ctx' 40 = []"
proof -
  have ok: "recorded_ok sample_ctx" by (simp add: recorded_ok_def sample_ctx_fields)
  have wf: "\<forall>F \<in> set (moduleFunctions sample 200). analysed sample sample_ctx F \<longrightarrow>
      wf_function sample sample_ctx F"
    using sample_wf_function by (auto simp: analysed_def sample_ctx_fields)
  have "blocks sample 40 = []" by (simp add: sample_simps)
  with SecurityChecks_module_pass [OF ok wf, of "\<lambda>_. []" "{}"]
  show ?thesis by (auto simp: sample_ctx_fields)
qed

end
