(* ===== verification/DepthFirst.thy ===== *)
theory DepthFirst
  imports Worklist
begin

text \<open>
  The recursive searches of the data-flow analysis as an interface. Such a search returns at
  once when the key of its node is in the visited set; otherwise it inserts the key and runs
  a list of actions, each a recursive call or an effect on the collected sets. The recursion
  takes fuel: one unit per call depth. The locale proves that more fuel than unvisited keys
  is enough, and, where a node is its own key, that the search visits exactly what is
  reachable and applies exactly the effects of the visited nodes.
\<close>

definition run_action ::
  "('a \<Rightarrow> 'k set \<times> 's \<Rightarrow> ('k set \<times> 's) res) \<Rightarrow> ('e \<Rightarrow> 's \<Rightarrow> 's) \<Rightarrow> 'a + 'e \<Rightarrow> 'k set \<times> 's \<Rightarrow>
   ('k set \<times> 's) res"
where
  "run_action call eff t st =
     (case t of Inl y \<Rightarrow> call y st | Inr e \<Rightarrow> Inr (fst st, eff e (snd st)))"

lemma run_action_simps [simp]:
  "run_action call eff (Inl y) st = call y st"
  "run_action call eff (Inr e) st = Inr (fst st, eff e (snd st))"
  by (simp_all add: run_action_def)

definition calls :: "('a + 'e) list \<Rightarrow> 'a set" where
  "calls ts = {y. Inl y \<in> set ts}"

definition effects :: "('a + 'e) list \<Rightarrow> 'e set" where
  "effects ts = {e. Inr e \<in> set ts}"

lemma calls_simps [simp]:
  "calls [] = {}" "calls (Inl y # ts) = insert y (calls ts)" "calls (Inr e # ts) = calls ts"
  "calls (ts @ us) = calls ts \<union> calls us" "calls (map Inl ys) = set ys" "calls (map Inr es) = {}"
  "calls (map (\<lambda>x. Inl (f x)) xs) = f ` set xs"
  by (auto simp: calls_def)

lemma effects_simps [simp]:
  "effects [] = {}" "effects (Inl y # ts) = effects ts" "effects (Inr e # ts) = insert e (effects ts)"
  "effects (ts @ us) = effects ts \<union> effects us" "effects (map Inl ys) = {}"
  "effects (map Inr es) = set es" "effects (map (\<lambda>x. Inl (f x)) xs) = {}"
  by (auto simp: effects_def)

text \<open>
  The actions of a call may be a fallible list. \<open>calls_in X r\<close>: the list is defined and its
  calls stay in \<open>X\<close>.
\<close>

definition actions :: "('a + 'e) list res \<Rightarrow> ('a + 'e) list" where
  "actions r = (case r of Inl _ \<Rightarrow> [] | Inr ts \<Rightarrow> ts)"

lemma actions_Inr [simp]: "actions (Inr ts) = ts"
  by (simp add: actions_def)

definition calls_in :: "'a set \<Rightarrow> ('a + 'e) list res \<Rightarrow> bool" where
  "calls_in X r \<longleftrightarrow> returns r (\<lambda>ts. calls ts \<subseteq> X)"

named_theorems calls_inI \<open>introduction rules for lists of actions\<close>

lemma calls_in_Inr [calls_inI]: "calls ts \<subseteq> X \<Longrightarrow> calls_in X (Inr ts)"
  by (simp add: calls_in_def)

lemma calls_in_if [calls_inI]:
  "(b \<Longrightarrow> calls_in X r) \<Longrightarrow> (\<not> b \<Longrightarrow> calls_in X r') \<Longrightarrow> calls_in X (if b then r else r')"
  by simp

lemma calls_in_rbind: "returns m P \<Longrightarrow> (\<And>x. P x \<Longrightarrow> calls_in X (f x)) \<Longrightarrow> calls_in X (rbind m f)"
  unfolding calls_in_def by (rule returns_rbind)

lemma calls_in_concatM [calls_inI]:
  "(\<And>x. x \<in> set xs \<Longrightarrow> calls_in X (f x)) \<Longrightarrow> calls_in X (concatM f xs)"
proof (induction xs)
  case (Cons x xs)
  have "calls_in X (f x)" and "calls_in X (concatM f xs)"
    by (simp_all add: Cons)
  then obtain ys zs where "f x = Inr ys" "calls ys \<subseteq> X" "concatM f xs = Inr zs" "calls zs \<subseteq> X"
    unfolding calls_in_def by (elim returnsE)
  then show ?case by (simp add: calls_in_def)
qed (simp add: calls_in_def)

lemma calls_inD: "calls_in X r \<Longrightarrow> r = Inr (actions r)" "calls_in X r \<Longrightarrow> calls (actions r) \<subseteq> X"
  unfolding calls_in_def by (auto simp: returns_iff)

lemma returns_actions:
  assumes "returns r (\<lambda>ts. calls ts = A \<and> effects ts = B)"
  shows "calls (actions r) = A" "effects (actions r) = B"
  using assms by (auto simp: returns_iff)

lemma actions_Inl [simp]: "actions (Inl e) = []"
  by (simp add: actions_def)

lemma no_effects_if:
  "effects (actions r) = {} \<Longrightarrow> effects (actions r') = {} \<Longrightarrow> effects (actions (if b then r else r')) = {}"
  by simp

lemma no_effects_rbind:
  "(\<And>x. effects (actions (f x)) = {}) \<Longrightarrow> effects (actions (rbind m f)) = {}"
  by (cases m) simp_all

lemma effects_concat: "effects (concat tss) = (\<Union>ts \<in> set tss. effects ts)"
  by (auto simp: effects_def)

lemma set_concatM:
  fixes f :: "'c \<Rightarrow> ('a + 'e) list res"
  assumes "concatM f xs = Inr ts"
  shows "t \<in> set ts \<longleftrightarrow> (\<exists>x \<in> set xs. t \<in> set (actions (f x)))"
proof -
  have "(case r of Inl _ \<Rightarrow> {} | Inr zs \<Rightarrow> set zs) = set (actions r)" for r :: "('a + 'e) list res"
    by (cases r) (simp_all add: actions_def)
  then show ?thesis using concatM_result [OF assms] by auto
qed

lemma calls_concatM:
  assumes "concatM f xs = Inr ts"
  shows "calls ts = (\<Union>x \<in> set xs. calls (actions (f x)))"
    and "effects ts = (\<Union>x \<in> set xs. effects (actions (f x)))"
  by (auto simp: calls_def effects_def set_concatM [OF assms])

lemma calls_concatM2:
  assumes "concatM (\<lambda>x. concatM (g x) (h x)) xs = Inr ts"
  shows "calls ts = (\<Union>x \<in> set xs. \<Union>y \<in> set (h x). calls (actions (g x y)))"
    and "effects ts = (\<Union>x \<in> set xs. \<Union>y \<in> set (h x). effects (actions (g x y)))"
proof -
  have "calls (actions (concatM (g x) (h x))) = (\<Union>y \<in> set (h x). calls (actions (g x y))) \<and>
      effects (actions (concatM (g x) (h x))) = (\<Union>y \<in> set (h x). effects (actions (g x y)))"
    if "x \<in> set xs" for x
    using concatM_defined [OF assms that] by (auto simp: calls_concatM)
  then show "calls ts = (\<Union>x \<in> set xs. \<Union>y \<in> set (h x). calls (actions (g x y)))"
    and "effects ts = (\<Union>x \<in> set xs. \<Union>y \<in> set (h x). effects (actions (g x y)))"
    by (simp_all add: calls_concatM [OF assms])
qed

locale depth_first =
  fixes key :: "'a \<Rightarrow> 'k" and todo :: "'a \<Rightarrow> ('a + 'e) list" and eff :: "'e \<Rightarrow> 's \<Rightarrow> 's"
    and contents :: "'s \<Rightarrow> 'e set"
    and visit :: "nat \<Rightarrow> 'a \<Rightarrow> 'k set \<times> 's \<Rightarrow> ('k set \<times> 's) res"
    and U :: "'k set" and valid :: "'a \<Rightarrow> bool"
  assumes finite_keys: "finite U"
    and key_in: "valid x \<Longrightarrow> key x \<in> U"
    and call_valid: "valid x \<Longrightarrow> y \<in> calls (todo x) \<Longrightarrow> valid y"
    and contents_eff: "contents (eff e s) = insert e (contents s)"
    and visit_eq: "valid x \<Longrightarrow> visit (Suc n) x (V, s) =
      (if key x \<in> V then Inr (V, s)
       else foldM (run_action (visit n) eff) (todo x) (insert (key x) V, s))"
begin

definition nxt :: "'a \<Rightarrow> 'a set" where
  "nxt x = calls (todo x)"

text \<open>
  What a piece of the search does: \<open>N\<close> is the set of nodes it expands. They were not visited,
  they are in \<open>R\<close>, and what they call is visited at the end; the collected set grows by \<open>E\<close>
  and the effects of these nodes.
\<close>

definition expands :: "'a set \<Rightarrow> 'e set \<Rightarrow> 'k set \<times> 's \<Rightarrow> 'a set \<Rightarrow> 'k set \<times> 's \<Rightarrow> bool" where
  "expands R E st N st' \<longleftrightarrow>
     fst st' = fst st \<union> key ` N \<and> key ` N \<inter> fst st = {} \<and> N \<subseteq> R \<and> inj_on key N \<and>
     (\<forall>y \<in> N. key ` nxt y \<subseteq> fst st') \<and>
     contents (snd st') = contents (snd st) \<union> E \<union> (\<Union>y \<in> N. effects (todo y))"

lemma expandsD:
  assumes "expands R E st N st'"
  shows "fst st' = fst st \<union> key ` N" "key ` N \<inter> fst st = {}" "N \<subseteq> R" "inj_on key N"
    and "\<And>y. y \<in> N \<Longrightarrow> key ` nxt y \<subseteq> fst st'"
    and "contents (snd st') = contents (snd st) \<union> E \<union> (\<Union>y \<in> N. effects (todo y))"
proof -
  note d = assms [unfolded expands_def]
  show "fst st' = fst st \<union> key ` N" using d by (rule conjunct1)
  show "key ` N \<inter> fst st = {}" using d by (elim conjE)
  show "N \<subseteq> R" using d by (elim conjE)
  show "inj_on key N" using d by (elim conjE)
  show "contents (snd st') = contents (snd st) \<union> E \<union> (\<Union>y \<in> N. effects (todo y))"
    using d by (elim conjE)
  have "\<forall>y \<in> N. key ` nxt y \<subseteq> fst st'" using d by (elim conjE)
  then show "\<And>y. y \<in> N \<Longrightarrow> key ` nxt y \<subseteq> fst st'" by (rule bspec)
qed

lemma expands_none: "expands R {} st {} st"
  unfolding expands_def by simp

lemma expands_effect: "expands R {e} st {} (fst st, eff e (snd st))"
  unfolding expands_def by (simp add: contents_eff)

lemma expands_mono:
  assumes "expands R E st N st'" and "R \<subseteq> R'"
  shows "expands R' E st N st'"
  unfolding expands_def
  by (intro conjI ballI expandsD [OF assms(1)] order_trans [OF expandsD(3) [OF assms(1)] assms(2)])

lemma expands_trans:
  assumes "expands R E1 st N st1" and "expands R E2 st1 M st2"
  shows "expands R (E1 \<union> E2) st (N \<union> M) st2"
proof -
  note 1 = expandsD [OF assms(1)] and 2 = expandsD [OF assms(2)]
  have A: "fst st2 = fst st \<union> key ` (N \<union> M)" by (simp only: 2(1) 1(1) image_Un Un_assoc)
  have M: "key ` M \<inter> (fst st \<union> key ` N) = {}" using 2(2) by (simp only: 1(1))
  then have B: "key ` (N \<union> M) \<inter> fst st = {}" using 1(2) by blast
  from M have "key ` (N - M) \<inter> key ` (M - N) = {}" by blast
  then have D: "inj_on key (N \<union> M)" using 1(4) 2(4) by (simp add: inj_on_Un)
  have E: "\<forall>y \<in> N \<union> M. key ` nxt y \<subseteq> fst st2"
  proof
    fix y assume "y \<in> N \<union> M"
    then show "key ` nxt y \<subseteq> fst st2"
    proof
      assume "y \<in> N"
      from 1(5) [OF this] show ?thesis unfolding 2(1) by (rule le_supI1)
    qed (rule 2(5))
  qed
  have F: "contents (snd st2) =
      contents (snd st) \<union> (E1 \<union> E2) \<union> (\<Union>y \<in> N \<union> M. effects (todo y))"
    by (simp only: 2(6) 1(6) UN_Un Un_ac)
  show ?thesis
    unfolding expands_def by (intro conjI A B D E F) (use 1(3) 2(3) in simp)
qed

text \<open>A sequence of actions, when every recursive call expands.\<close>

lemma actions_expand:
  assumes "\<And>y st. y \<in> calls ts \<Longrightarrow> P \<subseteq> fst st \<Longrightarrow>
      returns (visit n y st) (\<lambda>st'. \<exists>N. expands R {} st N st' \<and> key y \<in> fst st')"
    and "P \<subseteq> fst st"
  shows "returns (foldM (run_action (visit n) eff) ts st)
    (\<lambda>st'. \<exists>N. expands R (effects ts) st N st' \<and> key ` calls ts \<subseteq> fst st')"
  using assms
proof (induction ts arbitrary: st)
  case Nil
  then show ?case by (auto intro: expands_none)
next
  case (Cons t ts)
  have first: "\<exists>st1 N. run_action (visit n) eff t st = Inr st1 \<and>
      expands R (effects [t]) st N st1 \<and> key ` calls [t] \<subseteq> fst st1"
  proof (cases t)
    case (Inl y)
    have "returns (visit n y st) (\<lambda>st'. \<exists>N. expands R {} st N st' \<and> key y \<in> fst st')"
      by (rule Cons.prems(1)) (simp_all add: Inl Cons.prems(2))
    then show ?thesis by (auto simp: Inl returns_iff)
  next
    case (Inr e)
    show ?thesis
      by (intro exI [of _ "(fst st, eff e (snd st))"] exI [of _ "{}"]) (simp add: Inr expands_effect)
  qed
  then obtain st1 N1 where r: "run_action (visit n) eff t st = Inr st1"
    and e1: "expands R (effects [t]) st N1 st1" and k1: "key ` calls [t] \<subseteq> fst st1" by blast
  have "P \<subseteq> fst st1" unfolding expandsD(1) [OF e1] using Cons.prems(2) by (rule le_supI1)
  then have "returns (foldM (run_action (visit n) eff) ts st1)
      (\<lambda>st'. \<exists>N. expands R (effects ts) st1 N st' \<and> key ` calls ts \<subseteq> fst st')"
    by (intro Cons.IH Cons.prems(1)) (simp_all add: calls_def)
  then obtain st2 N2 where f: "foldM (run_action (visit n) eff) ts st1 = Inr st2"
    and e2: "expands R (effects ts) st1 N2 st2" and k2: "key ` calls ts \<subseteq> fst st2"
    by (elim returnsE) blast
  have "effects (t # ts) = effects [t] \<union> effects ts" by (auto simp: effects_def)
  then have "expands R (effects (t # ts)) st (N1 \<union> N2) st2"
    using expands_trans [OF e1 e2] by simp
  moreover have "key ` calls (t # ts) \<subseteq> fst st2"
  proof -
    have "fst st1 \<subseteq> fst st2" unfolding expandsD(1) [OF e2] by (rule sup_ge1)
    with k1 have "key ` calls [t] \<subseteq> fst st2" by (rule order_trans)
    moreover have "calls (t # ts) = calls [t] \<union> calls ts" by (auto simp: calls_def)
    ultimately show ?thesis using k2 by (simp add: image_Un)
  qed
  ultimately show ?case unfolding foldM.simps r rbind.simps f returns_Inr by blast
qed

text \<open>The search returns when the fuel exceeds the number of unvisited keys.\<close>

theorem visit_expands:
  assumes "valid x" and "card (U - fst st) < n"
  shows "returns (visit n x st) (\<lambda>st'. \<exists>N. expands (reach_set nxt {x}) {} st N st' \<and> key x \<in> fst st')"
  using assms
proof (induction n arbitrary: x st)
  case 0
  then show ?case by simp
next
  case (Suc n)
  obtain V s where st: "st = (V, s)" by fastforce
  show ?case
  proof (cases "key x \<in> V")
    case True
    then show ?thesis
      using Suc.prems(1) by (auto simp: st visit_eq intro: expands_none)
  next
    case False
    let ?R = "reach_set nxt {x}" and ?P = "insert (key x) V"
    have "card (U - ?P) < card (U - V)"
      using False key_in [OF Suc.prems(1)] finite_keys by (intro psubset_card_mono) auto
    then have fuel: "card (U - ?P) < n" using Suc.prems(2) by (simp add: st)
    have call: "returns (visit n y st1) (\<lambda>st'. \<exists>N. expands ?R {} st1 N st' \<and> key y \<in> fst st')"
      if y: "y \<in> calls (todo x)" and P: "?P \<subseteq> fst st1" for y st1
    proof -
      have "card (U - fst st1) \<le> card (U - ?P)"
        using P finite_keys by (intro card_mono) auto
      then have "returns (visit n y st1)
          (\<lambda>st'. \<exists>N. expands (reach_set nxt {y}) {} st1 N st' \<and> key y \<in> fst st')"
        using fuel by (intro Suc.IH call_valid [OF Suc.prems(1) y]) simp
      moreover have "reach_set nxt {y} \<subseteq> ?R"
        by (rule reach_set_trans, rule reach_set_step [where x = x])
           (simp_all add: reach_set_base nxt_def y)
      ultimately show ?thesis by (auto elim!: returns_mono intro: expands_mono)
    qed
    have "returns (foldM (run_action (visit n) eff) (todo x) (?P, s))
        (\<lambda>st'. \<exists>N. expands ?R (effects (todo x)) (?P, s) N st' \<and> key ` calls (todo x) \<subseteq> fst st')"
      by (rule actions_expand [where P = ?P, OF call]) simp_all
    then obtain st' N where f: "foldM (run_action (visit n) eff) (todo x) (?P, s) = Inr st'"
      and e: "expands ?R (effects (todo x)) (?P, s) N st'" and k: "key ` calls (todo x) \<subseteq> fst st'"
      by (elim returnsE) blast
    note D = expandsD [OF e, unfolded fst_conv snd_conv]
    have "expands ?R {} st (insert x N) st'"
      unfolding expands_def st fst_conv snd_conv
    proof (intro conjI ballI)
      show "fst st' = V \<union> key ` insert x N" using D(1) by simp
      show "key ` insert x N \<inter> V = {}" using D(2) False by auto
      show "insert x N \<subseteq> ?R" using D(3) by (simp add: reach_set_base)
      have "key x \<notin> key ` N" using D(2) by blast
      then show "inj_on key (insert x N)" using D(4) by (simp add: inj_on_insert) blast
      show "key ` nxt y \<subseteq> fst st'" if "y \<in> insert x N" for y
        using that D(5) k by (auto simp: nxt_def)
      show "contents (snd st') = contents s \<union> {} \<union> (\<Union>y \<in> insert x N. effects (todo y))"
        using D(6) by (simp add: Un_ac)
    qed
    moreover have "key x \<in> fst st'" using D(1) by simp
    ultimately show ?thesis
      using Suc.prems(1) False f by (auto simp: st visit_eq)
  qed
qed

text \<open>A lower bound on the fuel that does not depend on the visited set.\<close>

lemma visit_enough:
  assumes "valid x" and "card U < n"
  shows "returns (visit n x st) (\<lambda>st'. \<exists>N. expands (reach_set nxt {x}) {} st N st' \<and> key x \<in> fst st')"
proof (rule visit_expands [OF assms(1)])
  have "card (U - fst st) \<le> card U" using finite_keys by (intro card_mono) auto
  with assms(2) show "card (U - fst st) < n" by simp
qed

end

text \<open>Where every node is its own key, the search from a closed visited set is exact.\<close>

locale depth_first_id = depth_first "\<lambda>x. x" todo eff contents visit U valid
  for todo :: "'a \<Rightarrow> ('a + 'e) list" and eff :: "'e \<Rightarrow> 's \<Rightarrow> 's" and contents visit U valid
begin

lemma visit_reaches:
  assumes "valid x" and "card U < n" and "\<And>y. y \<in> V \<Longrightarrow> nxt y \<subseteq> V"
  shows "returns (visit n x (V, s)) (\<lambda>(V', s'). V' = V \<union> reach_set nxt {x} \<and>
    contents s' = contents s \<union> (\<Union>y \<in> reach_set nxt {x} - V. effects (todo y)))"
proof -
  obtain st' N where v: "visit n x (V, s) = Inr st'"
    and e: "expands (reach_set nxt {x}) {} (V, s) N st'" and k: "x \<in> fst st'"
    using visit_enough [OF assms(1,2), of "(V, s)"] by (elim returnsE) blast
  note D = expandsD [OF e, unfolded fst_conv snd_conv image_ident]
  have "reach_set nxt {x} \<subseteq> V \<union> N"
  proof (rule reach_set_least)
    show "{x} \<subseteq> V \<union> N" using k D(1) by simp
    fix y assume "y \<in> V \<union> N"
    then show "nxt y \<subseteq> V \<union> N"
    proof
      assume "y \<in> V"
      from assms(3) [OF this] show ?thesis by (rule le_supI1)
    next
      assume "y \<in> N"
      from D(5) [OF this] show ?thesis unfolding D(1) .
    qed
  qed
  then have N: "N = reach_set nxt {x} - V" using D(2,3) by blast
  obtain V' s' where "st' = (V', s')" by (cases st')
  moreover have "V' = V \<union> reach_set nxt {x}" using D(1) N calculation by simp
  moreover have "contents s' = contents s \<union> (\<Union>y \<in> reach_set nxt {x} - V. effects (todo y))"
    using D(6) N calculation(1) by simp
  ultimately show ?thesis by (simp add: v)
qed

lemma visit_reaches_start:
  assumes "valid x" and "card U < n"
  shows "returns (visit n x ({}, s)) (\<lambda>(V', s'). V' = reach_set nxt {x} \<and>
    contents s' = contents s \<union> (\<Union>y \<in> reach_set nxt {x}. effects (todo y)))"
  using visit_reaches [OF assms, of "{}" s] by simp

end

section \<open>Searches that stop\<close>

text \<open>
  A search for a flag: a call runs through its items until the flag is set. The actions of an
  item are recursive calls or the setting of the flag.
\<close>

definition mark_checked :: "unit \<Rightarrow> bool \<Rightarrow> bool" where
  "mark_checked u b = True"

definition until_checked ::
  "('i \<Rightarrow> ('a + unit) list res) \<Rightarrow> ('a \<Rightarrow> 'k set \<times> bool \<Rightarrow> ('k set \<times> bool) res) \<Rightarrow> 'i list \<Rightarrow>
   'k set \<times> bool \<Rightarrow> ('k set \<times> bool) res"
where
  "until_checked todo call items st =
     foldM (\<lambda>i st. if snd st then Inr st
                   else rbind (todo i) (\<lambda>ts. foldM (run_action call mark_checked) ts st)) items st"

locale depth_first_stop =
  fixes key :: "'a \<Rightarrow> 'k" and items :: "'a \<Rightarrow> 'i list" and todo :: "'a \<Rightarrow> 'i \<Rightarrow> ('a + unit) list res"
    and visit :: "nat \<Rightarrow> 'a \<Rightarrow> 'k set \<times> bool \<Rightarrow> ('k set \<times> bool) res"
    and U :: "'k set" and valid :: "'a \<Rightarrow> bool"
  assumes finite_keys: "finite U"
    and key_in: "valid x \<Longrightarrow> key x \<in> U"
    and todo_valid: "valid x \<Longrightarrow> i \<in> set (items x) \<Longrightarrow> calls_in {y. valid y} (todo x i)"
    and visit_eq: "valid x \<Longrightarrow> visit (Suc n) x (V, s) =
      (if s then Inr (V, s) else if key x \<in> V then Inr (V, s)
       else until_checked (todo x) (visit n) (items x) (insert (key x) V, s))"
begin

definition nxt :: "'a \<Rightarrow> 'a set" where
  "nxt x = (\<Union>i \<in> set (items x). calls (actions (todo x i)))"

definition hit :: "'a \<Rightarrow> bool" where
  "hit x \<longleftrightarrow> (\<exists>i \<in> set (items x). effects (actions (todo x i)) \<noteq> {})"

text \<open>
  What a piece of the search does: \<open>N\<close> are the nodes it expands. \<open>E\<close> tells whether the piece
  itself sets the flag, \<open>C\<close> are the nodes it calls.
\<close>

definition covers :: "'a set \<Rightarrow> bool \<Rightarrow> 'a set \<Rightarrow> 'k set \<times> bool \<Rightarrow> 'a set \<Rightarrow> 'k set \<times> bool \<Rightarrow> bool" where
  "covers R E C st N st' \<longleftrightarrow>
     fst st' = fst st \<union> key ` N \<and> N \<subseteq> R \<and> (snd st \<longrightarrow> snd st') \<and>
     (snd st' \<longrightarrow> snd st \<or> E \<or> (\<exists>y \<in> N. hit y)) \<and>
     (\<not> snd st' \<longrightarrow> \<not> E \<and> key ` C \<subseteq> fst st' \<and> (\<forall>y \<in> N. \<not> hit y \<and> key ` nxt y \<subseteq> fst st'))"

lemma coversD:
  assumes "covers R E C st N st'"
  shows "fst st' = fst st \<union> key ` N" "N \<subseteq> R" "snd st \<Longrightarrow> snd st'"
    and "snd st' \<Longrightarrow> snd st \<or> E \<or> (\<exists>y \<in> N. hit y)"
    and "\<not> snd st' \<Longrightarrow> \<not> E" "\<not> snd st' \<Longrightarrow> key ` C \<subseteq> fst st'"
    and "\<not> snd st' \<Longrightarrow> y \<in> N \<Longrightarrow> \<not> hit y" "\<not> snd st' \<Longrightarrow> y \<in> N \<Longrightarrow> key ` nxt y \<subseteq> fst st'"
proof -
  note d = assms [unfolded covers_def]
  show "fst st' = fst st \<union> key ` N" using d by (elim conjE)
  show "N \<subseteq> R" using d by (elim conjE)
  have s: "snd st \<longrightarrow> snd st'" using d by (elim conjE)
  then show "snd st \<Longrightarrow> snd st'" by (rule mp)
  have t: "snd st' \<longrightarrow> snd st \<or> E \<or> (\<exists>y \<in> N. hit y)" using d by (elim conjE)
  then show "snd st' \<Longrightarrow> snd st \<or> E \<or> (\<exists>y \<in> N. hit y)" by (rule mp)
  have f: "\<not> snd st' \<longrightarrow> \<not> E \<and> key ` C \<subseteq> fst st' \<and> (\<forall>y \<in> N. \<not> hit y \<and> key ` nxt y \<subseteq> fst st')"
    using d by (elim conjE)
  show "\<not> snd st' \<Longrightarrow> \<not> E" "\<not> snd st' \<Longrightarrow> key ` C \<subseteq> fst st'" using mp [OF f] by simp_all
  show "\<not> snd st' \<Longrightarrow> y \<in> N \<Longrightarrow> \<not> hit y" "\<not> snd st' \<Longrightarrow> y \<in> N \<Longrightarrow> key ` nxt y \<subseteq> fst st'"
    using mp [OF f] by simp_all
qed

lemma covers_stopped: "snd st \<Longrightarrow> covers R E C st {} st"
  by (simp add: covers_def)

lemma covers_none: "covers R False {} st {} st"
  by (simp add: covers_def)

lemma covers_seen: "key y \<in> fst st \<Longrightarrow> covers R False {y} st {} st"
  by (simp add: covers_def)

lemma covers_mark: "covers R True {} st {} (fst st, mark_checked u (snd st))"
  by (simp add: covers_def mark_checked_def)

lemma covers_mono: "covers R E C st N st' \<Longrightarrow> R \<subseteq> R' \<Longrightarrow> covers R' E C st N st'"
  unfolding covers_def by (elim conjE, intro conjI) (assumption | rule order_trans)+

lemma covers_trans:
  assumes "covers R E1 C1 st N st1" and "covers R E2 C2 st1 M st2"
  shows "covers R (E1 \<or> E2) (C1 \<union> C2) st (N \<union> M) st2"
proof -
  note 1 = coversD [OF assms(1)] and 2 = coversD [OF assms(2)]
  have sub: "fst st1 \<subseteq> fst st2" using 2(1) by blast
  show ?thesis
    unfolding covers_def
  proof (intro conjI impI)
    show "fst st2 = fst st \<union> key ` (N \<union> M)" by (simp only: 2(1) 1(1) image_Un Un_assoc)
    show "N \<union> M \<subseteq> R" using 1(2) 2(2) by simp
    show "snd st2" if "snd st" using 2(3) [OF 1(3) [OF that]] .
    show "snd st \<or> (E1 \<or> E2) \<or> (\<exists>y \<in> N \<union> M. hit y)" if "snd st2" using 1(4) 2(4) [OF that] by blast
  next
    assume n: "\<not> snd st2"
    then have n1: "\<not> snd st1" using 2(3) by blast
    show "\<not> (E1 \<or> E2)" using 1(5) [OF n1] 2(5) [OF n] by blast
    show "key ` (C1 \<union> C2) \<subseteq> fst st2"
      unfolding image_Un by (rule Un_least [OF order_trans [OF 1(6) [OF n1] sub] 2(6) [OF n]])
    show "\<forall>y \<in> N \<union> M. \<not> hit y \<and> key ` nxt y \<subseteq> fst st2"
    proof
      fix y assume "y \<in> N \<union> M"
      then show "\<not> hit y \<and> key ` nxt y \<subseteq> fst st2"
        using 1(7) [OF n1] 2(7) [OF n] order_trans [OF 1(8) [OF n1] sub] 2(8) [OF n] by (elim UnE) simp_all
    qed
  qed
qed

text \<open>A list of actions, and the items of a call.\<close>

lemma actions_cover:
  assumes "\<And>y st. y \<in> calls ts \<Longrightarrow> P \<subseteq> fst st \<Longrightarrow> returns (visit n y st) (\<lambda>st'. \<exists>N. covers R False {y} st N st')"
    and "P \<subseteq> fst st"
  shows "returns (foldM (run_action (visit n) mark_checked) ts st)
    (\<lambda>st'. \<exists>N. covers R (effects ts \<noteq> {}) (calls ts) st N st')"
  using assms
proof (induction ts arbitrary: st)
  case Nil
  then show ?case by (auto intro: covers_none)
next
  case (Cons t ts)
  have "\<exists>st1 N. run_action (visit n) mark_checked t st = Inr st1 \<and>
      covers R (effects [t] \<noteq> {}) (calls [t]) st N st1"
  proof (cases t)
    case (Inl y)
    have "returns (visit n y st) (\<lambda>st'. \<exists>N. covers R False {y} st N st')"
      by (rule Cons.prems(1)) (simp_all add: Inl Cons.prems(2))
    then show ?thesis by (auto simp: Inl returns_iff)
  next
    case (Inr e)
    show ?thesis
      by (intro exI [of _ "(fst st, mark_checked e (snd st))"] exI [of _ "{}"])
         (simp add: Inr covers_mark)
  qed
  then obtain st1 N1 where r: "run_action (visit n) mark_checked t st = Inr st1"
    and e1: "covers R (effects [t] \<noteq> {}) (calls [t]) st N1 st1" by blast
  have "fst st1 = fst st \<union> key ` N1" by (rule coversD(1) [OF e1])
  then have "P \<subseteq> fst st1" using Cons.prems(2) by blast
  then have "returns (foldM (run_action (visit n) mark_checked) ts st1)
      (\<lambda>st'. \<exists>N. covers R (effects ts \<noteq> {}) (calls ts) st1 N st')"
    by (intro Cons.IH Cons.prems(1)) (simp_all add: calls_def)
  then obtain st2 N2 where f: "foldM (run_action (visit n) mark_checked) ts st1 = Inr st2"
    and e2: "covers R (effects ts \<noteq> {}) (calls ts) st1 N2 st2" by (elim returnsE) blast
  have "(effects (t # ts) \<noteq> {}) = (effects [t] \<noteq> {} \<or> effects ts \<noteq> {})" "calls (t # ts) = calls [t] \<union> calls ts"
    by (auto simp: effects_def calls_def)
  then have "covers R (effects (t # ts) \<noteq> {}) (calls (t # ts)) st (N1 \<union> N2) st2"
    using covers_trans [OF e1 e2] by (simp only:)
  then show ?case unfolding foldM.simps r rbind.simps f returns_Inr by blast
qed

lemma items_cover:
  assumes "\<And>i. i \<in> set is \<Longrightarrow> todo x i = Inr (actions (todo x i))"
    and "\<And>i y st. i \<in> set is \<Longrightarrow> y \<in> calls (actions (todo x i)) \<Longrightarrow> P \<subseteq> fst st \<Longrightarrow>
      returns (visit n y st) (\<lambda>st'. \<exists>N. covers R False {y} st N st')"
    and "P \<subseteq> fst st"
  shows "returns (until_checked (todo x) (visit n) is st)
    (\<lambda>st'. \<exists>N. covers R (\<exists>i \<in> set is. effects (actions (todo x i)) \<noteq> {})
       (\<Union>i \<in> set is. calls (actions (todo x i))) st N st')"
  using assms
proof (induction "is" arbitrary: st)
  case Nil
  then show ?case by (auto simp: until_checked_def intro: covers_none)
next
  case (Cons i "is")
  let ?E = "effects (actions (todo x i)) \<noteq> {}" and ?C = "calls (actions (todo x i))"
  obtain st1 N1 where r: "(if snd st then Inr st
      else rbind (todo x i) (\<lambda>ts. foldM (run_action (visit n) mark_checked) ts st)) = Inr st1"
    and e1: "covers R ?E ?C st N1 st1"
  proof (cases "snd st")
    case True
    then show ?thesis by (intro that [of st "{}"]) (simp_all add: covers_stopped)
  next
    case False
    have t: "todo x i = Inr (actions (todo x i))" by (rule Cons.prems(1)) simp
    have "returns (foldM (run_action (visit n) mark_checked) (actions (todo x i)) st)
        (\<lambda>st'. \<exists>N. covers R ?E ?C st N st')"
      by (rule actions_cover [OF Cons.prems(2,3)]) simp_all
    then show ?thesis using that False t by (elim returnsE) (metis rbind.simps(2))
  qed
  have "fst st1 = fst st \<union> key ` N1" by (rule coversD(1) [OF e1])
  then have "P \<subseteq> fst st1" using Cons.prems(3) by blast
  then have "returns (until_checked (todo x) (visit n) is st1)
      (\<lambda>st'. \<exists>N. covers R (\<exists>i \<in> set is. effects (actions (todo x i)) \<noteq> {})
         (\<Union>i \<in> set is. calls (actions (todo x i))) st1 N st')"
    by (intro Cons.IH Cons.prems(1,2)) simp_all
  then obtain st2 N2 where f: "until_checked (todo x) (visit n) is st1 = Inr st2"
    and e2: "covers R (\<exists>i \<in> set is. effects (actions (todo x i)) \<noteq> {})
      (\<Union>i \<in> set is. calls (actions (todo x i))) st1 N2 st2" by (elim returnsE) blast
  have "until_checked (todo x) (visit n) (i # is) st = Inr st2"
    using r f by (simp add: until_checked_def)
  moreover have "covers R (\<exists>j \<in> set (i # is). effects (actions (todo x j)) \<noteq> {})
      (\<Union>j \<in> set (i # is). calls (actions (todo x j))) st (N1 \<union> N2) st2"
    using covers_trans [OF e1 e2] by simp
  ultimately show ?case by auto
qed

theorem visit_covers:
  assumes "valid x" and "card (U - fst st) < n"
  shows "returns (visit n x st) (\<lambda>st'. \<exists>N. covers (reach_set nxt {x}) False {x} st N st')"
  using assms
proof (induction n arbitrary: x st)
  case 0
  then show ?case by simp
next
  case (Suc n)
  obtain V s where st: "st = (V, s)" by fastforce
  show ?case
  proof (cases "s \<or> key x \<in> V")
    case True
    then have "visit (Suc n) x st = Inr st" using Suc.prems(1) by (auto simp: st visit_eq)
    moreover have "covers (reach_set nxt {x}) False {x} st {} st"
      using True by (cases s) (simp_all add: st covers_stopped covers_seen)
    ultimately show ?thesis by auto
  next
    case False
    let ?R = "reach_set nxt {x}" and ?P = "insert (key x) V"
    have "card (U - ?P) < card (U - V)"
      using False key_in [OF Suc.prems(1)] finite_keys by (intro psubset_card_mono) auto
    then have fuel: "card (U - ?P) < n" using Suc.prems(2) by (simp add: st)
    have call: "returns (visit n y st1) (\<lambda>st'. \<exists>N. covers ?R False {y} st1 N st')"
      if i: "i \<in> set (items x)" and y: "y \<in> calls (actions (todo x i))" and P: "?P \<subseteq> fst st1" for i y st1
    proof -
      have "card (U - fst st1) \<le> card (U - ?P)"
        using P finite_keys by (intro card_mono) auto
      moreover have "valid y" using calls_inD(2) [OF todo_valid [OF Suc.prems(1) i]] y by blast
      ultimately have "returns (visit n y st1) (\<lambda>st'. \<exists>N. covers (reach_set nxt {y}) False {y} st1 N st')"
        using fuel by (intro Suc.IH) simp_all
      moreover have "y \<in> nxt x" using i y unfolding nxt_def by blast
      then have "y \<in> ?R" by (rule reach_set_step [OF reach_set_base [OF singletonI]])
      then have "reach_set nxt {y} \<subseteq> ?R" by (rule reach_set_trans)
      ultimately show ?thesis by (auto elim!: returns_mono intro: covers_mono)
    qed
    have "returns (until_checked (todo x) (visit n) (items x) (?P, s))
      (\<lambda>st'. \<exists>N. covers ?R (\<exists>i \<in> set (items x). effects (actions (todo x i)) \<noteq> {})
         (\<Union>i \<in> set (items x). calls (actions (todo x i))) (?P, s) N st')"
      by (rule items_cover [where P = ?P, OF calls_inD(1) [OF todo_valid [OF Suc.prems(1)]] call]) simp_all
    then have "returns (until_checked (todo x) (visit n) (items x) (?P, s))
      (\<lambda>st'. \<exists>N. covers ?R (hit x) (nxt x) (?P, s) N st')"
      by (simp only: hit_def nxt_def [of x])
    then obtain st' N where f: "until_checked (todo x) (visit n) (items x) (?P, s) = Inr st'"
      and e: "covers ?R (hit x) (nxt x) (?P, s) N st'" by (elim returnsE) blast
    note D = coversD [OF e, unfolded fst_conv snd_conv]
    have "covers ?R False {x} st (insert x N) st'"
      unfolding covers_def st fst_conv snd_conv
    proof (intro conjI impI ballI)
      show "fst st' = V \<union> key ` insert x N" using D(1) by simp
      show "insert x N \<subseteq> ?R" using D(2) by (simp add: reach_set_base)
      show "snd st'" if s using False that by simp
      show "s \<or> False \<or> (\<exists>y \<in> insert x N. hit y)" if "snd st'" using D(4) [OF that] False by blast
      show "key ` {x} \<subseteq> fst st'" using D(1) by simp
      show "\<not> hit y" "key ` nxt y \<subseteq> fst st'" if "\<not> snd st'" "y \<in> insert x N" for y
        using that(2) D(5-8) [OF that(1)] by (elim insertE; simp)+
    qed simp
    then show ?thesis
      using Suc.prems(1) False f by (auto simp: st visit_eq)
  qed
qed

lemma visit_stops:
  assumes "valid x" and "card U < n"
  shows "returns (visit n x st) (\<lambda>st'. \<exists>N. covers (reach_set nxt {x}) False {x} st N st')"
proof (rule visit_covers [OF assms(1)])
  have "card (U - fst st) \<le> card U" using finite_keys by (intro card_mono) auto
  with assms(2) show "card (U - fst st) < n" by simp
qed

end

text \<open>
  Where every node is its own key, the flag decides whether a hit can be reached, provided the
  nodes visited before are closed and without a hit.
\<close>

locale depth_first_stop_id = depth_first_stop "\<lambda>x. x" items todo visit U valid
  for items :: "'a \<Rightarrow> 'i list" and todo :: "'a \<Rightarrow> 'i \<Rightarrow> ('a + unit) list res" and visit U valid
begin

definition clean :: "'a set \<Rightarrow> bool" where
  "clean V \<longleftrightarrow> (\<forall>y \<in> V. \<not> hit y \<and> nxt y \<subseteq> V)"

lemma visit_decides:
  assumes "valid x" and "card U < n" and "clean V"
  shows "returns (visit n x (V, False)) (\<lambda>(V', s').
    s' = (\<exists>y \<in> reach_set nxt {x}. hit y) \<and> (\<not> s' \<longrightarrow> clean V' \<and> V' = V \<union> reach_set nxt {x}))"
proof -
  let ?R = "reach_set nxt {x}"
  obtain V' s' N where v: "visit n x (V, False) = Inr (V', s')"
    and c: "covers ?R False {x} (V, False) N (V', s')"
    using visit_stops [OF assms(1,2), of "(V, False)"] by (elim returnsE) (metis surj_pair)
  have V': "V' = V \<union> N" and N: "N \<subseteq> ?R" and t: "s' \<longrightarrow> (\<exists>y \<in> N. hit y)"
    and f: "\<not> s' \<longrightarrow> x \<in> V' \<and> (\<forall>y \<in> N. \<not> hit y \<and> nxt y \<subseteq> V')"
    using coversD [OF c] by simp_all
  have clean: "clean V' \<and> ?R \<subseteq> V'" if "\<not> s'"
  proof
    show c': "clean V'" using f that assms(3) unfolding clean_def V' by blast
    show "?R \<subseteq> V'"
      by (rule reach_set_least) (use f that c' in \<open>auto simp: clean_def\<close>)
  qed
  have "s' = (\<exists>y \<in> ?R. hit y)"
  proof
    show "\<exists>y \<in> ?R. hit y" if s' using t N that by blast
    show s' if "\<exists>y \<in> ?R. hit y"
    proof (rule ccontr)
      assume "\<not> s'"
      from clean [OF this] that show False unfolding clean_def by blast
    qed
  qed
  moreover have "V' = V \<union> ?R" if "\<not> s'" using clean [OF that] N V' by blast
  ultimately show ?thesis using clean by (simp add: v)
qed

end

end
