(* ===== verification/DataFlow.thy ===== *)
theory DataFlow
  imports Analyzer DepthFirst
begin

text \<open>
  \<open>DataFlowAnalysis.cc\<close>: alias sets, reachable blocks, the backward search for the sources of
  a critical variable, the forward search for its uses, and the order test on stores. The
  recursive searches take fuel, one unit per call depth (\<open>search_fuel\<close> at the outermost call).
  The actions of one call (insertions and recursive calls, in the order of the code) do not
  depend on the sets it updates, so they are listed first (the \<open>Todo\<close> definitions) and then
  run in order (\<open>run_action\<close>).
\<close>

section \<open>Uses and sources\<close>

definition use_c :: "ptr \<Rightarrow> int8 \<Rightarrow> use_t" where "use_c V Arg = (V, Arg)"
definition src_c :: "ptr \<Rightarrow> int8 \<Rightarrow> src_t" where "src_c V Arg = (V, Arg)"

text \<open>Operands and call arguments by number; an index out of range is a fault.\<close>

definition getOperand :: "llvm \<Rightarrow> ptr \<Rightarrow> nat \<Rightarrow> ptr res" where
  "getOperand ir V i = (if i < length (operands ir V) then Inr (operands ir V ! i) else Inl OutOfRange)"

definition getArgOperand :: "llvm \<Rightarrow> ptr \<Rightarrow> int8 \<Rightarrow> ptr res" where
  "getArgOperand ir CI i =
     (let k = unat (scast i :: uint32)
      in if k < length (argOperands ir CI) then Inr (argOperands ir CI ! k) else Inl OutOfRange)"

fun contains :: "string \<Rightarrow> string \<Rightarrow> bool" where
  "contains [] t = (t = [])"
| "contains (c # s) t = (take (length t) (c # s) = t \<or> contains s t)"

section \<open>Aliases\<close>

text \<open>A set is iterated in the order of the addresses.\<close>

definition getAliasPointers :: "ptr \<Rightarrow> (ptr \<rightharpoonup> ptr set) \<Rightarrow> ptr set" where
  "getAliasPointers Addr aliasPtrs =
     (case aliasPtrs Addr of None \<Rightarrow> {Addr} | Some S \<Rightarrow> insert Addr S)"

definition aliasList :: "llvm \<Rightarrow> gctx \<Rightarrow> ptr \<Rightarrow> ptr \<Rightarrow> ptr list" where
  "aliasList ir ctx I Addr =
     sorted_list_of_set (getAliasPointers Addr (FuncPAResults ctx (blockParent ir (getParent ir I))))"

section \<open>Reachable blocks\<close>

fun collectSuccReachBlocksF :: "llvm \<Rightarrow> nat \<Rightarrow> ptr \<Rightarrow> ptr set \<Rightarrow> ptr set res" where
  "collectSuccReachBlocksF ir 0 BB reachBB = Inl Diverges"
| "collectSuccReachBlocksF ir (Suc n) BB reachBB =
     (if BB \<in> reachBB then Inr reachBB
      else foldM (collectSuccReachBlocksF ir n) (successors ir BB) (insert BB reachBB))"

definition collectSuccReachBlocks :: "llvm \<Rightarrow> ptr \<Rightarrow> ptr set \<Rightarrow> ptr set res" where
  "collectSuccReachBlocks ir BB reachBB = collectSuccReachBlocksF ir (search_fuel ir) BB reachBB"

fun collectPredReachBlocksF :: "llvm \<Rightarrow> nat \<Rightarrow> ptr \<Rightarrow> ptr set \<Rightarrow> ptr set res" where
  "collectPredReachBlocksF ir 0 BB reachBB = Inl Diverges"
| "collectPredReachBlocksF ir (Suc n) BB reachBB =
     (if BB \<in> reachBB then Inr reachBB
      else foldM (collectPredReachBlocksF ir n) (predecessors ir BB) (insert BB reachBB))"

definition collectPredReachBlocks :: "llvm \<Rightarrow> ptr \<Rightarrow> ptr set \<Rightarrow> ptr set res" where
  "collectPredReachBlocks ir BB reachBB = collectPredReachBlocksF ir (search_fuel ir) BB reachBB"

section \<open>Sources of a critical variable\<close>

text \<open>
  The two recursive functions share \<open>TrackedSet\<close>; a call is a node, \<open>CV\<close> of \<open>findSourceCV\<close> and
  \<open>CVAlias\<close> of \<open>findSourceCVAlias\<close> (whose parameter \<open>V\<close> is not used). An effect inserts into
  \<open>SourceSet\<close> or into \<open>CVSet\<close>.
\<close>

datatype cv_node = CV ptr | CVAlias ptr

fun cv_key :: "cv_node \<Rightarrow> ptr" where
  "cv_key (CV V) = V"
| "cv_key (CVAlias A) = A"

datatype cv_effect = AddSource ptr | AddCV ptr

type_synonym cv_sets = "ptr set \<times> ptr set"  \<comment> \<open>\<open>SourceSet\<close> and \<open>CVSet\<close>\<close>

fun cv_add :: "cv_effect \<Rightarrow> cv_sets \<Rightarrow> cv_sets" where
  "cv_add (AddSource V) (SourceSet, CVSet) = (insert V SourceSet, CVSet)"
| "cv_add (AddCV V) (SourceSet, CVSet) = (SourceSet, insert V CVSet)"

type_synonym cv_todo = "(cv_node + cv_effect) list"

definition aliasUserTodo :: "llvm \<Rightarrow> gctx \<Rightarrow> ptr \<Rightarrow> ptr \<Rightarrow> cv_todo res" where
  "aliasUserTodo ir ctx A U =
     (if isa ir StoreInst U \<and> A = pointerOperand ir U then Inr [Inl (CV (valueOperand ir U))]
      else if isa ir CallInst U then
        (if calledValue ir U = NULL then Inr []
         else rbind (getCalledFuncName ir U) (\<lambda>FuncName.
           rbind (case DataFetchFuncs ctx FuncName of
                    Some (dst, src) \<Rightarrow> if dst = 0 then getArgOperand ir U src else Inr NULL
                  | None \<Rightarrow> Inr NULL) (\<lambda>Src.
             if Src \<noteq> NULL then Inr [Inr (AddSource Src), Inr (AddSource U), Inr (AddCV Src)]
             else if CopyFuncs ctx FuncName \<noteq> None then
               rbind (getArgOperand ir U 1) (\<lambda>Src. Inr [Inl (CV Src)])
             else Inr [])))
      else Inr [])"

text \<open>The call case of \<open>findSourceCV\<close>, for a call with a called value.\<close>

definition callSourceTodo :: "llvm \<Rightarrow> gctx \<Rightarrow> ptr \<Rightarrow> cv_todo res" where
  "callSourceTodo ir ctx CI =
     rbind (getCalledFuncName ir CI) (\<lambda>FuncName.
       rbind (case DataFetchFuncs ctx FuncName of
                Some (dst, src) \<Rightarrow> if dst = -1 then getArgOperand ir CI src else Inr NULL
              | None \<Rightarrow>
                  if isa ir InlineAsm (calledValue ir CI) \<and> contains FuncName ''get_user''
                  then getArgOperand ir CI 0 else Inr NULL) (\<lambda>Src.
         if Src \<noteq> NULL
         then Inr [Inr (AddCV CI), Inr (AddSource Src), Inr (AddSource CI), Inr (AddCV Src)]
         else Inr [Inr (AddCV CI)]))"

fun findSourceCVTodo :: "llvm \<Rightarrow> gctx \<Rightarrow> cv_node \<Rightarrow> cv_todo res" where
  "findSourceCVTodo ir ctx (CVAlias A) = concatM (aliasUserTodo ir ctx A) (users ir A)"
| "findSourceCVTodo ir ctx (CV V) =
     (if isConstant ir V then Inr [Inr (AddCV V)]
      else if isa ir ConstantExpr V then rbind (getOperand ir V 0) (\<lambda>op. Inr [Inl (CV op)])
      else if isa ir Argument V then Inr [Inr (AddCV V), Inr (AddSource V)]
      else if isa ir GlobalVariable V then Inr [Inr (AddSource V), Inr (AddCV V)]
      else if isa ir CallInst V \<and> calledValue ir V \<noteq> NULL then callSourceTodo ir ctx V
      else
        (let pre = (if isa ir CallInst V then [Inr (AddCV V)] else [])
         in if isa ir SelectInst V then
              Inr (pre @ [Inr (AddCV V), Inl (CV (trueValue ir V)), Inl (CV (falseValue ir V))])
            else if isa ir GetElementPtrInst V then
              Inr (pre @ [Inr (AddCV V), Inl (CV (pointerOperand ir V))])
            else if isa ir PHINode V then
              Inr (pre @ Inr (AddCV V) # map (\<lambda>(IV, BB). Inl (CV IV)) (incoming ir V))
            else if isa ir LoadInst V then
              Inr (pre @ Inr (AddCV V) #
                   map (\<lambda>A. Inl (CVAlias A)) (aliasList ir ctx V (pointerOperand ir V)))
            else if isa ir ICmpInst V then Inr (pre @ [Inr (AddCV V)])
            else if isa ir UnaryInstruction V then
              rbind (getOperand ir V 0) (\<lambda>UO. Inr (pre @ [Inr (AddCV V), Inl (CV UO)]))
            else if isa ir BinaryOperator V then
              Inr (pre @ Inr (AddCV V) #
                   map (\<lambda>Opd. Inl (CV Opd)) (filter (\<lambda>Opd. \<not> isConstant ir Opd) (operands ir V)))
            else Inr pre))"

fun findSourceCVF ::
  "llvm \<Rightarrow> gctx \<Rightarrow> nat \<Rightarrow> cv_node \<Rightarrow> ptr set \<times> cv_sets \<Rightarrow> (ptr set \<times> cv_sets) res"
where
  "findSourceCVF ir ctx 0 x st = Inl Diverges"
| "findSourceCVF ir ctx (Suc n) x st =
     (if cv_key x \<in> fst st then Inr st
      else rbind (findSourceCVTodo ir ctx x)
        (\<lambda>ts. foldM (run_action (findSourceCVF ir ctx n) cv_add) ts (insert (cv_key x) (fst st), snd st)))"

text \<open>The out parameters \<open>TrackedSet\<close>, \<open>SourceSet\<close> and \<open>CVSet\<close>.\<close>

definition findSourceCV ::
  "llvm \<Rightarrow> gctx \<Rightarrow> ptr \<Rightarrow> ptr set \<times> cv_sets \<Rightarrow> (ptr set \<times> cv_sets) res"
where
  "findSourceCV ir ctx V st = findSourceCVF ir ctx (search_fuel ir) (CV V) st"

definition findSourceCVAlias ::
  "llvm \<Rightarrow> gctx \<Rightarrow> ptr \<Rightarrow> ptr set \<times> cv_sets \<Rightarrow> (ptr set \<times> cv_sets) res"
where
  "findSourceCVAlias ir ctx A st = findSourceCVF ir ctx (search_fuel ir) (CVAlias A) st"

section \<open>Sources in the current function\<close>

text \<open>
  The number of the argument \<open>A\<close> at a call: the loop counts up from -1 and breaks at \<open>A\<close>. Where
  \<open>A\<close> is no argument the result is the number of the last one, and -1 for a call without
  arguments.
\<close>

fun argNoFrom :: "'w::len word \<Rightarrow> ptr \<Rightarrow> ptr list \<Rightarrow> 'w word" where
  "argNoFrom ArgNo A [] = ArgNo"
| "argNoFrom ArgNo A (ai # as) = (if A = ai then ArgNo + 1 else argNoFrom (ArgNo + 1) A as)"

definition callArgNo :: "llvm \<Rightarrow> ptr \<Rightarrow> ptr \<Rightarrow> int8" where
  "callArgNo ir CI A = argNoFrom (-1) A (argOperands ir CI)"

definition inFuncUserTodo :: "llvm \<Rightarrow> ptr set \<Rightarrow> ptr \<Rightarrow> ptr \<Rightarrow> (ptr + cv_effect) list res" where
  "inFuncUserTodo ir reachBBs A U =
     (if \<not> isa ir Instruction U then Inr []
      else if getParent ir U \<notin> reachBBs then Inr []
      else if isa ir StoreInst U \<and> A = pointerOperand ir U then Inr [Inl (valueOperand ir U)]
      else if isa ir CallInst U then
        rbind (getOperand ir U (unat (scast (callArgNo ir U A) :: uint32)))
          (\<lambda>Opd. Inr [Inr (AddSource Opd), Inr (AddCV Opd)])
      else Inr [])"

definition findInFuncSourceCVTodo :: "llvm \<Rightarrow> gctx \<Rightarrow> ptr \<Rightarrow> (ptr + cv_effect) list res" where
  "findInFuncSourceCVTodo ir ctx V =
     (if isConstant ir V \<or> isa ir Argument V \<or> isa ir GlobalVariable V \<or> isa ir AllocaInst V
      then Inr [Inr (AddSource V), Inr (AddCV V)]
      else if isa ir ConstantExpr V then rbind (getOperand ir V 0) (\<lambda>op. Inr [Inl op])
      else if isa ir CallInst V then Inr [Inr (AddSource V), Inr (AddCV V)]
      else if isa ir SelectInst V then
        Inr [Inr (AddCV V), Inl (trueValue ir V), Inl (falseValue ir V)]
      else if isa ir GetElementPtrInst V then Inr [Inr (AddCV V), Inl (pointerOperand ir V)]
      else if isa ir PHINode V then
        Inr (Inr (AddCV V) # map (\<lambda>(IV, BB). Inl IV) (incoming ir V))
      else if isa ir LoadInst V then
        (let LPO = pointerOperand ir V
         in rbind (collectPredReachBlocks ir (getParent ir V) {}) (\<lambda>reachBBs.
            rbind (concatM (\<lambda>A. concatM (inFuncUserTodo ir reachBBs A) (users ir A))
                     (aliasList ir ctx V LPO)) (\<lambda>ts.
            Inr (Inr (AddCV V) # ts @ [Inl LPO]))))
      else if isa ir ICmpInst V then Inr [Inr (AddCV V)]
      else if isa ir UnaryInstruction V then
        rbind (getOperand ir V 0) (\<lambda>UO. Inr [Inr (AddCV V), Inl UO])
      else if isa ir BinaryOperator V then
        Inr (Inr (AddCV V) # map Inl (operands ir V))
      else Inr [])"

fun findInFuncSourceCVF ::
  "llvm \<Rightarrow> gctx \<Rightarrow> nat \<Rightarrow> ptr \<Rightarrow> ptr set \<times> cv_sets \<Rightarrow> (ptr set \<times> cv_sets) res"
where
  "findInFuncSourceCVF ir ctx 0 V st = Inl Diverges"
| "findInFuncSourceCVF ir ctx (Suc n) V st =
     (if V \<in> fst st then Inr st
      else rbind (findInFuncSourceCVTodo ir ctx V)
        (\<lambda>ts. foldM (run_action (findInFuncSourceCVF ir ctx n) cv_add) ts
                (insert V (fst st), snd st)))"

definition findInFuncSourceCV ::
  "llvm \<Rightarrow> gctx \<Rightarrow> ptr \<Rightarrow> ptr set \<times> cv_sets \<Rightarrow> (ptr set \<times> cv_sets) res"
where
  "findInFuncSourceCV ir ctx V st = findInFuncSourceCVF ir ctx (search_fuel ir) V st"

section \<open>Sources without a visited set\<close>

text \<open>The recursive calls of \<open>findSources\<close> on \<open>V\<close>, and whether \<open>V\<close> itself is a source.\<close>

definition findSourcesNext :: "llvm \<Rightarrow> ptr \<Rightarrow> ptr list res" where
  "findSourcesNext ir V =
     (if isa ir CallInst V then
        (let CF = calledFunction ir V
         in if CF = NULL then Inr []
            else if contains (nameOf ir CF) ''with.overflow'' then Inr (argOperands ir V)
            else Inr [])
      else if isa ir GlobalVariable V then Inr []
      else if isa ir ConstantExpr V then rbind (getOperand ir V 0) (\<lambda>op. Inr [op])
      else if isa ir LoadInst V then Inr [pointerOperand ir V]
      else if isa ir SelectInst V then Inr [trueValue ir V, falseValue ir V]
      else if isa ir GetElementPtrInst V then Inr [pointerOperand ir V]
      else if isa ir PHINode V then Inr (map fst (incoming ir V))
      else if isa ir ICmpInst V then Inr (operands ir V)
      else if isa ir BinaryOperator V then
        Inr (filter (\<lambda>Opd. \<not> isa ir Constant Opd) (operands ir V))
      else if isa ir UnaryInstruction V then rbind (getOperand ir V 0) (\<lambda>op. Inr [op])
      else Inr [])"

definition isSourceLeaf :: "llvm \<Rightarrow> ptr \<Rightarrow> bool" where
  "isSourceLeaf ir V =
     (if isa ir CallInst V then False
      else if isa ir GlobalVariable V then isa ir Constant V
      else if isa ir ConstantExpr V \<or> isa ir LoadInst V \<or> isa ir SelectInst V \<or>
              isa ir GetElementPtrInst V \<or> isa ir PHINode V \<or> isa ir ICmpInst V \<or>
              isa ir BinaryOperator V \<or> isa ir UnaryInstruction V then False
      else isa ir Constant V)"

fun findSourcesF :: "llvm \<Rightarrow> nat \<Rightarrow> ptr \<Rightarrow> ptr set \<Rightarrow> ptr set res" where
  "findSourcesF ir 0 V SrcSet = Inl Diverges"
| "findSourcesF ir (Suc n) V SrcSet =
     rbind (findSourcesNext ir V)
       (\<lambda>ops. foldM (findSourcesF ir n) ops
                (if isSourceLeaf ir V then insert V SrcSet else SrcSet))"

definition findSources :: "llvm \<Rightarrow> ptr \<Rightarrow> ptr set \<Rightarrow> ptr set res" where
  "findSources ir V SrcSet = findSourcesF ir (search_fuel ir) V SrcSet"

section \<open>Uses\<close>

definition skippedUser :: "llvm \<Rightarrow> ptr \<Rightarrow> bool" where
  "skippedUser ir U \<longleftrightarrow>
     isa ir ExtractElementInst U \<or> isa ir InsertElementInst U \<or> isa ir ExtractValueInst U \<or>
     isa ir InsertValueInst U \<or> isa ir ShuffleVectorInst U \<or> isa ir ReturnInst U"

definition loadsInScope :: "llvm \<Rightarrow> ptr set \<Rightarrow> ptr \<Rightarrow> ptr list" where
  "loadsInScope ir reachBBs A =
     filter (\<lambda>AU. isa ir Instruction AU \<and> getParent ir AU \<in> reachBBs \<and> isa ir LoadInst AU)
       (users ir A)"

definition findUsesUserTodo ::
  "llvm \<Rightarrow> gctx \<Rightarrow> ptr \<Rightarrow> ptr \<Rightarrow> ptr set \<Rightarrow> ptr \<Rightarrow> (ptr + use_t) list res"
where
  "findUsesUserTodo ir ctx BorderInsn Target reachBBs U =
     (if \<not> isa ir Instruction U \<or> U = BorderInsn then Inr []
      else (let BB = getParent ir U;
                use = (\<lambda>ArgNo. if BB \<in> reachBBs then [Inr (use_c U ArgNo)] else [])
            in if isa ir GetElementPtrInst U then
                 Inr (if BB \<in> reachBBs
                      then Inr (use_c U (-1)) # (if pointerOperand ir U = U then [Inl U] else [])
                      else [])
               else if isa ir LoadInst U \<and> Target = pointerOperand ir U then Inr (use (-1))
               else if isa ir StoreInst U then
                 (if Target = pointerOperand ir U then Inr (use (-1))
                  else Inr (map Inl (concat (map (loadsInScope ir reachBBs)
                                               (aliasList ir ctx U (pointerOperand ir U))))))
               else if isa ir CmpInst U then Inr (use (-1))
               else if isa ir CallInst U then Inr (use (callArgNo ir U Target))
               else if skippedUser ir U then Inr []
               else if isa ir BinaryOperator U then
                 rbind (getOperand ir U 0) (\<lambda>opd0. rbind (getOperand ir U 1) (\<lambda>opd1.
                   if isa ir Constant opd0 \<or> isa ir Constant opd1 then Inr [] else Inr [Inl U]))
               else if isa ir UnaryInstruction U then Inr [Inl U]
               else Inr []))"

definition findUsesTodo :: "llvm \<Rightarrow> gctx \<Rightarrow> ptr \<Rightarrow> ptr \<Rightarrow> (ptr + use_t) list res" where
  "findUsesTodo ir ctx BorderInsn Target =
     rbind (collectSuccReachBlocks ir (getParent ir BorderInsn) {})
       (\<lambda>reachBBs. concatM (findUsesUserTodo ir ctx BorderInsn Target reachBBs) (users ir Target))"

fun findUsesF ::
  "llvm \<Rightarrow> gctx \<Rightarrow> ptr \<Rightarrow> nat \<Rightarrow> ptr \<Rightarrow> ptr set \<times> use_t set \<Rightarrow> (ptr set \<times> use_t set) res"
where
  "findUsesF ir ctx BorderInsn 0 Target st = Inl Diverges"
| "findUsesF ir ctx BorderInsn (Suc n) Target st =
     (if BorderInsn = NULL then Inr st
      else if Target \<in> fst st then Inr st
      else rbind (findUsesTodo ir ctx BorderInsn Target)
        (\<lambda>ts. foldM (run_action (findUsesF ir ctx BorderInsn n) insert) ts
                (insert Target (fst st), snd st)))"

text \<open>The out parameters \<open>Visited\<close> and \<open>UseSet\<close>.\<close>

definition findUses ::
  "llvm \<Rightarrow> gctx \<Rightarrow> ptr \<Rightarrow> ptr \<Rightarrow> ptr set \<times> use_t set \<Rightarrow> (ptr set \<times> use_t set) res"
where
  "findUses ir ctx BorderInsn Target st = findUsesF ir ctx BorderInsn (search_fuel ir) Target st"

section \<open>Order of a store and an instruction\<close>

fun scanBlock :: "ptr \<Rightarrow> ptr \<Rightarrow> ptr list \<Rightarrow> bool" where
  "scanBlock Inst St [] = False"
| "scanBlock Inst St (II # Is) =
     (if II = St then True else if II = Inst then False else scanBlock Inst St Is)"

definition blockPathBody :: "llvm \<Rightarrow> ptr \<Rightarrow> ptr \<Rightarrow> bool \<Rightarrow> (ptr list \<times> bool) res" where
  "blockPathBody ir InstBB TB found =
     (if TB = InstBB then Inr ([], True) else Inr (successors ir TB, found))"

definition possibleUseStResult :: "llvm \<Rightarrow> ptr \<Rightarrow> ptr \<Rightarrow> bool res" where
  "possibleUseStResult ir Inst St =
     (let InstBB = getParent ir Inst; StBB = getParent ir St
      in if InstBB = NULL \<or> StBB = NULL then Inr False
         else if InstBB = StBB then Inr (scanBlock Inst St (insts ir InstBB))
         else rbind (worklist (\<lambda>found. found) (\<lambda>TB. TB) (blockPathBody ir InstBB) [StBB] False)
           (\<lambda>(PB, found). Inr found))"

section \<open>Backward analysis\<close>

text \<open>
  The state is \<open>LPSet\<close>, a member of \<open>DataFlowAnalysis\<close>, and \<open>CISet\<close>. The stores a load may
  read are those of the function on the same pointer that may precede it.
\<close>

type_synonym backward_state = "ptr set \<times> ptr set"

definition storedValues :: "llvm \<Rightarrow> ptr \<Rightarrow> ptr \<Rightarrow> ptr list res" where
  "storedValues ir F LI =
     concatM (\<lambda>SI.
       if \<not> isa ir StoreInst SI then Inr []
       else rbind (possibleUseStResult ir LI SI) (\<lambda>possible.
         if \<not> possible then Inr []
         else if pointerOperand ir SI \<noteq> pointerOperand ir LI then Inr []
         else Inr [valueOperand ir SI])) (instructions ir F)"

definition backwardOperands :: "llvm \<Rightarrow> ptr \<Rightarrow> ptr list res" where
  "backwardOperands ir V =
     (if isa ir UnaryInstruction V then rbind (getOperand ir V 0) (\<lambda>op. Inr [op])
      else if isa ir BinaryOperator V \<or> isa ir ICmpInst V \<or> isa ir FCmpInst V then
        rbind (getOperand ir V 0) (\<lambda>op0. rbind (getOperand ir V 1) (\<lambda>op1. Inr [op0, op1]))
      else if isa ir PHINode V then Inr (map fst (incoming ir V))
      else if isa ir GetElementPtrInst V then Inr [pointerOperand ir V]
      else if isa ir SelectInst V then Inr [trueValue ir V, falseValue ir V]
      else Inr [])"

fun performBackwardAnalysisF ::
  "llvm \<Rightarrow> ptr \<Rightarrow> nat \<Rightarrow> ptr \<Rightarrow> backward_state \<Rightarrow> backward_state res"
where
  "performBackwardAnalysisF ir F 0 V st = Inl Diverges"
| "performBackwardAnalysisF ir F (Suc n) V (LPSet, CISet) =
     (if isa ir CallInst V then Inr (LPSet, insert V CISet)
      else if isa ir Constant V then Inr (LPSet, CISet)
      else if isa ir Argument V then Inr (LPSet, CISet)
      else if isa ir LoadInst V then
        (if pointerOperand ir V \<in> LPSet then Inr (LPSet, CISet)
         else rbind (storedValues ir F V)
           (\<lambda>vs. foldM (performBackwardAnalysisF ir F n) vs
                   (insert (pointerOperand ir V) LPSet, CISet)))
      else rbind (backwardOperands ir V)
        (\<lambda>ops. foldM (performBackwardAnalysisF ir F n) ops (LPSet, CISet)))"

text \<open>
  At most one chain of operands between two loads that insert into \<open>LPSet\<close>: the square of the
  number of objects bounds the depth.
\<close>

definition performBackwardAnalysis ::
  "llvm \<Rightarrow> ptr \<Rightarrow> ptr \<Rightarrow> backward_state \<Rightarrow> backward_state res"
where
  "performBackwardAnalysis ir F V st =
     performBackwardAnalysisF ir F (search_fuel ir * search_fuel ir) V st"

end
