(* ===== verification/MissingChecks.thy ===== *)
theory MissingChecks
  imports DataFlow
begin

text \<open>
  \<open>MissingChecks.h\<close> and \<open>MissingChecks.cc\<close>. The first stage of the pass records, for every
  security check, the sources it tests and the uses it protects; the second stage counts the
  sources and uses that no recorded check covers; \<open>processResults\<close> rates them. This theory
  holds the data base of recorded checks, the two slicing searches and the helpers; the counting
  functions and the pass are in \<open>MissingChecksPass\<close>.
\<close>

section \<open>Modelled checks\<close>

datatype sc_operator = ICMP_OTHER | ICMP_EQ | ICMP_NE | ICMP_GT | ICMP_LT

datatype sc_condition = SCC_OTHER | SCC_NULL | SCC_ZERO | SCC_POS | SCC_NEG | SCC_CONST | SCC_VAR

record model_sc =
  mSCO :: sc_operator
  mSCC :: sc_condition
  mSrcUse :: ptr
  mArgNo :: int8

definition model_sc_less :: "model_sc \<Rightarrow> model_sc \<Rightarrow> bool" where
  "model_sc_less MSC1 MSC2 \<longleftrightarrow> mSrcUse MSC1 < mSrcUse MSC2"

text \<open>
  \<open>set<ModelSC>\<close>: ordered by \<open>operator<\<close>, one element of each equivalence class. \<open>insert\<close> keeps
  the element that is there.
\<close>

definition model_sc_equiv :: "model_sc \<Rightarrow> model_sc \<Rightarrow> bool" where
  "model_sc_equiv a b \<longleftrightarrow> \<not> model_sc_less a b \<and> \<not> model_sc_less b a"

definition insertModelSC :: "model_sc \<Rightarrow> model_sc list \<Rightarrow> model_sc list" where
  "insertModelSC MSC S =
     (if \<exists>M \<in> set S. model_sc_equiv M MSC then S
      else takeWhile (\<lambda>M. model_sc_less M MSC) S @ MSC # dropWhile (\<lambda>M. model_sc_less M MSC) S)"

definition findModelSC :: "model_sc \<Rightarrow> model_sc list \<Rightarrow> bool" where
  "findModelSC MSC S \<longleftrightarrow> (\<exists>M \<in> set S. model_sc_equiv M MSC)"

fun modelPredicate :: "cmp_pred \<Rightarrow> sc_operator" where
  "modelPredicate P_ICMP_EQ = ICMP_EQ"
| "modelPredicate P_ICMP_NE = ICMP_NE"
| "modelPredicate P_ICMP_SGT = ICMP_GT"
| "modelPredicate P_ICMP_SGE = ICMP_GT"
| "modelPredicate P_ICMP_SLT = ICMP_LT"
| "modelPredicate P_ICMP_SLE = ICMP_LT"
| "modelPredicate P_ICMP_UGT = ICMP_GT"
| "modelPredicate P_ICMP_UGE = ICMP_GT"
| "modelPredicate P_ICMP_ULT = ICMP_LT"
| "modelPredicate P_ICMP_ULE = ICMP_LT"
| "modelPredicate (P_FCMP n) = ICMP_OTHER"

definition modelCheck :: "llvm \<Rightarrow> ptr \<Rightarrow> ptr \<Rightarrow> int8 \<Rightarrow> model_sc res" where
  "modelCheck ir CmpI SrcUse ArgNo =
     (if CmpI = NULL then Inl NullDeref
      else rbind (getOperand ir CmpI 1) (\<lambda>Cond.
        Inr \<lparr> mSCO = modelPredicate (predicate ir CmpI),
              mSCC = (if isa ir Constant Cond then SCC_CONST else SCC_OTHER),
              mSrcUse = SrcUse, mArgNo = ArgNo \<rparr>))"

section \<open>The state of the pass\<close>

text \<open>
  The static members and \<open>MIdx\<close>. The counts that are searched with \<open>find\<close> are partial maps, those
  only read with \<open>operator[]\<close> are total. \<open>TrackedSrcSet\<close>, \<open>TrackedUseSet\<close> and \<open>CheckSet\<close> are
  declared and not used.
\<close>

record mc_state =
  AnalysisStage :: int32
  SrcCheckCount :: "src_t \<rightharpoonup> uint32"
  UseCheckCount :: "use_t \<rightharpoonup> uint32"
  SrcUncheckCount :: "src_t \<rightharpoonup> uint32"
  UseUncheckCount :: "use_t \<rightharpoonup> uint32"
  SrcTotalCount :: "src_t \<Rightarrow> uint32"
  UseTotalCount :: "use_t \<Rightarrow> uint32"
  CheckedSrcSet :: "src_t set"
  CheckedUseSet :: "use_t set"
  SrcChecksMap :: "src_t \<Rightarrow> model_sc list"
  UseChecksMap :: "use_t \<Rightarrow> model_sc list"
  SrcUnchecksMap :: "src_t \<Rightarrow> ptr set"
  UseUnchecksMap :: "use_t \<Rightarrow> ptr set"
  MIdx :: int32

definition newMissingChecks :: mc_state where
  "newMissingChecks =
    \<lparr> AnalysisStage = 1, SrcCheckCount = Map.empty, UseCheckCount = Map.empty,
      SrcUncheckCount = Map.empty, UseUncheckCount = Map.empty,
      SrcTotalCount = (\<lambda>_. 0), UseTotalCount = (\<lambda>_. 0), CheckedSrcSet = {}, CheckedUseSet = {},
      SrcChecksMap = (\<lambda>_. []), UseChecksMap = (\<lambda>_. []),
      SrcUnchecksMap = (\<lambda>_. {}), UseUnchecksMap = (\<lambda>_. {}), MIdx = 0 \<rparr>"

text \<open>\<open>M[k] += 1\<close> on a map of counters.\<close>

definition bump :: "'k \<Rightarrow> ('k \<rightharpoonup> uint32) \<Rightarrow> ('k \<rightharpoonup> uint32)" where
  "bump k M = M(k \<mapsto> (case M k of None \<Rightarrow> 0 | Some n \<Rightarrow> n) + 1)"

definition addSrcCheck :: "src_t \<Rightarrow> model_sc \<Rightarrow> mc_state \<Rightarrow> mc_state" where
  "addSrcCheck Src MSC st =
     st\<lparr>SrcCheckCount := bump Src (SrcCheckCount st),
        CheckedSrcSet := insert Src (CheckedSrcSet st),
        SrcChecksMap := (SrcChecksMap st)(Src := insertModelSC MSC (SrcChecksMap st Src))\<rparr>"

definition addUseCheck :: "use_t \<Rightarrow> model_sc \<Rightarrow> mc_state \<Rightarrow> mc_state" where
  "addUseCheck Use MSC st =
     st\<lparr>UseCheckCount := bump Use (UseCheckCount st),
        CheckedUseSet := insert Use (CheckedUseSet st),
        UseChecksMap := (UseChecksMap st)(Use := insertModelSC MSC (UseChecksMap st Use))\<rparr>"

definition addSrcUncheck :: "src_t \<Rightarrow> ptr \<Rightarrow> mc_state \<Rightarrow> mc_state" where
  "addSrcUncheck Src V st =
     st\<lparr>SrcUncheckCount := bump Src (SrcUncheckCount st),
        SrcUnchecksMap := (SrcUnchecksMap st)(Src := insert V (SrcUnchecksMap st Src))\<rparr>"

definition addUseUncheck :: "use_t \<Rightarrow> ptr \<Rightarrow> mc_state \<Rightarrow> mc_state" where
  "addUseUncheck Use V st =
     st\<lparr>UseUncheckCount := bump Use (UseUncheckCount st),
        UseUnchecksMap := (UseUnchecksMap st)(Use := insert V (UseUnchecksMap st Use))\<rparr>"

definition inModeledCheckSet :: "llvm \<Rightarrow> mc_state \<Rightarrow> ptr \<Rightarrow> ptr \<Rightarrow> int8 \<Rightarrow> bool \<Rightarrow> bool res" where
  "inModeledCheckSet ir st CmpI SrcUse ArgNo IsSrc =
     rbind (modelCheck ir CmpI SrcUse ArgNo) (\<lambda>MSC.
       if IsSrc then Inr (findModelSC MSC (SrcChecksMap st (src_c SrcUse ArgNo)))
       else Inr (findModelSC MSC (UseChecksMap st (use_c SrcUse ArgNo))))"

section \<open>Slicing\<close>

text \<open>
  Both searches stop as soon as \<open>isChecked\<close> is set. A call runs through a list of items (the
  users of the value, the callers); each item yields actions: recursive calls, or setting the
  flag. After every item the flag is tested.
\<close>

type_synonym slice_state = "ptr set \<times> bool"  \<comment> \<open>\<open>VSet\<close> and \<open>isChecked\<close>\<close>

subsection \<open>Forward\<close>

definition forwardUserTodo ::
  "llvm \<Rightarrow> gctx \<Rightarrow> mc_state \<Rightarrow> ptr \<Rightarrow> src_t \<Rightarrow> ptr set \<Rightarrow> ptr \<Rightarrow> ptr \<Rightarrow> (ptr + unit) list res"
where
  "forwardUserTodo ir ctx st F Src Scope V UV =
     (if UV = NULL then Inr []
      else if \<not> isa ir Instruction UV then Inr []
      else if getParent ir UV \<notin> Scope then Inr []
      else if isa ir CmpInst UV then
        rbind (inModeledCheckSet ir st UV (fst Src) (snd Src) True)
          (\<lambda>b. if b then Inr [Inr ()] else Inr [])
      else if isa ir SwitchInst UV then Inr [Inr ()]
      else if isa ir CallInst UV \<and> UV \<in> CheckInstSets ctx F then Inr [Inr ()]
      else if isa ir ReturnInst UV then Inr [Inr ()]
      else if isa ir StoreInst UV \<and> V = valueOperand ir UV then
        (let AliasSet = sorted_list_of_set (getAliasPointers (pointerOperand ir UV) (FuncPAResults ctx F))
         in Inr (map Inl (concat (map (\<lambda>A. filter (isa ir LoadInst) (users ir A)) AliasSet))))
      else if isa ir GetElementPtrInst UV \<and> pointerOperand ir UV = V then Inr [Inl UV]
      else if isa ir PHINode UV then Inr [Inl UV]
      else if isa ir UnaryInstruction UV then Inr [Inl UV]
      else if isa ir BinaryOperator UV then Inr [Inl UV]
      else Inr [])"

fun isCheckedForwardF ::
  "llvm \<Rightarrow> gctx \<Rightarrow> mc_state \<Rightarrow> ptr \<Rightarrow> src_t \<Rightarrow> ptr set \<Rightarrow> nat \<Rightarrow> ptr \<Rightarrow> slice_state \<Rightarrow> slice_state res"
where
  "isCheckedForwardF ir ctx st F Src Scope 0 V s = Inl Diverges"
| "isCheckedForwardF ir ctx st F Src Scope (Suc n) V (VSet, isChecked) =
     (if isChecked then Inr (VSet, isChecked)
      else if V \<in> VSet then Inr (VSet, isChecked)
      else until_checked (forwardUserTodo ir ctx st F Src Scope V)
             (isCheckedForwardF ir ctx st F Src Scope n) (users ir V) (insert V VSet, isChecked))"

definition isCheckedForward ::
  "llvm \<Rightarrow> gctx \<Rightarrow> mc_state \<Rightarrow> ptr \<Rightarrow> src_t \<Rightarrow> ptr \<Rightarrow> ptr set \<Rightarrow> slice_state \<Rightarrow> slice_state res"
where
  "isCheckedForward ir ctx st F Src V Scope s = isCheckedForwardF ir ctx st F Src Scope (search_fuel ir) V s"

subsection \<open>Backward\<close>

text \<open>
  A call has the parameters that change from call to call: the function, the value, the blocks
  in scope and the depth. For an argument the items are the callers, for every other value its
  users and then its operands.
\<close>

type_synonym backward_node = "ptr \<times> ptr \<times> ptr set \<times> uint32"

datatype backward_item = BUser ptr | BCaller ptr | BOperands

definition backwardItems :: "llvm \<Rightarrow> gctx \<Rightarrow> backward_node \<Rightarrow> backward_item list" where
  "backwardItems ir ctx = (\<lambda>(F, V, Scope, Depth).
     if Depth > 5 then []
     else if isa ir Argument V then
       (let ArgNo = argNoFrom (-1 :: uint32) V (args ir F)
        in if ArgNo = -1 then []
           else (let PF = argParent ir V
                 in if PF = NULL then [] else map BCaller (smallSetOrder ir (Callers ctx PF))))
     else map BUser (users ir V) @ [BOperands])"

definition backwardCaller :: "llvm \<Rightarrow> backward_node \<Rightarrow> ptr \<Rightarrow> (backward_node + unit) list res" where
  "backwardCaller ir = (\<lambda>(F, V, Scope, Depth) CI.
     let ArgNo = unat (argNoFrom (-1 :: uint32) V (args ir F))
     in if ArgNo \<ge> length (argOperands ir CI) then Inr []
        else (let ArgC = argOperands ir CI ! ArgNo
              in if ArgC = NULL then Inr []
                 else rbind (collectPredReachBlocks ir (getParent ir CI) {})
                   (\<lambda>predBBs. Inr [Inl (blockParent ir (getParent ir CI), ArgC, predBBs, Depth + 1)])))"

definition backwardUser ::
  "llvm \<Rightarrow> gctx \<Rightarrow> mc_state \<Rightarrow> use_t \<Rightarrow> backward_node \<Rightarrow> ptr \<Rightarrow> (backward_node + unit) list res"
where
  "backwardUser ir ctx st Use = (\<lambda>(F, V, Scope, Depth) UV.
     if UV = NULL then Inr []
     else if \<not> isa ir Instruction UV then Inr []
     else if getParent ir UV \<notin> Scope then Inr []
     else if isa ir CmpInst UV then
       rbind (inModeledCheckSet ir st UV (fst Use) (snd Use) False)
         (\<lambda>b. if b then Inr [Inr ()] else Inr [])
     else if isa ir SwitchInst UV then Inr [Inr ()]
     else if isa ir CallInst UV \<and> UV \<in> CheckInstSets ctx F then Inr [Inr ()]
     else Inr [])"

definition backwardAlias :: "llvm \<Rightarrow> backward_node \<Rightarrow> ptr \<Rightarrow> (backward_node + unit) list" where
  "backwardAlias ir = (\<lambda>(F, V, Scope, Depth) SU.
     if \<not> isa ir Instruction SU then []
     else if getParent ir SU \<notin> Scope then []
     else if isa ir LoadInst SU then [Inl (F, SU, Scope, Depth)]
     else if isa ir StoreInst SU then [Inl (F, valueOperand ir SU, Scope, Depth)]
     else [])"

definition backwardOperandsTodo ::
  "llvm \<Rightarrow> gctx \<Rightarrow> backward_node \<Rightarrow> (backward_node + unit) list res"
where
  "backwardOperandsTodo ir ctx = (\<lambda>(F, V, Scope, Depth).
     let same = (\<lambda>W. Inl (F, W, Scope, Depth))
     in if isa ir CallInst V then Inr []
        else if isConstant ir V then Inr []
        else if isa ir LoadInst V then
          (let AliasSet = sorted_list_of_set (getAliasPointers (pointerOperand ir V) (FuncPAResults ctx F))
           in Inr (concat (map (\<lambda>A. concat (map (backwardAlias ir (F, V, Scope, Depth)) (users ir A))) AliasSet)))
        else if isa ir PHINode V then Inr (map (\<lambda>(IV, BB). same IV) (incoming ir V))
        else if isa ir SelectInst V then Inr [same (trueValue ir V), same (falseValue ir V)]
        else if isa ir GetElementPtrInst V then Inr [same (pointerOperand ir V)]
        else if isa ir UnaryInstruction V then rbind (getOperand ir V 0) (\<lambda>op. Inr [same op])
        else if isa ir BinaryOperator V then
          rbind (getOperand ir V 0) (\<lambda>op0. rbind (getOperand ir V 1) (\<lambda>op1. Inr [same op0, same op1]))
        else Inr [])"

definition backwardTodo ::
  "llvm \<Rightarrow> gctx \<Rightarrow> mc_state \<Rightarrow> use_t \<Rightarrow> backward_node \<Rightarrow> backward_item \<Rightarrow> (backward_node + unit) list res"
where
  "backwardTodo ir ctx st Use x item =
     (case item of BUser UV \<Rightarrow> backwardUser ir ctx st Use x UV
      | BCaller CI \<Rightarrow> backwardCaller ir x CI
      | BOperands \<Rightarrow> backwardOperandsTodo ir ctx x)"

definition backwardKey :: "backward_node \<Rightarrow> ptr" where
  "backwardKey = (\<lambda>(F, V, Scope, Depth). V)"

fun isCheckedBackwardF ::
  "llvm \<Rightarrow> gctx \<Rightarrow> mc_state \<Rightarrow> use_t \<Rightarrow> nat \<Rightarrow> backward_node \<Rightarrow> slice_state \<Rightarrow> slice_state res"
where
  "isCheckedBackwardF ir ctx st Use 0 x s = Inl Diverges"
| "isCheckedBackwardF ir ctx st Use (Suc n) x (VSet, isChecked) =
     (if isChecked then Inr (VSet, isChecked)
      else if backwardKey x \<in> VSet then Inr (VSet, isChecked)
      else until_checked (backwardTodo ir ctx st Use x) (isCheckedBackwardF ir ctx st Use n)
             (backwardItems ir ctx x) (insert (backwardKey x) VSet, isChecked))"

definition isCheckedBackward ::
  "llvm \<Rightarrow> gctx \<Rightarrow> mc_state \<Rightarrow> ptr \<Rightarrow> use_t \<Rightarrow> ptr \<Rightarrow> ptr set \<Rightarrow> slice_state \<Rightarrow> uint32 \<Rightarrow> slice_state res"
where
  "isCheckedBackward ir ctx st F Use V Scope s Depth =
     isCheckedBackwardF ir ctx st Use (search_fuel ir) (F, V, Scope, Depth) s"

section \<open>Checked targets\<close>

text \<open>The state is \<open>TrackedSet\<close>, \<open>CTSet\<close> and \<open>CVSet\<close>; the sets but \<open>CTSet\<close> are local.\<close>

definition trackAll ::
  "llvm \<Rightarrow> gctx \<Rightarrow> ptr list \<Rightarrow> ptr set \<Rightarrow> ptr set res"
where
  "trackAll ir ctx opds CTSet =
     rbind (foldM (findInFuncSourceCV ir ctx) opds ({}, CTSet, {}))
       (\<lambda>(TrackedSet, CTSet, CVSet). Inr CTSet)"

definition identifyCheckedTargets :: "llvm \<Rightarrow> gctx \<Rightarrow> ptr \<Rightarrow> ptr \<Rightarrow> ptr set \<Rightarrow> ptr set res" where
  "identifyCheckedTargets ir ctx F V CTSet =
     (if isa ir ICmpInst V then trackAll ir ctx (operands ir V) CTSet
      else if isa ir BinaryOperator V then trackAll ir ctx (operands ir V) CTSet
      else if isa ir UnaryInstruction V then
        rbind (getOperand ir V 0) (\<lambda>SCOpd. trackAll ir ctx [SCOpd] CTSet)
      else if isa ir PHINode V then trackAll ir ctx (map fst (incoming ir V)) CTSet
      else if isa ir CallInst V then trackAll ir ctx (argOperands ir V) CTSet
      else Inr CTSet)"

definition identifyIndirectTargets :: "llvm \<Rightarrow> gctx \<Rightarrow> ptr \<Rightarrow> ptr \<Rightarrow> ptr set \<Rightarrow> ptr set res" where
  "identifyIndirectTargets ir ctx F V CTSet =
     (if \<not> isa ir CallInst V then Inr CTSet else trackAll ir ctx (argOperands ir V) CTSet)"

section \<open>Helpers that no analysis calls\<close>

definition collectAliasPointers :: "llvm \<Rightarrow> ptr \<Rightarrow> ptr \<Rightarrow> ptr set \<Rightarrow> ptr set res" where
  "collectAliasPointers ir F LI AliasSet =
     (let LPO = pointerOperand ir LI
      in if \<not> isa ir AllocaInst LPO then Inr AliasSet
         else foldM (\<lambda>SI S.
                if \<not> isa ir StoreInst SI then Inr S
                else if pointerOperand ir SI = LPO
                then rbind (possibleUseStResult ir LI SI)
                       (\<lambda>b. Inr (if b then insert (valueOperand ir SI) S else S))
                else Inr S) (instructions ir F) AliasSet)"

text \<open>\<open>MissingChecksPass::findSourceCV\<close>; an effect inserts into \<open>CVSet\<close>.\<close>

definition storedBefore :: "llvm \<Rightarrow> ptr set \<Rightarrow> ptr \<Rightarrow> ptr list" where
  "storedBefore ir reachBBs A =
     map (valueOperand ir)
       (filter (\<lambda>U. isa ir StoreInst U \<and> A = pointerOperand ir U \<and> getParent ir U \<in> reachBBs) (users ir A))"

definition checkedSourceTodo :: "llvm \<Rightarrow> gctx \<Rightarrow> ptr \<Rightarrow> (ptr + ptr) list res" where
  "checkedSourceTodo ir ctx V =
     (if isa ir ConstantExpr V then rbind (getOperand ir V 0) (\<lambda>op. Inr [Inl op])
      else if isa ir Argument V \<or> isa ir GlobalVariable V \<or> isa ir CallInst V then Inr [Inr V]
      else if isa ir Constant V then Inr []
      else if isa ir SelectInst V then Inr [Inl (trueValue ir V), Inl (falseValue ir V)]
      else if isa ir GetElementPtrInst V then Inr [Inl (pointerOperand ir V)]
      else if isa ir PHINode V then Inr (map (\<lambda>(IV, BB). Inl IV) (incoming ir V))
      else if isa ir LoadInst V then
        rbind (collectPredReachBlocks ir (getParent ir V) {}) (\<lambda>reachBBs.
          Inr (map Inl (concat (map (storedBefore ir reachBBs) (aliasList ir ctx V (pointerOperand ir V)))) @
               [Inl (pointerOperand ir V)]))
      else if isa ir ICmpInst V then Inr []
      else if isa ir UnaryInstruction V then rbind (getOperand ir V 0) (\<lambda>UO. Inr [Inl UO])
      else if isa ir BinaryOperator V then
        Inr (map Inl (filter (\<lambda>Opd. \<not> isa ir Constant Opd) (operands ir V)))
      else Inr [])"

fun checkedSourceCVF ::
  "llvm \<Rightarrow> gctx \<Rightarrow> nat \<Rightarrow> ptr \<Rightarrow> ptr set \<times> ptr set \<Rightarrow> (ptr set \<times> ptr set) res"
where
  "checkedSourceCVF ir ctx 0 V st = Inl Diverges"
| "checkedSourceCVF ir ctx (Suc n) V st =
     (if V \<in> fst st then Inr st
      else rbind (checkedSourceTodo ir ctx V)
        (\<lambda>ts. foldM (run_action (checkedSourceCVF ir ctx n) insert) ts (insert V (fst st), snd st)))"

definition checkedSourceCV ::
  "llvm \<Rightarrow> gctx \<Rightarrow> ptr \<Rightarrow> ptr set \<times> ptr set \<Rightarrow> (ptr set \<times> ptr set) res"
where
  "checkedSourceCV ir ctx V st = checkedSourceCVF ir ctx (search_fuel ir) V st"

text \<open>
  \<open>findClosestBranch\<close>. For an argument of an address-taken function the code inserts a local
  pointer it never sets. The search for a branch stops at the first one that it finds.
\<close>

definition parallelBranch :: "llvm \<Rightarrow> ptr \<Rightarrow> ptr \<Rightarrow> bool res" where
  "parallelBranch ir TB Pred =
     (let TI = terminator ir Pred
      in if length (succs ir TI) > 1 then
           anyM (\<lambda>Succ. if TB = Succ then Inr False
                        else rbind (collectSuccReachBlocks ir TB {}) (\<lambda>reachBBs. Inr (Succ \<in> reachBBs)))
             (successors ir Pred)
         else Inr False)"

fun closestPreds :: "llvm \<Rightarrow> ptr \<Rightarrow> ptr list \<Rightarrow> ptr list \<Rightarrow> (ptr list \<times> ptr option) res" where
  "closestPreds ir TB [] EB = Inr (EB, None)"
| "closestPreds ir TB (Pred # Preds) EB =
     rbind (parallelBranch ir TB Pred) (\<lambda>b.
       if b then Inr (EB, Some (terminator ir Pred)) else closestPreds ir TB Preds (EB @ [Pred]))"

definition findClosestBranch :: "llvm \<Rightarrow> gctx \<Rightarrow> ptr \<Rightarrow> ptr \<Rightarrow> ptr set \<Rightarrow> ptr set res" where
  "findClosestBranch ir ctx Src SC BrSet =
     (if isa ir CallInst Src then
        (let CF = calledFunction ir Src
         in if CF = NULL then Inr BrSet
            else (let CF = (if Callees ctx Src \<noteq> {} then firstCallee ir ctx Src else CF)
                  in if CF = NULL then Inr BrSet
                     else if blocks ir CF = [] then Inl OutOfRange
                     else Inr (insert (terminator ir (last (blocks ir CF))) BrSet)))
      else if isa ir Argument Src then
        (if \<not> hasAddressTaken ir (argParent ir Src) then Inr BrSet else Inl Uninitialised)
      else if \<not> isa ir Instruction SC then Inr BrSet
      else rbind (worklist (\<lambda>br. br \<noteq> None) (\<lambda>TB. TB)
                    (\<lambda>TB br. closestPreds ir TB (predecessors ir TB) []) [getParent ir SC] None)
             (\<lambda>(PB, br). Inr (case br of None \<Rightarrow> BrSet | Some TI \<Rightarrow> insert TI BrSet)))"

end
