(* ===== verification/MissingChecksPass.thy ===== *)
theory MissingChecksPass
  imports MissingChecks
begin

text \<open>
  The counting functions of \<open>MissingChecksPass\<close>, its module pass and the rating of the results.
  Loops over a \<open>set\<close> of pairs run in the order of the pairs, where the argument number is
  compared as a signed number.
\<close>

section \<open>The order of sources and uses\<close>

datatype src_key = SrcKey ptr int8

fun keyOf :: "src_key \<Rightarrow> src_t" where
  "keyOf (SrcKey v a) = (v, a)"

instantiation src_key :: linorder
begin

definition less_eq_src_key :: "src_key \<Rightarrow> src_key \<Rightarrow> bool" where
  "less_eq_src_key x y =
     (case (x, y) of (SrcKey v a, SrcKey w b) \<Rightarrow> v < w \<or> (v = w \<and> sint a \<le> sint b))"

definition less_src_key :: "src_key \<Rightarrow> src_key \<Rightarrow> bool" where
  "less_src_key x y =
     (case (x, y) of (SrcKey v a, SrcKey w b) \<Rightarrow> v < w \<or> (v = w \<and> sint a < sint b))"

instance
  by standard (auto simp: less_eq_src_key_def less_src_key_def split: src_key.splits intro: signed_word_eqI)

end

definition inOrder :: "src_t set \<Rightarrow> src_t list" where
  "inOrder S = map keyOf (sorted_list_of_set ((\<lambda>(v, a). SrcKey v a) ` S))"

lemma set_inOrder: "finite S \<Longrightarrow> set (inOrder S) = S"
  by (force simp: inOrder_def image_iff)

section \<open>Stage 1: counting checks\<close>

text \<open>The callee that stands for a call: the first resolved one, if there is any.\<close>

definition representative :: "llvm \<Rightarrow> gctx \<Rightarrow> ptr \<Rightarrow> ptr" where
  "representative ir ctx CI =
     (let CF = calledFunction ir CI
      in if CF = NULL then NULL
         else if Callees ctx CI \<noteq> {} then firstCallee ir ctx CI else CF)"

definition countCheck ::
  "llvm \<Rightarrow> ptr \<Rightarrow> ptr \<Rightarrow> int8 \<Rightarrow> (src_t \<Rightarrow> model_sc \<Rightarrow> mc_state \<Rightarrow> mc_state) \<Rightarrow> mc_state \<Rightarrow> mc_state res"
where
  "countCheck ir SCI SrcUse ArgNo add st =
     rbind (modelCheck ir (if isa ir CmpInst SCI then SCI else NULL) SrcUse ArgNo)
       (\<lambda>MSC. Inr (add (SrcUse, ArgNo) MSC st))"

definition countArgumentSource ::
  "llvm \<Rightarrow> gctx \<Rightarrow> ptr \<Rightarrow> ptr \<Rightarrow> ptr \<Rightarrow> mc_state \<Rightarrow> mc_state res"
where
  "countArgumentSource ir ctx F SCI Arg st =
     (if \<not> hasAddressTaken ir F then Inr st
      else (let ArgNo = argNoFrom (-1) Arg (args ir F)
            in foldM (\<lambda>CI st.
                 if calledFunction ir CI \<noteq> NULL then Inr st
                 else countCheck ir SCI CI ArgNo addSrcCheck st)
               (smallSetOrder ir (Callers ctx F)) st))"

definition countCallSource :: "llvm \<Rightarrow> gctx \<Rightarrow> ptr \<Rightarrow> ptr \<Rightarrow> mc_state \<Rightarrow> mc_state res" where
  "countCallSource ir ctx SCI CI st =
     (let CF = representative ir ctx CI
      in if CF = NULL then Inr st else countCheck ir SCI CF (-1) addSrcCheck st)"

definition countOutputUser ::
  "llvm \<Rightarrow> gctx \<Rightarrow> ptr \<Rightarrow> ptr set \<Rightarrow> ptr \<Rightarrow> ptr \<Rightarrow> mc_state \<Rightarrow> mc_state res"
where
  "countOutputUser ir ctx SCI predBBs CT U st =
     (if \<not> isa ir CallInst U then Inr st
      else if getParent ir U \<notin> predBBs then Inr st
      else (let ArgNo = callArgNo ir U CT
            in if ArgNo = -1 then Inr st
               else (let CF = representative ir ctx U
                     in if CF = NULL then Inr st else countCheck ir SCI CF ArgNo addSrcCheck st)))"

definition countSource ::
  "llvm \<Rightarrow> gctx \<Rightarrow> ptr \<Rightarrow> ptr \<Rightarrow> ptr set \<Rightarrow> ptr \<Rightarrow> mc_state \<Rightarrow> mc_state res"
where
  "countSource ir ctx F SCI predBBs CT st =
     (if isa ir Argument CT then countArgumentSource ir ctx F SCI CT st
      else if isa ir CallInst CT then countCallSource ir ctx SCI CT st
      else foldM (countOutputUser ir ctx SCI predBBs CT) (users ir CT) st)"

definition countUse :: "llvm \<Rightarrow> gctx \<Rightarrow> ptr \<Rightarrow> use_t \<Rightarrow> mc_state \<Rightarrow> mc_state res" where
  "countUse ir ctx SCI Use st =
     (if \<not> isa ir CallInst (fst Use) then Inr st
      else (let CF = representative ir ctx (fst Use)
            in if CF = NULL then Inr st else countCheck ir SCI CF (snd Use) addUseCheck st))"

text \<open>\<open>UseMap\<close> as the list of its entries, in the order of the targets.\<close>

definition collectUses :: "llvm \<Rightarrow> gctx \<Rightarrow> ptr \<Rightarrow> ptr list \<Rightarrow> (ptr \<times> use_t set) list res" where
  "collectUses ir ctx SCI CTs =
     foldM (\<lambda>CT UseMap. rbind (findUses ir ctx SCI CT ({}, {}))
         (\<lambda>(Visited, UseSet). Inr (if UseSet = {} then UseMap else UseMap @ [(CT, UseSet)])))
       CTs []"

definition countSrcUseChecks :: "llvm \<Rightarrow> gctx \<Rightarrow> ptr \<Rightarrow> ptr \<Rightarrow> mc_state \<Rightarrow> mc_state res" where
  "countSrcUseChecks ir ctx F SCI st =
     rbind (identifyCheckedTargets ir ctx F SCI {}) (\<lambda>TmpSet.
       let CTSet = {CT \<in> TmpSet. \<not> isa ir Constant CT \<and> \<not> isa ir GlobalVariable CT};
           CTs = sorted_list_of_set CTSet
       in if CTSet = {} then Inr st
          else rbind (collectPredReachBlocks ir (getParent ir SCI) {}) (\<lambda>predBBs.
            rbind (foldM (countSource ir ctx F SCI predBBs) CTs st) (\<lambda>st.
            rbind (collectUses ir ctx SCI CTs) (\<lambda>UseMap.
              foldM (\<lambda>UM st. foldM (countUse ir ctx SCI) (inOrder (snd UM)) st) UseMap st))))"

section \<open>Stage 2: counting unchecks\<close>

text \<open>
  A loop counter of type \<open>int8_t\<close> is compared with an unsigned count. From 127 it steps to -128,
  which compares as \<open>2 ^ 32 - 128\<close>, so the loop over \<open>n\<close> arguments sees at most 128 of them.
\<close>

definition argNumbers :: "nat \<Rightarrow> int8 list" where
  "argNumbers n = map of_nat [0..<min n 128]"

text \<open>The loop over the slices ends at the first one that is checked; they share \<open>VSet\<close>.\<close>

fun forwardSlices ::
  "llvm \<Rightarrow> gctx \<Rightarrow> mc_state \<Rightarrow> ptr \<Rightarrow> src_t \<Rightarrow> ptr set \<Rightarrow> ptr list \<Rightarrow> slice_state \<Rightarrow> slice_state res"
where
  "forwardSlices ir ctx st F Src reachBBs [] s = Inr s"
| "forwardSlices ir ctx st F Src reachBBs (TV # TVs) s =
     rbind (isCheckedForward ir ctx st F Src TV reachBBs s) (\<lambda>s.
       if snd s then Inr s else forwardSlices ir ctx st F Src reachBBs TVs s)"

definition loadsOf :: "llvm \<Rightarrow> ptr set \<Rightarrow> ptr set \<Rightarrow> ptr set" where
  "loadsOf ir reachBBs AliasSet =
     (\<Union>A \<in> AliasSet. set (filter (\<lambda>LI. isa ir LoadInst LI \<and> getParent ir LI \<in> reachBBs) (users ir A)))"

definition countSrc :: "bool \<Rightarrow> src_t \<Rightarrow> ptr \<Rightarrow> mc_state \<Rightarrow> mc_state" where
  "countSrc isChecked Src V st =
     (let st = (if \<not> isChecked then addSrcUncheck Src V st else st)
      in st\<lparr>SrcTotalCount := (SrcTotalCount st)(Src := SrcTotalCount st Src + 1)\<rparr>)"

definition countUseOf :: "bool \<Rightarrow> use_t \<Rightarrow> ptr \<Rightarrow> mc_state \<Rightarrow> mc_state" where
  "countUseOf isChecked Use V st =
     (let st = (if \<not> isChecked then addUseUncheck Use V st else st)
      in st\<lparr>UseTotalCount := (UseTotalCount st)(Use := UseTotalCount st Use + 1)\<rparr>)"

text \<open>One callee of an indirect call; the slicing uses the function of the call.\<close>

definition uncheckedCallee ::
  "llvm \<Rightarrow> gctx \<Rightarrow> ptr \<Rightarrow> ptr \<Rightarrow> int8 \<Rightarrow> ptr \<Rightarrow> mc_state \<Rightarrow> mc_state res"
where
  "uncheckedCallee ir ctx F CI ArgNo Callee st =
     (let Src = src_c CI ArgNo; PArg = getArgByNo ir Callee ArgNo
      in if length (blocks ir Callee) < 1 then Inr st
         else rbind (collectSuccReachBlocks ir (hd (blocks ir Callee)) {}) (\<lambda>reachBBs.
           if PArg = NULL then Inl NullDeref
           else (let ToTrackSet = insert PArg
                   (if isPointerTy ir (typeOf ir PArg)
                    then loadsOf ir reachBBs (getAliasPointers PArg (FuncPAResults ctx Callee)) else {})
                 in rbind (forwardSlices ir ctx st F Src reachBBs (sorted_list_of_set ToTrackSet) ({}, False))
                      (\<lambda>(VSet, isChecked). Inr (countSrc isChecked Src PArg st)))))"

definition uncheckedIndirectCall :: "llvm \<Rightarrow> gctx \<Rightarrow> ptr \<Rightarrow> ptr \<Rightarrow> mc_state \<Rightarrow> mc_state res" where
  "uncheckedIndirectCall ir ctx F CI st =
     foldM (\<lambda>ArgNo st.
         if src_c CI ArgNo \<notin> CheckedSrcSet st then Inr st
         else foldM (uncheckedCallee ir ctx F CI ArgNo) (smallSetOrder ir (Callees ctx CI)) st)
       (argNumbers (length (argOperands ir CI))) st"

definition ignoredFunctions :: "string list" where
  "ignoredFunctions =
     [''outb'', ''__const_udelay'', ''__udelay'', ''scnprintf'', ''__fswab16'', ''__fswab32'']"

text \<open>
  The \<open>do\<close> loop over the return value (-1) and the parameters: it leaves at the first number
  that is no argument of the call, and after the last parameter of the function.
\<close>

definition retAndArgNumbers :: "nat \<Rightarrow> nat \<Rightarrow> int8 list" where
  "retAndArgNumbers numArgs argSize = -1 # argNumbers (min numArgs argSize)"

definition uncheckedSource ::
  "llvm \<Rightarrow> gctx \<Rightarrow> ptr \<Rightarrow> ptr \<Rightarrow> ptr \<Rightarrow> int8 \<Rightarrow> mc_state \<Rightarrow> mc_state res"
where
  "uncheckedSource ir ctx F CI CF ArgNo st =
     rbind (if ArgNo = -1 then Inr NULL else getOperand ir CI (unat (scast ArgNo :: uint32))) (\<lambda>Param.
       if ArgNo = -1 \<and> users ir CI = [] then Inr st
       else if ArgNo \<noteq> -1 \<and> \<not> isPointerTy ir (typeOf ir Param) then Inr st
       else (let Src = src_c CF ArgNo
             in if Src \<notin> CheckedSrcSet st then Inr st
                else rbind (collectSuccReachBlocks ir (getParent ir CI) {}) (\<lambda>reachBBs.
                  rbind (if ArgNo = -1
                         then isCheckedForward ir ctx st F Src CI reachBBs ({}, False)
                         else forwardSlices ir ctx st F Src reachBBs
                                (sorted_list_of_set
                                  (loadsOf ir reachBBs (getAliasPointers Param (FuncPAResults ctx F))))
                                ({}, False))
                    (\<lambda>(VSet, isChecked). Inr (countSrc isChecked Src CI st)))))"

definition uncheckedUse ::
  "llvm \<Rightarrow> gctx \<Rightarrow> ptr \<Rightarrow> ptr \<Rightarrow> ptr \<Rightarrow> int8 \<Rightarrow> mc_state \<Rightarrow> mc_state res"
where
  "uncheckedUse ir ctx F CI CF ArgNo st =
     (let Use = use_c CF ArgNo
      in if Use \<notin> CheckedUseSet st then Inr st
         else rbind (getArgOperand ir CI ArgNo) (\<lambda>Arg.
           rbind (collectPredReachBlocks ir (getParent ir CI) {}) (\<lambda>reachBBs.
             rbind (isCheckedBackward ir ctx st F Use Arg (reachBBs - {getParent ir CI}) ({}, False) 1)
               (\<lambda>(VSet, isChecked). Inr (countUseOf isChecked Use Arg st)))))"

definition uncheckedCall :: "llvm \<Rightarrow> gctx \<Rightarrow> ptr \<Rightarrow> ptr \<Rightarrow> mc_state \<Rightarrow> mc_state res" where
  "uncheckedCall ir ctx F CI st =
     (if \<not> isa ir CallInst CI then Inr st
      else if isIndirectCall ir CI then uncheckedIndirectCall ir ctx F CI st
      else if intrinsicID ir CI \<noteq> 0 then Inr st
      else if users ir CI = [] \<and> length (argOperands ir CI) = 0 then Inr st
      else (let CF = (if Callees ctx CI \<noteq> {} then firstCallee ir ctx CI else NULL)
            in if CF = NULL then Inr st
               else if nameOf ir CF \<in> set ignoredFunctions then Inr st
               else rbind (foldM (uncheckedSource ir ctx F CI CF)
                       (retAndArgNumbers (length (argOperands ir CI)) (length (args ir CF))) st)
                      (\<lambda>st. foldM (uncheckedUse ir ctx F CI CF)
                              (argNumbers (length (argOperands ir CI))) st)))"

definition countSrcUseUnchecks :: "llvm \<Rightarrow> gctx \<Rightarrow> ptr \<Rightarrow> mc_state \<Rightarrow> mc_state res" where
  "countSrcUseUnchecks ir ctx F st = foldM (uncheckedCall ir ctx F) (instructions ir F) st"

section \<open>The module pass\<close>

definition MAX_STAGE :: int where "MAX_STAGE = 2"

definition missingFunction :: "llvm \<Rightarrow> gctx \<Rightarrow> ptr \<Rightarrow> mc_state \<Rightarrow> mc_state res" where
  "missingFunction ir ctx F st =
     (if blocks ir F = [] then Inr st
      else if length (blocks ir F) > MAX_BLOCKS_SUPPORT then Inr st
      else if F \<notin> UnifiedFuncSet ctx then Inr st
      else if AnalysisStage st = 1 then
        (let SCSet = CheckInstSets ctx F
         in if SCSet = {} then Inr st
            else foldM (\<lambda>SC st. if \<not> isa ir CmpInst SC then Inr st
                                else countSrcUseChecks ir ctx F SC st) (sorted_list_of_set SCSet) st)
      else if AnalysisStage st = 2 then countSrcUseUnchecks ir ctx F st
      else Inr st)"

text \<open>The stage ends with the last module; the result asks the driver for another sweep.\<close>

definition endOfStage :: "gctx \<Rightarrow> mc_state \<Rightarrow> bool \<times> mc_state" where
  "endOfStage ctx st =
     (if (of_nat (length (Modules ctx)) :: size_t) = scast (MIdx st) then
        (let st = st\<lparr>AnalysisStage := AnalysisStage st + 1, MIdx := 0\<rparr>
         in if sint (AnalysisStage st) \<le> MAX_STAGE then (True, st) else (False, st))
      else (False, st))"

definition MissingChecks_doModulePass ::
  "llvm \<Rightarrow> gctx \<Rightarrow> ptr \<Rightarrow> mc_state \<Rightarrow> (bool \<times> mc_state) res"
where
  "MissingChecks_doModulePass ir ctx M st =
     rbind (foldM (missingFunction ir ctx) (moduleFunctions ir M) (st\<lparr>MIdx := MIdx st + 1\<rparr>))
       (\<lambda>st. Inr (endOfStage ctx st))"

definition MissingChecksPass :: "llvm \<Rightarrow> gctx \<Rightarrow> mc_state pass" where
  "MissingChecksPass ir ctx =
     \<lparr> doInitialization = (\<lambda>M st. Inr (False, st)),
       doModulePass = MissingChecks_doModulePass ir ctx,
       doFinalization = (\<lambda>M st. Inr (False, st)) \<rparr>"

end
