(* ===== verification/MissingResults.thy ===== *)
theory MissingResults
  imports MissingChecksPass
begin

text \<open>
  \<open>MissingChecksPass::processResults\<close>: the rating of the checked sources and uses. The rating is
  a single-precision quotient that is compared with a double-precision constant, so it is
  modelled with its rounding. A float is a pair of a 24-bit significand and an exponent.
\<close>

section \<open>Single precision\<close>

type_synonym float32 = "nat \<times> int"  \<comment> \<open>\<open>(m, e)\<close> stands for \<open>m * 2 ^ e\<close>\<close>

text \<open>The quotient of two naturals, rounded to the nearest, ties to even.\<close>

definition roundDiv :: "nat \<Rightarrow> nat \<Rightarrow> nat" where
  "roundDiv n d =
     (let q = n div d; r = n mod d
      in if 2 * r < d \<or> (2 * r = d \<and> even q) then q else q + 1)"

text \<open>
  Scaling of \<open>n / d\<close> into the range from \<open>2 ^ 23\<close> to \<open>2 ^ 24\<close>. The quotients of the program lie
  between \<open>2 ^ -32\<close> and \<open>2 ^ 32\<close>: 64 doublings are enough.
\<close>

fun scaleUp :: "nat \<Rightarrow> nat \<Rightarrow> nat \<Rightarrow> int \<Rightarrow> nat \<times> nat \<times> int" where
  "scaleUp 0 n d e = (n, d, e)"
| "scaleUp (Suc k) n d e = (if 2 ^ 23 * d \<le> n then (n, d, e) else scaleUp k (2 * n) d (e - 1))"

fun scaleDown :: "nat \<Rightarrow> nat \<Rightarrow> nat \<Rightarrow> int \<Rightarrow> nat \<times> nat \<times> int" where
  "scaleDown 0 n d e = (n, d, e)"
| "scaleDown (Suc k) n d e = (if n < 2 ^ 24 * d then (n, d, e) else scaleDown k n (2 * d) (e + 1))"

definition float32_of :: "nat \<Rightarrow> nat \<Rightarrow> float32" where
  "float32_of n d =
     (if n = 0 then (0, 0)
      else (let (n, d, e) = scaleUp 64 n d 0; (n, d, e) = scaleDown 64 n d e
            in (roundDiv n d, e)))"

definition float32_div :: "float32 \<Rightarrow> float32 \<Rightarrow> float32" where
  "float32_div x y =
     (let (m, e) = float32_of (fst x) (fst y) in (m, e + snd x - snd y))"

text \<open>Comparison with a double \<open>c / 2 ^ k\<close>.\<close>

definition float32_exceeds :: "float32 \<Rightarrow> nat \<Rightarrow> nat \<Rightarrow> bool" where
  "float32_exceeds x c k =
     (let e = snd x + int k
      in if 0 \<le> e then c < fst x * 2 ^ nat e else c * 2 ^ nat (- e) < fst x)"

text \<open>The doubles 0.3 and 0.1.\<close>

definition exceeds_3_10 :: "float32 \<Rightarrow> bool" where
  "exceeds_3_10 x = float32_exceeds x 5404319552844595 54"

definition exceeds_1_10 :: "float32 \<Rightarrow> bool" where
  "exceeds_1_10 x = float32_exceeds x 7205759403792794 56"

definition rate :: "uint32 \<Rightarrow> uint32 \<Rightarrow> float32" where
  "rate Unchecks TotalN = float32_div (float32_of (unat Unchecks) 1) (float32_of (unat TotalN) 1)"

section \<open>Reports\<close>

datatype source_type = retval | argmt | param

text \<open>One printed report: what it rates, the numbers, and the unchecked values it lists.\<close>

record report =
  rType :: "source_type option"  \<comment> \<open>\<open>None\<close>: a use\<close>
  rRating :: float32
  rChecks :: uint32
  rUnchecks :: uint32
  rTotal :: uint32
  rArgNo :: int8
  rValues :: "ptr list"

text \<open>The numbers of an entry: checks, unchecks and total (\<open>TotalN\<close>).\<close>

definition entryCounts ::
  "('k \<rightharpoonup> uint32) \<Rightarrow> ('k \<rightharpoonup> uint32) \<Rightarrow> ('k \<Rightarrow> uint32) \<Rightarrow> 'k \<Rightarrow> uint32 \<times> uint32 \<times> uint32"
where
  "entryCounts CheckCount UncheckCount TotalCount k =
     (let (Checks, TotalN) = (case CheckCount k of Some n \<Rightarrow> (n, TotalCount k) | None \<Rightarrow> (0, 0));
          Unchecks = (case UncheckCount k of Some n \<Rightarrow> n | None \<Rightarrow> 0)
      in (Checks, Unchecks, if Checks + Unchecks < TotalN then Checks + Unchecks else TotalN))"

definition srcType :: "llvm \<Rightarrow> src_t \<Rightarrow> source_type" where
  "srcType ir Src =
     (if snd Src = -1 then retval else if isa ir CallInst (fst Src) then argmt else param)"

definition reportSrc :: "llvm \<Rightarrow> mc_state \<Rightarrow> src_t \<Rightarrow> report list" where
  "reportSrc ir st Src =
     (let (Checks, Unchecks, TotalN) =
        entryCounts (SrcCheckCount st) (SrcUncheckCount st) (SrcTotalCount st) Src
      in if Checks \<noteq> 0 \<and> Unchecks \<noteq> 0 then
           (let Rating = rate Unchecks TotalN
            in if exceeds_3_10 Rating then []
               else [\<lparr> rType = Some (srcType ir Src), rRating = Rating, rChecks = Checks,
                       rUnchecks = Unchecks, rTotal = TotalN, rArgNo = snd Src,
                       rValues = sorted_list_of_set (SrcUnchecksMap st Src) \<rparr>])
         else [])"

definition reportUse :: "mc_state \<Rightarrow> use_t \<Rightarrow> report list" where
  "reportUse st Use =
     (let (Checks, Unchecks, TotalN) =
        entryCounts (UseCheckCount st) (UseUncheckCount st) (UseTotalCount st) Use
      in if Checks \<noteq> 0 \<and> Unchecks \<noteq> 0 then
           (let Rating = rate Unchecks TotalN
            in if exceeds_1_10 Rating then []
               else [\<lparr> rType = None, rRating = Rating, rChecks = Checks,
                       rUnchecks = Unchecks, rTotal = TotalN, rArgNo = snd Use,
                       rValues = sorted_list_of_set (UseUnchecksMap st Use) \<rparr>])
         else [])"

definition processResults :: "llvm \<Rightarrow> mc_state \<Rightarrow> report list" where
  "processResults ir st =
     concat (map (reportSrc ir st) (inOrder (CheckedSrcSet st))) @
     concat (map (reportUse st) (inOrder (CheckedUseSet st)))"

end
