(* ===== verification/DataFlowTheorems.thy ===== *)
theory DataFlowTheorems
  imports DataFlow
begin

text \<open>
  The searches of the data-flow analysis as instances of \<open>depth_first\<close> and \<open>worklist_find\<close>:
  each returns, and what it collects is described by reachability in a successor relation that
  is read off the actions of one call (\<open>calls\<close>, \<open>effects\<close>).
\<close>

section \<open>Values of a loaded module\<close>

text \<open>
  What LLVM documents of the values the searches visit: the object graph is closed, a unary
  instruction and a constant expression have an operand, a binary operator and a comparison
  have two, the operands of a call start with its arguments. No value is in two of the classes
  the searches distinguish. The alias sets hold objects of the graph.
\<close>

definition value_classes :: "llvm_class list" where
  "value_classes = [Constant, Argument, CallInst, SelectInst, GetElementPtrInst, PHINode, UnaryInstruction,
     StoreInst, CmpInst, BinaryOperator, SwitchInst, ReturnInst]"

definition wf_values :: "llvm \<Rightarrow> gctx \<Rightarrow> bool" where
  "wf_values ir ctx \<longleftrightarrow> wf_heap ir \<and> wf_classes ir \<and>
     (\<forall>v \<in> set (heap ir).
        (isa ir UnaryInstruction v \<or> isa ir ConstantExpr v \<longrightarrow> 0 < length (operands ir v)) \<and>
        (isa ir BinaryOperator v \<or> isa ir CmpInst v \<longrightarrow> 1 < length (operands ir v)) \<and>
        (isa ir CallInst v \<longrightarrow>
           length (argOperands ir v) \<le> length (operands ir v) \<and>
           take (length (argOperands ir v)) (operands ir v) = argOperands ir v)) \<and>
     NULL \<notin> set (heap ir) \<and> (\<forall>v. \<not> (isa ir LoadInst v \<and> isa ir AllocaInst v)) \<and>
     (\<forall>v. \<forall>k \<in> set value_classes. \<forall>k' \<in> set value_classes. isa ir k v \<longrightarrow> isa ir k' v \<longrightarrow> k = k') \<and>
     (\<forall>F p S. FuncPAResults ctx F p = Some S \<longrightarrow> S \<subseteq> set (heap ir))"

lemma wf_valuesD:
  assumes "wf_values ir ctx"
  shows "wf_heap ir" "wf_classes ir"
    and "\<And>F p S. FuncPAResults ctx F p = Some S \<Longrightarrow> S \<subseteq> set (heap ir)"
  using assms unfolding wf_values_def by blast+

lemma wf_valuesD_null: "wf_values ir ctx \<Longrightarrow> v \<in> set (heap ir) \<Longrightarrow> v \<noteq> NULL"
  unfolding wf_values_def by metis

lemma wf_valuesD_load: "wf_values ir ctx \<Longrightarrow> isa ir LoadInst v \<Longrightarrow> \<not> isa ir AllocaInst v"
  unfolding wf_values_def by blast

lemma wf_valuesD_class:
  "wf_values ir ctx \<Longrightarrow> isa ir k v \<Longrightarrow> isa ir k' v \<Longrightarrow> k \<in> set value_classes \<Longrightarrow>
   k' \<in> set value_classes \<Longrightarrow> k = k'"
  unfolding wf_values_def by blast

lemma wf_operandsD:
  assumes "wf_values ir ctx" "v \<in> set (heap ir)"
  shows "isa ir UnaryInstruction v \<or> isa ir ConstantExpr v \<Longrightarrow> 0 < length (operands ir v)"
    and "isa ir BinaryOperator v \<or> isa ir CmpInst v \<Longrightarrow> 1 < length (operands ir v)"
    and "isa ir CallInst v \<Longrightarrow> length (argOperands ir v) \<le> length (operands ir v)"
    and "isa ir CallInst v \<Longrightarrow> take (length (argOperands ir v)) (operands ir v) = argOperands ir v"
  using assms unfolding wf_values_def by blast+

lemma getOperand_Inr: "i < length (operands ir v) \<Longrightarrow> getOperand ir v i = Inr (operands ir v ! i)"
  by (simp add: getOperand_def)

lemma getOperand_heap:
  assumes "wf_heap ir" "v \<in> set (heap ir)" "getOperand ir v i = Inr w"
  shows "w \<in> set (heap ir)"
  using assms(3) wf_heapD(2) [OF assms(1,2)]
  by (auto simp: getOperand_def split: if_splits)

lemma getArgOperand_heap:
  assumes "wf_heap ir" "v \<in> set (heap ir)" "getArgOperand ir v i = Inr w"
  shows "w \<in> set (heap ir)"
  using assms(3) wf_heapD(3) [OF assms(1,2)]
  by (auto simp: getArgOperand_def Let_def split: if_splits)

text \<open>The alias set of a pointer is finite, so its list has the same elements.\<close>

lemma set_aliasList:
  assumes "wf_values ir ctx"
  shows "set (aliasList ir ctx I p) =
    getAliasPointers p (FuncPAResults ctx (blockParent ir (getParent ir I)))"
proof -
  have "finite S" if "FuncPAResults ctx F p = Some S" for F S
    using wf_valuesD(3) [OF assms that] by (rule finite_subset) simp
  then show ?thesis
    by (auto simp: aliasList_def getAliasPointers_def split: option.splits)
qed

lemma aliasList_heap:
  assumes "wf_values ir ctx" "p \<in> set (heap ir)"
  shows "set (aliasList ir ctx I p) \<subseteq> set (heap ir)"
  using wf_valuesD(3) [OF assms(1)] assms(2)
  by (auto simp: set_aliasList [OF assms(1)] getAliasPointers_def split: option.splits)

section \<open>Argument numbers\<close>

text \<open>The loop finds the first argument equal to the value, or ends at the last argument.\<close>

lemma argNoFrom_first:
  "A \<in> set as \<Longrightarrow> \<exists>i < length as. as ! i = A \<and> A \<notin> set (take i as) \<and>
     argNoFrom n A as = n + of_nat (Suc i)"
proof (induction as arbitrary: n)
  case (Cons a as)
  show ?case
  proof (cases "A = a")
    case False
    with Cons.prems have "A \<in> set as" by simp
    from Cons.IH [OF this, of "n + 1"] obtain i where i: "i < length as" "as ! i = A"
        "A \<notin> set (take i as)" "argNoFrom (n + 1) A as = n + 1 + of_nat (Suc i)" by blast
    with False show ?thesis by (intro exI [of _ "Suc i"]) simp
  qed (simp add: exI [of _ 0])
qed simp

lemma argNoFrom_missing: "A \<notin> set as \<Longrightarrow> argNoFrom n A as = n + of_nat (length as)"
  by (induction as arbitrary: n) auto

lemma callArgNo_argument:
  assumes "A \<in> set (argOperands ir CI)"
  shows "\<exists>i < length (argOperands ir CI). argOperands ir CI ! i = A \<and>
    A \<notin> set (take i (argOperands ir CI)) \<and> callArgNo ir CI A = of_nat i"
  using argNoFrom_first [OF assms, of "-1"] by (auto simp: callArgNo_def)

lemma callArgNo_other:
  "A \<notin> set (argOperands ir CI) \<Longrightarrow> callArgNo ir CI A = of_nat (length (argOperands ir CI)) - 1"
  by (simp add: callArgNo_def argNoFrom_missing)

lemma unat_small_int8:
  assumes "i < 128"
  shows "unat (scast (of_nat i :: int8) :: uint32) = i"
proof -
  have "sint (of_nat i :: int8) = int i"
    using assms by (simp add: signed_of_nat) (simp add: signed_take_bit_int_eq_self)
  then have "(scast (of_nat i :: int8) :: uint32) = of_nat i" by (simp add: scast_eq)
  then show ?thesis using assms by (simp add: unsigned_of_nat take_bit_nat_eq_self)
qed

lemma callArgNo_in_range:
  assumes "argOperands ir CI \<noteq> []" "length (argOperands ir CI) \<le> 128"
  shows "unat (scast (callArgNo ir CI A) :: uint32) < length (argOperands ir CI)"
proof (cases "A \<in> set (argOperands ir CI)")
  case True
  from callArgNo_argument [OF this] obtain i where "i < length (argOperands ir CI)"
      "callArgNo ir CI A = of_nat i" by blast
  with assms(2) show ?thesis by (simp add: unat_small_int8)
next
  case False
  have "(of_nat (length (argOperands ir CI)) - 1 :: int8) = of_nat (length (argOperands ir CI) - 1)"
    using assms(1) by (simp add: of_nat_diff Suc_leI)
  with False assms show ?thesis
    by (simp add: callArgNo_other unat_small_int8 less_le_trans [OF diff_less])
qed

section \<open>Reachable blocks\<close>

text \<open>
  The two block searches collect nothing but the visited set. They are instances of
  \<open>depth_first_id\<close> with a trivial second state.
\<close>

definition withUnit :: "(nat \<Rightarrow> 'b \<Rightarrow> 'b set \<Rightarrow> 'b set res) \<Rightarrow> nat \<Rightarrow> 'b \<Rightarrow> 'b set \<times> unit \<Rightarrow> ('b set \<times> unit) res"
where
  "withUnit f n x st = rbind (f n x (fst st)) (\<lambda>V. Inr (V, ()))"

lemma foldM_withUnit:
  "foldM (run_action (withUnit f n) (\<lambda>_ _. ())) (map Inl xs) (V, ()) =
     rbind (foldM (f n) xs V) (\<lambda>V. Inr (V, ()))"
proof (induction xs arbitrary: V)
  case (Cons x xs)
  then show ?case by (cases "f n x V") (simp_all add: withUnit_def)
qed simp

definition blockTodo :: "(ptr \<Rightarrow> ptr list) \<Rightarrow> ptr \<Rightarrow> (ptr + unit) list" where
  "blockTodo f b = map Inl (f b)"

lemma calls_blockTodo [simp]: "calls (blockTodo f b) = set (f b)" "effects (blockTodo f b) = {}"
  by (simp_all add: blockTodo_def)

interpretation succ_blocks: depth_first_id "blockTodo (successors ir)" "\<lambda>_ _. ()" "\<lambda>_. UNIV"
  "withUnit (collectSuccReachBlocksF ir)" "set (heap ir)" "\<lambda>b. wf_heap ir \<and> b \<in> set (heap ir)" for ir
  by unfold_locales
     (auto simp: withUnit_def [of _ "Suc n" for n] blockTodo_def foldM_withUnit dest: wf_heapD(5))

interpretation pred_blocks: depth_first_id "blockTodo (predecessors ir)" "\<lambda>_ _. ()" "\<lambda>_. UNIV"
  "withUnit (collectPredReachBlocksF ir)" "set (heap ir)" "\<lambda>b. wf_heap ir \<and> b \<in> set (heap ir)" for ir
  by unfold_locales
     (auto simp: withUnit_def [of _ "Suc n" for n] blockTodo_def foldM_withUnit dest: wf_heapD(6))

lemma heap_fuel: "card (set (heap ir)) < search_fuel ir"
  by (simp add: search_fuel_def)

lemma nxt_blocks: "succ_blocks.nxt ir = (\<lambda>b. set (successors ir b))"
  "pred_blocks.nxt ir = (\<lambda>b. set (predecessors ir b))"
  by (simp_all add: succ_blocks.nxt_def pred_blocks.nxt_def fun_eq_iff)

lemma collectSuccReachBlocks_eq:
  assumes "wf_heap ir" "b \<in> set (heap ir)"
  shows "collectSuccReachBlocks ir b {} = Inr (reach_set (\<lambda>b. set (successors ir b)) {b})"
  using succ_blocks.visit_reaches_start [OF _ heap_fuel, of ir b "()"] assms
  by (auto simp: nxt_blocks withUnit_def collectSuccReachBlocks_def returns_iff rbind_Inr_iff)

lemma collectPredReachBlocks_eq:
  assumes "wf_heap ir" "b \<in> set (heap ir)"
  shows "collectPredReachBlocks ir b {} = Inr (reach_set (\<lambda>b. set (predecessors ir b)) {b})"
  using pred_blocks.visit_reaches_start [OF _ heap_fuel, of ir b "()"] assms
  by (auto simp: nxt_blocks withUnit_def collectPredReachBlocks_def returns_iff rbind_Inr_iff)

text \<open>
  In a well-formed control-flow graph backward reachability is the converse of forward
  reachability.
\<close>

lemma reach_blocks_closed:
  assumes "wf_cfg ir F" "b \<in> set (blocks ir F)"
  shows "reach_set (\<lambda>b. set (successors ir b)) {b} \<subseteq> set (blocks ir F)"
    and "reach_set (\<lambda>b. set (predecessors ir b)) {b} \<subseteq> set (blocks ir F)"
proof -
  show "reach_set (\<lambda>b. set (successors ir b)) {b} \<subseteq> set (blocks ir F)"
    by (rule reach_set_least) (use assms(2) wf_cfgD(2) [OF assms(1)] in simp_all)
  show "reach_set (\<lambda>b. set (predecessors ir b)) {b} \<subseteq> set (blocks ir F)"
    by (rule reach_set_least) (use assms(2) wf_cfgD(3) [OF assms(1)] in simp_all)
qed

lemma reach_pred_iff_succ:
  assumes wf: "wf_cfg ir F" and bs: "b \<in> set (blocks ir F)" "c \<in> set (blocks ir F)"
  shows "c \<in> reach_set (\<lambda>b. set (predecessors ir b)) {b} \<longleftrightarrow>
    b \<in> reach_set (\<lambda>b. set (successors ir b)) {c}"
proof
  let ?P = "reach_set (\<lambda>b. set (predecessors ir b)) {b}"
  assume "c \<in> ?P"
  then show "b \<in> reach_set (\<lambda>b. set (successors ir b)) {c}"
  proof (induction rule: reach_set_induct)
    case (base x)
    then show ?case by (simp add: reach_set_base)
  next
    case (step x y)
    have x: "x \<in> set (blocks ir F)" by (rule subsetD [OF reach_blocks_closed(2) [OF wf bs(1)] step.hyps(1)])
    have y: "y \<in> set (blocks ir F)" by (rule subsetD [OF wf_cfgD(3) [OF wf x] step.hyps(2)])
    have "x \<in> set (successors ir y)" by (rule iffD1 [OF wf_cfg_pred_iff [OF wf x y] step.hyps(2)])
    then have "x \<in> reach_set (\<lambda>b. set (successors ir b)) {y}"
      by (rule reach_set_step [OF reach_set_base [OF singletonI]])
    then show ?case by (rule subsetD [OF reach_set_trans step.IH])
  qed
next
  assume "b \<in> reach_set (\<lambda>b. set (successors ir b)) {c}"
  then show "c \<in> reach_set (\<lambda>b. set (predecessors ir b)) {b}"
  proof (induction rule: reach_set_induct)
    case (base x)
    then show ?case by (simp add: reach_set_base)
  next
    case (step x y)
    have x: "x \<in> set (blocks ir F)" by (rule subsetD [OF reach_blocks_closed(1) [OF wf bs(2)] step.hyps(1)])
    have y: "y \<in> set (blocks ir F)" by (rule subsetD [OF wf_cfgD(2) [OF wf x] step.hyps(2)])
    have "x \<in> set (predecessors ir y)" by (rule iffD2 [OF wf_cfg_pred_iff [OF wf y x] step.hyps(2)])
    then have "x \<in> reach_set (\<lambda>b. set (predecessors ir b)) {y}"
      by (rule reach_set_step [OF reach_set_base [OF singletonI]])
    then show ?case by (rule subsetD [OF reach_set_trans step.IH])
  qed
qed

section \<open>Sources in the current function\<close>

text \<open>\<open>SourceSet\<close> and \<open>CVSet\<close> as one set of effects.\<close>

definition cv_contents :: "cv_sets \<Rightarrow> cv_effect set" where
  "cv_contents s = AddSource ` fst s \<union> AddCV ` snd s"

lemma cv_contents_add: "cv_contents (cv_add e s) = insert e (cv_contents s)"
  by (cases e; cases s) (auto simp: cv_contents_def)

lemma cv_contents_sets: "fst s = {v. AddSource v \<in> cv_contents s}" "snd s = {v. AddCV v \<in> cv_contents s}"
  by (auto simp: cv_contents_def)

text \<open>
  Every call that uses an aliased address of a load has an argument, and no more than 128. This is
  no law of LLVM: the loop counts the arguments in an \<open>int8_t\<close>, which stays -1 without an argument
  and is negative again after 128; the operand read is then out of range
  (\<open>call_operand_out_of_range\<close>).
\<close>

definition call_args_fit :: "llvm \<Rightarrow> gctx \<Rightarrow> bool" where
  "call_args_fit ir ctx \<longleftrightarrow>
     (\<forall>LI \<in> set (heap ir). isa ir LoadInst LI \<longrightarrow>
        (\<forall>A \<in> set (aliasList ir ctx LI (pointerOperand ir LI)). \<forall>U \<in> set (users ir A).
           isa ir CallInst U \<longrightarrow> argOperands ir U \<noteq> [] \<and> length (argOperands ir U) \<le> 128))"

lemma call_args_fitD:
  "call_args_fit ir ctx \<Longrightarrow> LI \<in> set (heap ir) \<Longrightarrow> isa ir LoadInst LI \<Longrightarrow>
   A \<in> set (aliasList ir ctx LI (pointerOperand ir LI)) \<Longrightarrow> U \<in> set (users ir A) \<Longrightarrow>
   isa ir CallInst U \<Longrightarrow> argOperands ir U \<noteq> [] \<and> length (argOperands ir U) \<le> 128"
  unfolding call_args_fit_def by blast

lemma call_operand_eq:
  assumes "wf_values ir ctx" "U \<in> set (heap ir)" "isa ir CallInst U"
    and "argOperands ir U \<noteq> [] \<and> length (argOperands ir U) \<le> 128"
  shows "getOperand ir U (unat (scast (callArgNo ir U A) :: uint32)) =
    Inr (argOperands ir U ! unat (scast (callArgNo ir U A) :: uint32))"
proof -
  note wf = wf_operandsD [OF assms(1,2)]
  let ?i = "unat (scast (callArgNo ir U A) :: uint32)"
  have i: "?i < length (argOperands ir U)"
    using assms(4) by (simp add: callArgNo_in_range)
  then have "operands ir U ! ?i = argOperands ir U ! ?i"
    using arg_cong [OF wf(4) [OF assms(3)], of "\<lambda>xs. xs ! ?i"] by simp
  with i wf(3) [OF assms(3)] show ?thesis by (simp add: getOperand_def)
qed

text \<open>Both bounds are needed: an address that is the 129th argument gets the number -128.\<close>

lemma argNoFrom_append: "A \<notin> set as \<Longrightarrow> argNoFrom n A (as @ A # bs) = n + 1 + of_nat (length as)"
  by (induction as arbitrary: n) auto

lemma call_operand_out_of_range:
  assumes "argOperands ir U = [] \<or> argOperands ir U = as @ A # bs \<and> A \<notin> set as \<and> length as = 128"
    and "length (operands ir U) \<le> 2 ^ 31"
  shows "getOperand ir U (unat (scast (callArgNo ir U A) :: uint32)) = Inl OutOfRange"
proof -
  have "callArgNo ir U A = - 1 \<or> callArgNo ir U A = - 128"
    using assms(1) by (auto simp: callArgNo_def argNoFrom_append)
  then have "2 ^ 31 < unat (scast (callArgNo ir U A) :: uint32)"
    by (auto simp: unsigned_minus_1_eq_mask mask_eq_exp_minus_1)
  then show ?thesis using assms(2) by (simp add: getOperand_def)
qed

lemma inFuncUserTodo_calls:
  assumes "wf_values ir ctx" "U \<in> set (heap ir)"
    and "isa ir CallInst U \<Longrightarrow> argOperands ir U \<noteq> [] \<and> length (argOperands ir U) \<le> 128"
  shows "calls_in (set (heap ir)) (inFuncUserTodo ir reachBBs A U)"
  unfolding inFuncUserTodo_def
  using call_operand_eq [OF assms(1,2)] assms(3) wf_heapD(9) [OF wf_valuesD(1) [OF assms(1)] assms(2)]
  by (intro calls_inI calls_in_rbind [where P = "\<lambda>_. True"]) (auto simp: returns_iff)

lemma getOperand_returns:
  assumes "wf_values ir ctx" "V \<in> set (heap ir)" "i < length (operands ir V)"
  shows "returns (getOperand ir V i) (\<lambda>op. op \<in> set (heap ir))"
  using assms(3) wf_heapD(2) [OF wf_valuesD(1) [OF assms(1)] assms(2)]
  by (auto simp: getOperand_def)

lemma instruction_block:
  assumes "wf_values ir ctx" "V \<in> set (heap ir)" "isa ir Instruction V"
  shows "collectPredReachBlocks ir (getParent ir V) {} =
      Inr (reach_set (\<lambda>b. set (predecessors ir b)) {getParent ir V})"
    and "collectSuccReachBlocks ir (getParent ir V) {} =
      Inr (reach_set (\<lambda>b. set (successors ir b)) {getParent ir V})"
  using wf_heapD(7) [OF wf_valuesD(1) [OF assms(1)] assms(2,3)] wf_valuesD(1) [OF assms(1)]
  by (simp_all add: collectPredReachBlocks_eq collectSuccReachBlocks_eq)

lemma load_is_instruction: "wf_classes ir \<Longrightarrow> isa ir LoadInst V \<Longrightarrow> isa ir Instruction V"
  by (auto simp: wf_classes_def)

lemma findInFuncTodo_calls:
  assumes wfv: "wf_values ir ctx" and args: "call_args_fit ir ctx" and V: "V \<in> set (heap ir)"
  shows "calls_in (set (heap ir)) (findInFuncSourceCVTodo ir ctx V)"
proof -
  note wf = wf_valuesD(1) [OF wfv] and cl = wf_valuesD(2) [OF wfv]
  note h = wf_heapD [OF wf V] and o = wf_operandsD [OF wfv V]
  have op: "returns (getOperand ir V 0) (\<lambda>op. op \<in> set (heap ir))"
    if "isa ir UnaryInstruction V \<or> isa ir ConstantExpr V"
    by (rule getOperand_returns [OF wfv V o(1) [OF that]])
  have load: "calls_in (set (heap ir)) (concatM (\<lambda>A. concatM (inFuncUserTodo ir R A) (users ir A))
      (aliasList ir ctx V (pointerOperand ir V)))" if L: "isa ir LoadInst V" for R
  proof (intro calls_in_concatM)
    fix A U assume A: "A \<in> set (aliasList ir ctx V (pointerOperand ir V))" and U: "U \<in> set (users ir A)"
    have "A \<in> set (heap ir)"
      by (rule subsetD [OF aliasList_heap [OF wfv h(8)] A]) (simp add: L)
    then have "U \<in> set (heap ir)" using U wf_heapD(1) [OF wf] by blast
    then show "calls_in (set (heap ir)) (inFuncUserTodo ir R A U)"
      by (rule inFuncUserTodo_calls [OF wfv _ call_args_fitD [OF args V L A U]])
  qed
  have load': "calls_in (set (heap ir)) (rbind (concatM (\<lambda>A. concatM (inFuncUserTodo ir R A) (users ir A))
      (aliasList ir ctx V (pointerOperand ir V))) (\<lambda>ts. Inr (Inr (AddCV V) # ts @ [Inl (pointerOperand ir V)])))"
    if L: "isa ir LoadInst V" for R
    using load [OF L, of R] h(8) L by (auto simp: calls_in_def returns_iff)
  show ?thesis
    unfolding findInFuncSourceCVTodo_def Let_def
  proof (intro calls_in_if)
    assume "isa ir LoadInst V"
    then show "calls_in (set (heap ir)) (rbind (collectPredReachBlocks ir (getParent ir V) {}) (\<lambda>reachBBs.
       rbind (concatM (\<lambda>A. concatM (inFuncUserTodo ir reachBBs A) (users ir A))
         (aliasList ir ctx V (pointerOperand ir V)))
        (\<lambda>ts. Inr (Inr (AddCV V) # ts @ [Inl (pointerOperand ir V)]))))"
      by (simp add: instruction_block(1) [OF wfv V load_is_instruction [OF cl]] load')
  qed (use h op in \<open>auto simp: split_def calls_in_def intro!: returns_rbind\<close>)
qed

text \<open>
  The specification: the values that may flow into \<open>V\<close> within its function, and what is
  collected at \<open>V\<close>.
\<close>

definition blocksBefore :: "llvm \<Rightarrow> ptr \<Rightarrow> ptr set" where
  "blocksBefore ir V = reach_set (\<lambda>b. set (predecessors ir b)) {getParent ir V}"

definition usersBefore :: "llvm \<Rightarrow> gctx \<Rightarrow> ptr \<Rightarrow> (ptr \<times> ptr) set" where
  "usersBefore ir ctx LI = {(A, U). A \<in> set (aliasList ir ctx LI (pointerOperand ir LI)) \<and>
     U \<in> set (users ir A) \<and> isa ir Instruction U \<and> getParent ir U \<in> blocksBefore ir LI}"

definition isLeafSource :: "llvm \<Rightarrow> ptr \<Rightarrow> bool" where
  "isLeafSource ir V \<longleftrightarrow> isConstant ir V \<or> isa ir Argument V \<or> isa ir GlobalVariable V \<or>
     isa ir AllocaInst V \<or> isa ir CallInst V"

definition dataPreds :: "llvm \<Rightarrow> gctx \<Rightarrow> ptr \<Rightarrow> ptr set" where
  "dataPreds ir ctx V =
     (if isLeafSource ir V then {}
      else if isa ir SelectInst V then {trueValue ir V, falseValue ir V}
      else if isa ir GetElementPtrInst V then {pointerOperand ir V}
      else if isa ir PHINode V then fst ` set (incoming ir V)
      else if isa ir LoadInst V then
        insert (pointerOperand ir V)
          {valueOperand ir U |A U. (A, U) \<in> usersBefore ir ctx V \<and> isa ir StoreInst U \<and> pointerOperand ir U = A}
      else if isa ir ICmpInst V then {}
      else if isa ir UnaryInstruction V then {operands ir V ! 0}
      else if isa ir BinaryOperator V then set (operands ir V)
      else {})"

text \<open>The arguments that receive an aliased address of a load, in calls that may precede it.\<close>

definition callOutputs :: "llvm \<Rightarrow> gctx \<Rightarrow> ptr \<Rightarrow> ptr set" where
  "callOutputs ir ctx LI =
     {argOperands ir U ! unat (scast (callArgNo ir U A) :: uint32) |A U.
        (A, U) \<in> usersBefore ir ctx LI \<and> isa ir CallInst U}"

definition isTracked :: "llvm \<Rightarrow> ptr \<Rightarrow> bool" where
  "isTracked ir V \<longleftrightarrow> isLeafSource ir V \<or> isa ir SelectInst V \<or> isa ir GetElementPtrInst V \<or>
     isa ir PHINode V \<or> isa ir LoadInst V \<or> isa ir ICmpInst V \<or> isa ir UnaryInstruction V \<or>
     isa ir BinaryOperator V"

definition loadOutputs :: "llvm \<Rightarrow> gctx \<Rightarrow> ptr \<Rightarrow> ptr set" where
  "loadOutputs ir ctx V = (if isa ir LoadInst V then callOutputs ir ctx V else {})"

lemma inFuncUser_actions:
  assumes "wf_values ir ctx" "U \<in> set (heap ir)"
    and "isa ir CallInst U \<Longrightarrow> argOperands ir U \<noteq> [] \<and> length (argOperands ir U) \<le> 128"
  shows "calls (actions (inFuncUserTodo ir R A U)) =
      {valueOperand ir U |x::unit. isa ir Instruction U \<and> getParent ir U \<in> R \<and> isa ir StoreInst U \<and> pointerOperand ir U = A}"
    and "effects (actions (inFuncUserTodo ir R A U)) =
      (\<Union>Opd \<in> {argOperands ir U ! unat (scast (callArgNo ir U A) :: uint32) |x::unit.
         isa ir Instruction U \<and> getParent ir U \<in> R \<and> isa ir CallInst U}. {AddSource Opd, AddCV Opd})"
proof -
  have no: "\<not> (isa ir StoreInst U \<and> isa ir CallInst U)"
    using wf_valuesD_class [OF assms(1), of StoreInst U CallInst] by (auto simp: value_classes_def)
  show "calls (actions (inFuncUserTodo ir R A U)) =
      {valueOperand ir U |x::unit. isa ir Instruction U \<and> getParent ir U \<in> R \<and> isa ir StoreInst U \<and> pointerOperand ir U = A}"
    using call_operand_eq [OF assms(1,2)] assms(3) no by (auto simp: inFuncUserTodo_def)
  show "effects (actions (inFuncUserTodo ir R A U)) =
      (\<Union>Opd \<in> {argOperands ir U ! unat (scast (callArgNo ir U A) :: uint32) |x::unit.
         isa ir Instruction U \<and> getParent ir U \<in> R \<and> isa ir CallInst U}. {AddSource Opd, AddCV Opd})"
    using call_operand_eq [OF assms(1,2)] assms(3) no by (auto simp: inFuncUserTodo_def)
qed

lemma usersBefore_heap:
  assumes "wf_values ir ctx" "LI \<in> set (heap ir)" "isa ir LoadInst LI"
    and "A \<in> set (aliasList ir ctx LI (pointerOperand ir LI))" "U \<in> set (users ir A)"
  shows "U \<in> set (heap ir)"
proof -
  note wf = wf_valuesD(1) [OF assms(1)]
  have "pointerOperand ir LI \<in> set (heap ir)" using wf_heapD(8) [OF wf assms(2)] assms(3) by simp
  then have "A \<in> set (heap ir)" using aliasList_heap [OF assms(1)] assms(4) by blast
  then show ?thesis using wf_heapD(1) [OF wf] assms(5) by blast
qed

text \<open>The actions of the load case, over all aliases.\<close>

lemma inFuncLoad_actions:
  assumes wfv: "wf_values ir ctx" and args: "call_args_fit ir ctx" and V: "V \<in> set (heap ir)"
    and L: "isa ir LoadInst V"
    and ts: "concatM (\<lambda>A. concatM (inFuncUserTodo ir (blocksBefore ir V) A) (users ir A))
      (aliasList ir ctx V (pointerOperand ir V)) = Inr ts"
  shows "calls ts = {valueOperand ir U |A U. (A, U) \<in> usersBefore ir ctx V \<and> isa ir StoreInst U \<and> pointerOperand ir U = A}"
    and "effects ts = (\<Union>Opd \<in> callOutputs ir ctx V. {AddSource Opd, AddCV Opd})"
proof -
  let ?R = "blocksBefore ir V" and ?As = "aliasList ir ctx V (pointerOperand ir V)"
  note step = inFuncUser_actions [OF wfv usersBefore_heap [OF wfv V L] call_args_fitD [OF args V L]]
  have "calls ts = (\<Union>A \<in> set ?As. \<Union>U \<in> set (users ir A). {valueOperand ir U |x::unit.
      isa ir Instruction U \<and> getParent ir U \<in> ?R \<and> isa ir StoreInst U \<and> pointerOperand ir U = A})"
    unfolding calls_concatM2(1) [OF ts] by (intro SUP_cong refl step(1))
  then show "calls ts = {valueOperand ir U |A U. (A, U) \<in> usersBefore ir ctx V \<and> isa ir StoreInst U \<and> pointerOperand ir U = A}"
    unfolding usersBefore_def by auto
  have "effects ts = (\<Union>A \<in> set ?As. \<Union>U \<in> set (users ir A).
      \<Union>Opd \<in> {argOperands ir U ! unat (scast (callArgNo ir U A) :: uint32) |x::unit.
         isa ir Instruction U \<and> getParent ir U \<in> ?R \<and> isa ir CallInst U}. {AddSource Opd, AddCV Opd})"
    unfolding calls_concatM2(2) [OF ts] by (intro SUP_cong refl step(2))
  then show "effects ts = (\<Union>Opd \<in> callOutputs ir ctx V. {AddSource Opd, AddCV Opd})"
    unfolding usersBefore_def callOutputs_def by auto
qed

text \<open>What one call of the search does, against the specification.\<close>

definition inFuncEffects :: "llvm \<Rightarrow> gctx \<Rightarrow> ptr \<Rightarrow> cv_effect set" where
  "inFuncEffects ir ctx V =
     (if isLeafSource ir V then {AddSource V} else {}) \<union> (if isTracked ir V then {AddCV V} else {}) \<union>
     (\<Union>Opd \<in> loadOutputs ir ctx V. {AddSource Opd, AddCV Opd})"

lemma findInFuncTodo_spec:
  assumes wfv: "wf_values ir ctx" and args: "call_args_fit ir ctx" and V: "V \<in> set (heap ir)"
  shows "calls (actions (findInFuncSourceCVTodo ir ctx V)) = dataPreds ir ctx V \<and>
    effects (actions (findInFuncSourceCVTodo ir ctx V)) = inFuncEffects ir ctx V"
proof -
  note wf = wf_valuesD(1) [OF wfv] and cl = wf_valuesD(2) [OF wfv]
  have disj: "isa ir k V \<Longrightarrow> isa ir k' V \<Longrightarrow> k \<in> set value_classes \<Longrightarrow> k' \<in> set value_classes \<Longrightarrow> k = k'"
    for k k' by (rule wf_valuesD_class [OF wfv])
  note un = wf_classesD(3,4) [OF cl, of V] and gl = wf_classesD(2) [OF cl, of V]
  have ce: "isa ir ConstantExpr V \<Longrightarrow> isConstant ir V"
    using wf_classesD(1) [OF cl] wf_valuesD_null [OF wfv V] by (simp add: isConstant_def)
  show ?thesis
  proof (cases "isa ir LoadInst V \<and> \<not> isLeafSource ir V")
    case True
    then have L: "isa ir LoadInst V" and nl: "\<not> isLeafSource ir V" by simp_all
    have others: "\<not> isa ir SelectInst V" "\<not> isa ir GetElementPtrInst V" "\<not> isa ir PHINode V"
      using disj [OF un(1) [OF L]] by (auto simp: value_classes_def)
    have nce: "\<not> isa ir ConstantExpr V" using nl ce by (auto simp: isLeafSource_def)
    note d = calls_inD(1) [OF findInFuncTodo_calls [OF wfv args V]]
    have t: "findInFuncSourceCVTodo ir ctx V =
      rbind (concatM (\<lambda>A. concatM (inFuncUserTodo ir (blocksBefore ir V) A) (users ir A))
          (aliasList ir ctx V (pointerOperand ir V)))
        (\<lambda>ts. Inr (Inr (AddCV V) # ts @ [Inl (pointerOperand ir V)]))"
      using nl L others nce
      by (simp add: findInFuncSourceCVTodo_def isLeafSource_def Let_def blocksBefore_def
          instruction_block(1) [OF wfv V load_is_instruction [OF cl L]])
    then obtain ts where ts: "concatM (\<lambda>A. concatM (inFuncUserTodo ir (blocksBefore ir V) A) (users ir A))
          (aliasList ir ctx V (pointerOperand ir V)) = Inr ts"
      using d by (auto simp: rbind_Inr_iff)
    note a = inFuncLoad_actions [OF wfv args V L ts]
    show ?thesis
      using L nl others
      by (simp add: t ts a dataPreds_def inFuncEffects_def loadOutputs_def isTracked_def Un_commute)
  next
    case False
    have leaf_load: "isLeafSource ir V \<Longrightarrow> isa ir LoadInst V \<Longrightarrow> False"
      using disj [OF un(1)] wf_valuesD_load [OF wfv, of V] gl
      by (auto simp: isLeafSource_def isConstant_def value_classes_def split: if_splits)
    have nl: "isa ir LoadInst V \<Longrightarrow> False" using False leaf_load by blast
    then have "loadOutputs ir ctx V = {}" by (auto simp: loadOutputs_def)
    moreover have "getOperand ir V 0 = Inr (operands ir V ! 0)" if "isa ir UnaryInstruction V"
      using wf_operandsD(1) [OF wfv V] that by (simp add: getOperand_def)
    ultimately show ?thesis
      using nl ce
      by (auto simp: findInFuncSourceCVTodo_def isLeafSource_def dataPreds_def inFuncEffects_def
          isTracked_def split_def)
  qed
qed

text \<open>The search itself.\<close>

interpretation in_func: depth_first_id "\<lambda>V. actions (findInFuncSourceCVTodo ir ctx V)" cv_add cv_contents
  "findInFuncSourceCVF ir ctx" "set (heap ir)"
  "\<lambda>V. wf_values ir ctx \<and> call_args_fit ir ctx \<and> V \<in> set (heap ir)" for ir ctx
proof unfold_locales
  fix V y
  assume "wf_values ir ctx \<and> call_args_fit ir ctx \<and> V \<in> set (heap ir)"
    and "y \<in> calls (actions (findInFuncSourceCVTodo ir ctx V))"
  then show "wf_values ir ctx \<and> call_args_fit ir ctx \<and> y \<in> set (heap ir)"
    using calls_inD(2) [OF findInFuncTodo_calls, of ir ctx V] by blast
next
  fix V n T and s :: cv_sets
  assume "wf_values ir ctx \<and> call_args_fit ir ctx \<and> V \<in> set (heap ir)"
  then obtain ts where "findInFuncSourceCVTodo ir ctx V = Inr ts"
    using calls_inD(1) [OF findInFuncTodo_calls, of ir ctx V] by blast
  then show "findInFuncSourceCVF ir ctx (Suc n) V (T, s) = (if V \<in> T then Inr (T, s)
      else foldM (run_action (findInFuncSourceCVF ir ctx n) cv_add)
        (actions (findInFuncSourceCVTodo ir ctx V)) (insert V T, s))"
    by simp
qed (auto simp: cv_contents_add)

text \<open>From an empty \<open>TrackedSet\<close> the search visits the backward data-flow closure.\<close>

definition dataClosure :: "llvm \<Rightarrow> gctx \<Rightarrow> ptr \<Rightarrow> ptr set" where
  "dataClosure ir ctx V = reach_set (dataPreds ir ctx) {V}"

lemma dataPreds_heap:
  assumes "wf_values ir ctx" "call_args_fit ir ctx" "V \<in> set (heap ir)"
  shows "dataPreds ir ctx V \<subseteq> set (heap ir)"
  using calls_inD(2) [OF findInFuncTodo_calls [OF assms]] findInFuncTodo_spec [OF assms] by simp

lemma dataClosure_heap:
  assumes "wf_values ir ctx" "call_args_fit ir ctx" "V \<in> set (heap ir)"
  shows "dataClosure ir ctx V \<subseteq> set (heap ir)"
  unfolding dataClosure_def
  by (rule reach_set_least) (use assms dataPreds_heap [OF assms(1,2)] in simp_all)

lemma in_func_closure:
  assumes "wf_values ir ctx" "call_args_fit ir ctx" "V \<in> set (heap ir)"
  shows "reach_set (in_func.nxt ir ctx) {V} = dataClosure ir ctx V"
proof -
  have "in_func.nxt ir ctx x = dataPreds ir ctx x" if "x \<in> set (heap ir)" for x
    using findInFuncTodo_spec [OF assms(1,2) that] by (simp add: in_func.nxt_def)
  then show ?thesis
    unfolding dataClosure_def using dataPreds_heap [OF assms(1,2)] assms(3)
    by (intro reach_set_cong [where X = "set (heap ir)"]) simp_all
qed

lemma findInFuncSourceCV_closure:
  assumes "wf_values ir ctx" "call_args_fit ir ctx" "V \<in> set (heap ir)"
  shows "returns (findInFuncSourceCV ir ctx V ({}, S, C)) (\<lambda>(TrackedSet, SourceSet, CVSet).
    let T = dataClosure ir ctx V in
    TrackedSet = T \<and>
    SourceSet = S \<union> {v \<in> T. isLeafSource ir v} \<union> (\<Union>v \<in> T. loadOutputs ir ctx v) \<and>
    CVSet = C \<union> {v \<in> T. isTracked ir v} \<union> (\<Union>v \<in> T. loadOutputs ir ctx v))"
proof -
  have v: "wf_values ir ctx \<and> call_args_fit ir ctx \<and> V \<in> set (heap ir)" using assms by simp
  obtain T s where r: "findInFuncSourceCV ir ctx V ({}, S, C) = Inr (T, s)"
    and T: "T = dataClosure ir ctx V"
    and c: "cv_contents s = cv_contents (S, C) \<union>
      (\<Union>y \<in> dataClosure ir ctx V. effects (actions (findInFuncSourceCVTodo ir ctx y)))"
    using in_func.visit_reaches_start [OF v heap_fuel, of "(S, C)"]
    unfolding in_func_closure [OF assms] findInFuncSourceCV_def by (elim returnsE2) simp
  have "(\<Union>y \<in> T. effects (actions (findInFuncSourceCVTodo ir ctx y))) = (\<Union>y \<in> T. inFuncEffects ir ctx y)"
    using findInFuncTodo_spec [OF assms(1,2)] dataClosure_heap [OF assms] by (intro SUP_cong) (auto simp: T)
  with c have c': "cv_contents s = cv_contents (S, C) \<union> (\<Union>y \<in> T. inFuncEffects ir ctx y)" by (simp add: T)
  have "fst s = S \<union> {v \<in> T. isLeafSource ir v} \<union> (\<Union>v \<in> T. loadOutputs ir ctx v)"
    and "snd s = C \<union> {v \<in> T. isTracked ir v} \<union> (\<Union>v \<in> T. loadOutputs ir ctx v)"
    unfolding cv_contents_sets [of s] c'
    by (auto simp: cv_contents_def inFuncEffects_def split: if_splits)
  then show ?thesis by (simp add: r T [symmetric] split_def)
qed

section \<open>Uses\<close>

text \<open>
  The specification: the instructions that use \<open>Target\<close> in a block after the border, with the
  argument number for calls, and the values that carry \<open>Target\<close> on.
\<close>

definition blocksAfter :: "llvm \<Rightarrow> ptr \<Rightarrow> ptr set" where
  "blocksAfter ir V = reach_set (\<lambda>b. set (successors ir b)) {getParent ir V}"

definition usersOf :: "llvm \<Rightarrow> ptr \<Rightarrow> ptr \<Rightarrow> ptr set" where
  "usersOf ir BorderInsn Target = {U \<in> set (users ir Target). isa ir Instruction U \<and> U \<noteq> BorderInsn}"

definition usesAt :: "llvm \<Rightarrow> ptr \<Rightarrow> ptr \<Rightarrow> ptr \<Rightarrow> use_t set" where
  "usesAt ir BorderInsn Target U =
     (if getParent ir U \<notin> blocksAfter ir BorderInsn then {}
      else if isa ir GetElementPtrInst U \<or> isa ir CmpInst U \<or>
         (isa ir LoadInst U \<or> isa ir StoreInst U) \<and> pointerOperand ir U = Target then {(U, -1)}
      else if isa ir CallInst U then {(U, callArgNo ir U Target)}
      else {})"

definition carriersAt :: "llvm \<Rightarrow> gctx \<Rightarrow> ptr \<Rightarrow> ptr \<Rightarrow> ptr \<Rightarrow> ptr set" where
  "carriersAt ir ctx BorderInsn Target U =
     (if isa ir GetElementPtrInst U then
        {V. V = U \<and> getParent ir U \<in> blocksAfter ir BorderInsn \<and> pointerOperand ir U = U}
      else if isa ir StoreInst U then
        {AU. pointerOperand ir U \<noteq> Target \<and> isa ir LoadInst AU \<and> isa ir Instruction AU \<and>
           getParent ir AU \<in> blocksAfter ir BorderInsn \<and>
           (\<exists>A \<in> set (aliasList ir ctx U (pointerOperand ir U)). AU \<in> set (users ir A))}
      else if isa ir BinaryOperator U then
        {V. V = U \<and> \<not> skippedUser ir U \<and>
            \<not> isa ir Constant (operands ir U ! 0) \<and> \<not> isa ir Constant (operands ir U ! 1)}
      else if isa ir UnaryInstruction U then
        {V. V = U \<and> \<not> skippedUser ir U \<and> \<not> (isa ir LoadInst U \<and> pointerOperand ir U = Target)}
      else {})"

lemma loadsInScope_set:
  "set (loadsInScope ir R A) =
     {AU \<in> set (users ir A). isa ir Instruction AU \<and> getParent ir AU \<in> R \<and> isa ir LoadInst AU}"
  by (auto simp: loadsInScope_def)

lemma findUsesUser_spec:
  assumes wfv: "wf_values ir ctx" and U: "U \<in> set (heap ir)" "isa ir Instruction U" "U \<noteq> BorderInsn"
  shows "returns (findUsesUserTodo ir ctx BorderInsn Target (blocksAfter ir BorderInsn) U)
    (\<lambda>ts. calls ts = carriersAt ir ctx BorderInsn Target U \<and> effects ts = usesAt ir BorderInsn Target U)"
proof -
  have disj: "isa ir k U \<Longrightarrow> isa ir k' U \<Longrightarrow> k \<in> set value_classes \<Longrightarrow> k' \<in> set value_classes \<Longrightarrow> k = k'"
    for k k' by (rule wf_valuesD_class [OF wfv])
  have ld: "isa ir LoadInst U \<Longrightarrow> isa ir UnaryInstruction U"
    by (rule wf_classesD(3) [OF wf_valuesD(2) [OF wfv]])
  consider (gep) "isa ir GetElementPtrInst U" | (store) "isa ir StoreInst U" | (cmp) "isa ir CmpInst U"
    | (call) "isa ir CallInst U" | (bin) "isa ir BinaryOperator U" | (un) "isa ir UnaryInstruction U"
    | (other) "\<not> isa ir GetElementPtrInst U" "\<not> isa ir StoreInst U" "\<not> isa ir CmpInst U"
        "\<not> isa ir CallInst U" "\<not> isa ir BinaryOperator U" "\<not> isa ir UnaryInstruction U" by blast
  then show ?thesis
  proof cases
    case gep
    have "\<not> isa ir k U" if "k \<in> {LoadInst, StoreInst, CmpInst, CallInst, BinaryOperator}" for k
      using that disj [OF gep, of k] disj [OF gep ld] by (auto simp: value_classes_def)
    then show ?thesis using gep U
      by (simp add: findUsesUserTodo_def carriersAt_def usesAt_def Let_def use_c_def)
  next
    case store
    have "\<not> isa ir k U" if "k \<in> {GetElementPtrInst, LoadInst, CmpInst, CallInst, BinaryOperator}" for k
      using that disj [OF store, of k] disj [OF store ld] by (auto simp: value_classes_def)
    then show ?thesis using store U
      by (auto simp: findUsesUserTodo_def carriersAt_def usesAt_def Let_def use_c_def loadsInScope_set)
  next
    case cmp
    have "\<not> isa ir k U" if "k \<in> {GetElementPtrInst, LoadInst, StoreInst, CallInst, BinaryOperator, UnaryInstruction}" for k
      using that disj [OF cmp, of k] disj [OF cmp ld] by (auto simp: value_classes_def)
    then show ?thesis using cmp U
      by (simp add: findUsesUserTodo_def carriersAt_def usesAt_def Let_def use_c_def)
  next
    case call
    have "\<not> isa ir k U" if "k \<in> {GetElementPtrInst, LoadInst, StoreInst, CmpInst, BinaryOperator, UnaryInstruction}" for k
      using that disj [OF call, of k] disj [OF call ld] by (auto simp: value_classes_def)
    then show ?thesis using call U
      by (simp add: findUsesUserTodo_def carriersAt_def usesAt_def Let_def use_c_def)
  next
    case bin
    have "\<not> isa ir k U" if "k \<in> {GetElementPtrInst, LoadInst, StoreInst, CmpInst, CallInst, UnaryInstruction}" for k
      using that disj [OF bin, of k] disj [OF bin ld] by (auto simp: value_classes_def)
    moreover have "getOperand ir U 0 = Inr (operands ir U ! 0)" "getOperand ir U 1 = Inr (operands ir U ! 1)"
      using wf_operandsD(2) [OF wfv U(1)] bin by (auto simp: getOperand_def)
    ultimately show ?thesis using bin U
      by (auto simp: findUsesUserTodo_def carriersAt_def usesAt_def Let_def)
  next
    case un
    have "\<not> isa ir k U" if "k \<in> {GetElementPtrInst, StoreInst, CmpInst, CallInst, BinaryOperator}" for k
      using that disj [OF un, of k] by (auto simp: value_classes_def)
    then show ?thesis using un U
      by (auto simp: findUsesUserTodo_def carriersAt_def usesAt_def Let_def use_c_def)
  next
    case other
    moreover have "\<not> isa ir LoadInst U" using ld other by blast
    ultimately show ?thesis using U
      by (simp add: findUsesUserTodo_def carriersAt_def usesAt_def Let_def)
  qed
qed

text \<open>All users of a target.\<close>

definition useCarriers :: "llvm \<Rightarrow> gctx \<Rightarrow> ptr \<Rightarrow> ptr \<Rightarrow> ptr set" where
  "useCarriers ir ctx BorderInsn Target =
     (\<Union>U \<in> usersOf ir BorderInsn Target. carriersAt ir ctx BorderInsn Target U)"

definition directUses :: "llvm \<Rightarrow> ptr \<Rightarrow> ptr \<Rightarrow> use_t set" where
  "directUses ir BorderInsn Target = (\<Union>U \<in> usersOf ir BorderInsn Target. usesAt ir BorderInsn Target U)"

lemma carriersAt_heap:
  assumes "wf_values ir ctx" "U \<in> set (heap ir)"
  shows "carriersAt ir ctx BorderInsn Target U \<subseteq> set (heap ir)"
proof -
  note wf = wf_valuesD(1) [OF assms(1)]
  have "set (users ir A) \<subseteq> set (heap ir)"
    if "isa ir StoreInst U" "A \<in> set (aliasList ir ctx U (pointerOperand ir U))" for A
  proof -
    have "pointerOperand ir U \<in> set (heap ir)" using wf_heapD(8) [OF wf assms(2)] that(1) by simp
    then have "A \<in> set (heap ir)" using aliasList_heap [OF assms(1)] that(2) by blast
    then show ?thesis by (rule wf_heapD(1) [OF wf])
  qed
  then show ?thesis using assms(2) by (auto simp: carriersAt_def split: if_splits)
qed

lemma findUsesTodo_spec:
  assumes wfv: "wf_values ir ctx" and B: "BorderInsn \<in> set (heap ir)" "isa ir Instruction BorderInsn"
    and T: "Target \<in> set (heap ir)"
  shows "\<exists>ts. findUsesTodo ir ctx BorderInsn Target = Inr ts \<and>
    calls ts = useCarriers ir ctx BorderInsn Target \<and> effects ts = directUses ir BorderInsn Target"
proof -
  let ?f = "findUsesUserTodo ir ctx BorderInsn Target (blocksAfter ir BorderInsn)"
  have h: "set (users ir Target) \<subseteq> set (heap ir)" by (rule wf_heapD(1) [OF wf_valuesD(1) [OF wfv] T])
  have user: "returns (?f U) (\<lambda>ts.
      calls ts = (if U \<in> usersOf ir BorderInsn Target then carriersAt ir ctx BorderInsn Target U else {}) \<and>
      effects ts = (if U \<in> usersOf ir BorderInsn Target then usesAt ir BorderInsn Target U else {}))"
    if U: "U \<in> set (users ir Target)" for U
  proof (cases "isa ir Instruction U \<and> U \<noteq> BorderInsn")
    case True
    then show ?thesis
      using findUsesUser_spec [OF wfv subsetD [OF h U], of BorderInsn Target] U by (simp add: usersOf_def)
  qed (auto simp: findUsesUserTodo_def usersOf_def)
  have "calls_in UNIV (concatM ?f (users ir Target))"
    by (rule calls_in_concatM, unfold calls_in_def) (rule returns_mono [OF user], assumption, simp)
  then obtain ts where ts: "concatM ?f (users ir Target) = Inr ts" by (auto dest: calls_inD(1))
  have "calls ts = (\<Union>U \<in> set (users ir Target).
      if U \<in> usersOf ir BorderInsn Target then carriersAt ir ctx BorderInsn Target U else {})"
    and "effects ts = (\<Union>U \<in> set (users ir Target).
      if U \<in> usersOf ir BorderInsn Target then usesAt ir BorderInsn Target U else {})"
    unfolding calls_concatM [OF ts] by (intro SUP_cong refl returns_actions [OF user], assumption)+
  then have "calls ts = useCarriers ir ctx BorderInsn Target" "effects ts = directUses ir BorderInsn Target"
    by (auto simp: useCarriers_def directUses_def usersOf_def)
  moreover have "findUsesTodo ir ctx BorderInsn Target = Inr ts"
    by (simp add: findUsesTodo_def instruction_block(2) [OF wfv B] blocksAfter_def [symmetric] ts)
  ultimately show ?thesis by blast
qed

lemma useCarriers_heap:
  assumes "wf_values ir ctx" "Target \<in> set (heap ir)"
  shows "useCarriers ir ctx BorderInsn Target \<subseteq> set (heap ir)"
  using carriersAt_heap [OF assms(1)] wf_heapD(1) [OF wf_valuesD(1) [OF assms(1)] assms(2)]
  by (fastforce simp: useCarriers_def usersOf_def)

interpretation find_uses: depth_first_id "\<lambda>V. actions (findUsesTodo ir ctx BorderInsn V)" insert "\<lambda>s. s"
  "findUsesF ir ctx BorderInsn" "set (heap ir)"
  "\<lambda>V. wf_values ir ctx \<and> BorderInsn \<in> set (heap ir) \<and> isa ir Instruction BorderInsn \<and> V \<in> set (heap ir)"
  for ir ctx BorderInsn
proof unfold_locales
  fix V y
  assume v: "wf_values ir ctx \<and> BorderInsn \<in> set (heap ir) \<and> isa ir Instruction BorderInsn \<and> V \<in> set (heap ir)"
    and y: "y \<in> calls (actions (findUsesTodo ir ctx BorderInsn V))"
  then have "y \<in> useCarriers ir ctx BorderInsn V" using findUsesTodo_spec [of ir ctx BorderInsn V] by auto
  with v show "wf_values ir ctx \<and> BorderInsn \<in> set (heap ir) \<and> isa ir Instruction BorderInsn \<and> y \<in> set (heap ir)"
    using useCarriers_heap [of ir ctx V BorderInsn] by blast
next
  fix V n T and s :: "use_t set"
  assume v: "wf_values ir ctx \<and> BorderInsn \<in> set (heap ir) \<and> isa ir Instruction BorderInsn \<and> V \<in> set (heap ir)"
  then obtain ts where "findUsesTodo ir ctx BorderInsn V = Inr ts"
    using findUsesTodo_spec [of ir ctx BorderInsn V] by blast
  moreover have "BorderInsn \<noteq> NULL" using v wf_valuesD_null by blast
  ultimately show "findUsesF ir ctx BorderInsn (Suc n) V (T, s) = (if V \<in> T then Inr (T, s)
      else foldM (run_action (findUsesF ir ctx BorderInsn n) insert)
        (actions (findUsesTodo ir ctx BorderInsn V)) (insert V T, s))"
    by simp
qed auto

definition useClosure :: "llvm \<Rightarrow> gctx \<Rightarrow> ptr \<Rightarrow> ptr \<Rightarrow> ptr set" where
  "useClosure ir ctx BorderInsn Target = reach_set (useCarriers ir ctx BorderInsn) {Target}"

lemma findUses_closure:
  assumes "wf_values ir ctx" "BorderInsn \<in> set (heap ir)" "isa ir Instruction BorderInsn"
    and "Target \<in> set (heap ir)"
  shows "returns (findUses ir ctx BorderInsn Target ({}, UseSet)) (\<lambda>(Visited, UseSet').
    Visited = useClosure ir ctx BorderInsn Target \<and>
    UseSet' = UseSet \<union> (\<Union>T \<in> useClosure ir ctx BorderInsn Target. directUses ir BorderInsn T))"
proof -
  have v: "wf_values ir ctx \<and> BorderInsn \<in> set (heap ir) \<and> isa ir Instruction BorderInsn \<and> Target \<in> set (heap ir)"
    using assms by simp
  note spec = findUsesTodo_spec [OF assms(1-3)]
  have c: "calls (actions (findUsesTodo ir ctx BorderInsn x)) = useCarriers ir ctx BorderInsn x"
    and e: "effects (actions (findUsesTodo ir ctx BorderInsn x)) = directUses ir BorderInsn x"
    if "x \<in> set (heap ir)" for x using spec [OF that] by auto
  have R: "reach_set (find_uses.nxt ir ctx BorderInsn) {Target} = useClosure ir ctx BorderInsn Target"
    unfolding useClosure_def
    by (rule reach_set_cong [where X = "set (heap ir)"])
       (use assms(4) useCarriers_heap [OF assms(1)] c in \<open>simp_all add: find_uses.nxt_def\<close>)
  have "useClosure ir ctx BorderInsn Target \<subseteq> set (heap ir)"
    unfolding useClosure_def
    by (rule reach_set_least) (use assms(4) useCarriers_heap [OF assms(1)] in simp_all)
  then have "(\<Union>y \<in> useClosure ir ctx BorderInsn Target. effects (actions (findUsesTodo ir ctx BorderInsn y))) =
      (\<Union>T \<in> useClosure ir ctx BorderInsn Target. directUses ir BorderInsn T)"
    by (intro SUP_cong refl e) blast
  then show ?thesis
    using find_uses.visit_reaches_start [OF v heap_fuel, of UseSet]
    unfolding R findUses_def by simp
qed

section \<open>Order of a store and an instruction\<close>

lemma scanBlock_iff:
  "Inst \<noteq> St \<Longrightarrow> scanBlock Inst St Is \<longleftrightarrow> (\<exists>ys zs. Is = ys @ St # zs \<and> Inst \<notin> set ys)"
proof (induction Is)
  case (Cons II Is)
  show ?case
  proof (cases "II = St \<or> II = Inst")
    case True
    then show ?thesis using Cons.prems by (auto simp: Cons_eq_append_conv intro: exI [of _ "[]"])
  next
    case False
    then have "(\<exists>ys zs. II # Is = ys @ St # zs \<and> Inst \<notin> set ys) \<longleftrightarrow>
        (\<exists>ys zs. Is = ys @ St # zs \<and> Inst \<notin> set ys)"
      by (auto simp: Cons_eq_append_conv) (metis set_ConsD)
    with False Cons show ?thesis by simp
  qed
qed simp

interpretation block_path: worklist_find "\<lambda>found. found" "\<lambda>TB. TB" "blockPathBody ir InstBB"
  "set (heap ir)" "\<lambda>b. wf_heap ir \<and> b \<in> set (heap ir)" "\<lambda>P found. found = (InstBB \<in> P)"
  "\<lambda>b. set (successors ir b)" for ir InstBB
  by unfold_locales (auto simp: blockPathBody_def dest: wf_heapD(5) split: if_splits)

lemma possibleUseStResult_cases:
  assumes "wf_heap ir" "getParent ir St \<in> set (heap ir)" "Inst \<noteq> St"
  shows "possibleUseStResult ir Inst St = Inr (
    if getParent ir Inst = NULL \<or> getParent ir St = NULL then False
    else if getParent ir Inst = getParent ir St
    then (\<exists>ys zs. insts ir (getParent ir Inst) = ys @ St # zs \<and> Inst \<notin> set ys)
    else getParent ir Inst \<in> blocksAfter ir St)"
proof -
  let ?b = "getParent ir Inst" and ?c = "getParent ir St"
  have "returns (worklist (\<lambda>found. found) (\<lambda>TB. TB) (blockPathBody ir ?b) [?c] False) (\<lambda>(P, found).
      P \<subseteq> blocksAfter ir St \<and> (\<not> found \<longrightarrow> P = blocksAfter ir St) \<and> found = (?b \<in> P))"
    using block_path.loop_from_finds [where q = "[?c]" and PL = "{}" and s = False and InstBB = ?b] assms(1,2)
    by (simp add: worklist_def blocksAfter_def)
  then obtain P found where w: "worklist (\<lambda>found. found) (\<lambda>TB. TB) (blockPathBody ir ?b) [?c] False = Inr (P, found)"
    and *: "P \<subseteq> blocksAfter ir St \<and> (\<not> found \<longrightarrow> P = blocksAfter ir St) \<and> found = (?b \<in> P)"
    by (elim returnsE2)
  from * have "found = (?b \<in> blocksAfter ir St)" by blast
  then show ?thesis
    by (simp add: possibleUseStResult_def Let_def w scanBlock_iff [OF assms(3)])
qed

section \<open>Sources of a critical variable\<close>

text \<open>
  What the configuration tables say about calls: a fetch function has the argument the table
  names, a copy function has a source argument, \<open>get_user\<close> has an argument.
\<close>

definition table_args :: "llvm \<Rightarrow> gctx \<Rightarrow> bool" where
  "table_args ir ctx \<longleftrightarrow>
     (\<forall>CI \<in> set (heap ir). \<forall>f. isa ir CallInst CI \<and> calledValue ir CI \<noteq> NULL \<and>
        getCalledFuncName ir CI = Inr f \<longrightarrow>
        (\<forall>d s. DataFetchFuncs ctx f = Some (d, s) \<longrightarrow>
           unat (scast s :: uint32) < length (argOperands ir CI)) \<and>
        (CopyFuncs ctx f \<noteq> None \<longrightarrow> 1 < length (argOperands ir CI)) \<and>
        (isa ir InlineAsm (calledValue ir CI) \<and> contains f ''get_user'' \<longrightarrow> 0 < length (argOperands ir CI)))"

lemma table_argsD:
  assumes "table_args ir ctx" "CI \<in> set (heap ir)" "isa ir CallInst CI" "calledValue ir CI \<noteq> NULL"
    and "getCalledFuncName ir CI = Inr f"
  shows "DataFetchFuncs ctx f = Some (d, s) \<Longrightarrow> unat (scast s :: uint32) < length (argOperands ir CI)"
    and "CopyFuncs ctx f = Some c \<Longrightarrow> 1 < length (argOperands ir CI)"
    and "isa ir InlineAsm (calledValue ir CI) \<Longrightarrow> contains f ''get_user'' \<Longrightarrow> 0 < length (argOperands ir CI)"
  using assms unfolding table_args_def by blast+

lemma called_name:
  assumes "isa ir CallInst CI" "calledValue ir CI \<noteq> NULL"
  shows "\<exists>f. getCalledFuncName ir CI = Inr f"
  using assms by (simp add: getCalledFuncName_def Let_def split: list.split)

abbreviation cv_nodes :: "llvm \<Rightarrow> cv_node set" where
  "cv_nodes ir \<equiv> CV ` set (heap ir) \<union> CVAlias ` set (heap ir)"

lemma getArgOperand_Inr:
  assumes "wf_heap ir" "CI \<in> set (heap ir)" "unat (scast i :: uint32) < length (argOperands ir CI)"
  shows "\<exists>v \<in> set (heap ir). getArgOperand ir CI i = Inr v"
  using assms(3) wf_heapD(3) [OF assms(1,2)] by (auto simp: getArgOperand_def Let_def)

lemma aliasUserTodo_calls:
  assumes wfv: "wf_values ir ctx" and t: "table_args ir ctx" and U: "U \<in> set (heap ir)"
  shows "calls_in (cv_nodes ir) (aliasUserTodo ir ctx A U)"
proof -
  note wf = wf_valuesD(1) [OF wfv]
  show ?thesis
    unfolding aliasUserTodo_def
  proof (intro calls_in_if)
    assume c: "isa ir CallInst U" and v: "calledValue ir U \<noteq> NULL"
    then obtain f where f: "getCalledFuncName ir U = Inr f" using called_name by blast
    note D = table_argsD [OF t U c v f]
    have fetch: "\<exists>Src \<in> insert NULL (set (heap ir)).
        (case DataFetchFuncs ctx f of
           Some (dst, src) \<Rightarrow> if dst = 0 then getArgOperand ir U src else Inr NULL
         | None \<Rightarrow> Inr NULL) = Inr Src"
      using getArgOperand_Inr [OF wf U D(1)] by (auto split: option.split)
    have copy: "CopyFuncs ctx f = Some c \<Longrightarrow> \<exists>Src \<in> set (heap ir). getArgOperand ir U 1 = Inr Src" for c
      using getArgOperand_Inr [OF wf U, of 1] D(2) by simp
    show "calls_in (cv_nodes ir) (rbind (getCalledFuncName ir U) (\<lambda>FuncName.
       rbind (case DataFetchFuncs ctx FuncName of
                Some (dst, src) \<Rightarrow> if dst = 0 then getArgOperand ir U src else Inr NULL
              | None \<Rightarrow> Inr NULL)
        (\<lambda>Src. if Src \<noteq> NULL then Inr [Inr (AddSource Src), Inr (AddSource U), Inr (AddCV Src)]
               else if CopyFuncs ctx FuncName \<noteq> None
                    then rbind (getArgOperand ir U 1) (\<lambda>Src. Inr [Inl (CV Src)]) else Inr [])))"
      using fetch copy unfolding f rbind.simps by (auto simp: calls_in_def)
  qed (use wf_heapD(9) [OF wf U] in \<open>auto simp: calls_in_def\<close>)
qed

lemma callSourceTodo_calls:
  assumes wfv: "wf_values ir ctx" and t: "table_args ir ctx" and U: "CI \<in> set (heap ir)"
    and c: "isa ir CallInst CI" and v: "calledValue ir CI \<noteq> NULL"
  shows "calls_in (cv_nodes ir) (callSourceTodo ir ctx CI)"
proof -
  note wf = wf_valuesD(1) [OF wfv]
  obtain f where f: "getCalledFuncName ir CI = Inr f" using called_name [OF c v] by blast
  note D = table_argsD [OF t U c v f]
  have "\<exists>Src. (case DataFetchFuncs ctx f of
       Some (dst, src) \<Rightarrow> if dst = -1 then getArgOperand ir CI src else Inr NULL
     | None \<Rightarrow> if isa ir InlineAsm (calledValue ir CI) \<and> contains f ''get_user''
               then getArgOperand ir CI 0 else Inr NULL) = Inr Src"
    using getArgOperand_Inr [OF wf U D(1)] getArgOperand_Inr [OF wf U, of 0] D(3)
    by (fastforce split: option.split)
  then obtain Src where "(case DataFetchFuncs ctx f of
       Some (dst, src) \<Rightarrow> if dst = -1 then getArgOperand ir CI src else Inr NULL
     | None \<Rightarrow> if isa ir InlineAsm (calledValue ir CI) \<and> contains f ''get_user''
               then getArgOperand ir CI 0 else Inr NULL) = Inr Src" by blast
  then show ?thesis by (simp only: callSourceTodo_def f rbind.simps) (simp add: calls_in_def)
qed

definition cv_valid :: "llvm \<Rightarrow> gctx \<Rightarrow> cv_node \<Rightarrow> bool" where
  "cv_valid ir ctx x \<longleftrightarrow> wf_values ir ctx \<and> table_args ir ctx \<and> x \<in> cv_nodes ir"

lemma findSourceCVTodo_calls:
  assumes "cv_valid ir ctx x"
  shows "calls_in (cv_nodes ir) (findSourceCVTodo ir ctx x)"
proof -
  have wfv: "wf_values ir ctx" and t: "table_args ir ctx" using assms by (simp_all add: cv_valid_def)
  note wf = wf_valuesD(1) [OF wfv]
  show ?thesis
  proof (cases x)
    case (CVAlias A)
    then have "A \<in> set (heap ir)" using assms by (auto simp: cv_valid_def)
    then have "U \<in> set (heap ir)" if "U \<in> set (users ir A)" for U
      using wf_heapD(1) [OF wf] that by blast
    then show ?thesis
      unfolding CVAlias findSourceCVTodo.simps by (intro calls_in_concatM aliasUserTodo_calls [OF wfv t])
  next
    case (CV V)
    then have V: "V \<in> set (heap ir)" using assms by (auto simp: cv_valid_def)
    note h = wf_heapD [OF wf V]
    have op: "returns (getOperand ir V 0) (\<lambda>op. op \<in> set (heap ir))"
      if "isa ir UnaryInstruction V \<or> isa ir ConstantExpr V"
      by (rule getOperand_returns [OF wfv V wf_operandsD(1) [OF wfv V that]])
    have al: "A \<in> set (heap ir)"
      if "isa ir LoadInst V" "A \<in> set (aliasList ir ctx V (pointerOperand ir V))" for A
      using aliasList_heap [OF wfv h(8)] that by blast
    show ?thesis
      unfolding CV findSourceCVTodo.simps Let_def
      by (intro calls_in_if callSourceTodo_calls [OF wfv t V])
         (use h op al in \<open>auto simp: split_def calls_in_def intro!: returns_rbind\<close>)
  qed
qed

interpretation find_source: depth_first cv_key "\<lambda>x. actions (findSourceCVTodo ir ctx x)" cv_add cv_contents
  "findSourceCVF ir ctx" "set (heap ir)" "cv_valid ir ctx" for ir ctx
proof unfold_locales
  fix x y assume "cv_valid ir ctx x" and "y \<in> calls (actions (findSourceCVTodo ir ctx x))"
  then show "cv_valid ir ctx y"
    using calls_inD(2) [OF findSourceCVTodo_calls, of ir ctx x] by (auto simp: cv_valid_def)
next
  fix x n T and s :: cv_sets
  assume "cv_valid ir ctx x"
  then obtain ts where "findSourceCVTodo ir ctx x = Inr ts"
    using calls_inD(1) [OF findSourceCVTodo_calls, of ir ctx x] by blast
  then show "findSourceCVF ir ctx (Suc n) x (T, s) = (if cv_key x \<in> T then Inr (T, s)
      else foldM (run_action (findSourceCVF ir ctx n) cv_add)
        (actions (findSourceCVTodo ir ctx x)) (insert (cv_key x) T, s))"
    by simp
qed (auto simp: cv_contents_add cv_valid_def)

text \<open>
  What counts as a source: an argument of the function, or a call that fetches data from
  outside with the argument it is fetched through.
\<close>

definition isFetchSource :: "llvm \<Rightarrow> gctx \<Rightarrow> ptr \<Rightarrow> bool" where
  "isFetchSource ir ctx w \<longleftrightarrow> (\<exists>CI f. isa ir CallInst CI \<and> getCalledFuncName ir CI = Inr f \<and>
     (DataFetchFuncs ctx f \<noteq> None \<or> contains f ''get_user'') \<and> (w = CI \<or> w \<in> set (argOperands ir CI)))"

lemma getArgOperand_args: "getArgOperand ir CI i = Inr v \<Longrightarrow> v \<in> set (argOperands ir CI)"
  by (auto simp: getArgOperand_def Let_def split: if_splits)

lemma aliasUser_sources:
  assumes "aliasUserTodo ir ctx A U = Inr ts" "AddSource w \<in> effects ts"
  shows "isFetchSource ir ctx w"
proof -
  from assms obtain f Src where c: "isa ir CallInst U" and f: "getCalledFuncName ir U = Inr f"
    and S: "(case DataFetchFuncs ctx f of
         Some (dst, src) \<Rightarrow> if dst = 0 then getArgOperand ir U src else Inr NULL
       | None \<Rightarrow> Inr NULL) = Inr Src" "Src \<noteq> NULL" and w: "w = Src \<or> w = U"
    by (auto simp: aliasUserTodo_def rbind_Inr_iff split: if_splits)
  then obtain d s where "DataFetchFuncs ctx f = Some (d, s)" "getArgOperand ir U s = Inr Src"
    by (auto split: option.splits if_splits)
  with c f w show ?thesis unfolding isFetchSource_def by (blast dest: getArgOperand_args)
qed

lemma callSource_sources:
  assumes "callSourceTodo ir ctx CI = Inr ts" "AddSource w \<in> effects ts" "isa ir CallInst CI"
  shows "isFetchSource ir ctx w"
proof -
  from assms(1) obtain f Src where f: "getCalledFuncName ir CI = Inr f"
    and S: "(case DataFetchFuncs ctx f of
         Some (dst, src) \<Rightarrow> if dst = -1 then getArgOperand ir CI src else Inr NULL
       | None \<Rightarrow> if isa ir InlineAsm (calledValue ir CI) \<and> contains f ''get_user''
                 then getArgOperand ir CI 0 else Inr NULL) = Inr Src"
    and t: "(if Src \<noteq> NULL
       then Inr [Inr (AddCV CI), Inr (AddSource Src), Inr (AddSource CI), Inr (AddCV Src)]
       else Inr [Inr (AddCV CI)]) = (Inr ts :: cv_todo res)"
    unfolding callSourceTodo_def rbind_Inr_iff by blast
  from t assms(2) have "Src \<noteq> NULL" and w: "w = Src \<or> w = CI" by (auto split: if_splits)
  with S obtain i where "DataFetchFuncs ctx f \<noteq> None \<or> contains f ''get_user''" "getArgOperand ir CI i = Inr Src"
    by (fastforce split: option.splits if_splits)
  with assms(3) f w show ?thesis unfolding isFetchSource_def by (blast dest: getArgOperand_args)
qed

lemma findSourceCVTodo_sources:
  assumes "cv_valid ir ctx x" "AddSource w \<in> effects (actions (findSourceCVTodo ir ctx x))"
  shows "isa ir Argument w \<or> isFetchSource ir ctx w"
proof -
  have wfv: "wf_values ir ctx" using assms by (simp add: cv_valid_def)
  obtain ts where ts: "findSourceCVTodo ir ctx x = Inr ts"
    using calls_inD(1) [OF findSourceCVTodo_calls [OF assms(1)]] by blast
  show ?thesis
  proof (cases x)
    case (CVAlias A)
    with ts have c: "concatM (aliasUserTodo ir ctx A) (users ir A) = Inr ts" by simp
    then obtain U where "U \<in> set (users ir A)" "AddSource w \<in> effects (actions (aliasUserTodo ir ctx A U))"
      using assms(2) calls_concatM(2) [OF c] by (auto simp: ts)
    then show ?thesis using concatM_defined [OF c] aliasUser_sources by (metis actions_Inr)
  next
    case (CV V)
    then have V: "V \<in> set (heap ir)" using assms(1) by (auto simp: cv_valid_def)
    have gl: "isa ir GlobalVariable V \<Longrightarrow> isConstant ir V"
      using wf_classesD(2) [OF wf_valuesD(2) [OF wfv]] wf_valuesD_null [OF wfv V] by (simp add: isConstant_def)
    show ?thesis
    proof (cases "\<not> isConstant ir V \<and> \<not> isa ir ConstantExpr V \<and> \<not> isa ir Argument V \<and>
        \<not> isa ir GlobalVariable V \<and> isa ir CallInst V \<and> calledValue ir V \<noteq> NULL")
      case True
      then have "callSourceTodo ir ctx V = Inr ts" using ts by (simp add: CV)
      then show ?thesis using callSource_sources assms(2) True by (simp add: ts)
    next
      case False
      have "w = V \<and> isa ir Argument V"
        using assms(2) ts False gl unfolding CV
        by (auto simp: Let_def split_def rbind_Inr_iff split: if_splits)
      then show ?thesis by blast
    qed
  qed
qed

lemma findSourceCV_returns:
  assumes "wf_values ir ctx" "table_args ir ctx" "V \<in> set (heap ir)"
  shows "returns (findSourceCV ir ctx V (TrackedSet, SourceSet, CVSet)) (\<lambda>(TrackedSet', SourceSet', CVSet').
    insert V TrackedSet \<subseteq> TrackedSet' \<and> SourceSet \<subseteq> SourceSet' \<and> CVSet \<subseteq> CVSet' \<and>
    (\<forall>w \<in> SourceSet' - SourceSet. isa ir Argument w \<or> isFetchSource ir ctx w))"
proof -
  have v: "cv_valid ir ctx (CV V)" using assms by (simp add: cv_valid_def)
  obtain T s N where r: "findSourceCV ir ctx V (TrackedSet, SourceSet, CVSet) = Inr (T, s)"
    and e: "find_source.expands ir ctx (reach_set (find_source.nxt ir ctx) {CV V}) {}
      (TrackedSet, SourceSet, CVSet) N (T, s)" and k: "V \<in> T"
    using find_source.visit_enough [OF v heap_fuel, of "(TrackedSet, SourceSet, CVSet)"]
    unfolding findSourceCV_def by (elim returnsE) force
  note D = find_source.expandsD [OF e, unfolded fst_conv snd_conv]
  have valid: "cv_valid ir ctx y" if "y \<in> N" for y
  proof -
    have "reach_set (find_source.nxt ir ctx) {CV V} \<subseteq> {y. cv_valid ir ctx y}"
    proof (rule reach_set_least)
      show "find_source.nxt ir ctx y \<subseteq> {y. cv_valid ir ctx y}" if "y \<in> {y. cv_valid ir ctx y}" for y
        using that find_source.call_valid [of ir ctx y] unfolding find_source.nxt_def by blast
    qed (use v in simp)
    then show ?thesis using D(3) that by blast
  qed
  have sets: "SourceSet \<subseteq> fst s" "CVSet \<subseteq> snd s"
    unfolding cv_contents_sets [of s] D(6) by (auto simp: cv_contents_def)
  have new: "isa ir Argument w \<or> isFetchSource ir ctx w" if "w \<in> fst s - SourceSet" for w
  proof -
    have "AddSource w \<in> cv_contents s" and "w \<notin> SourceSet" using that by (auto simp: cv_contents_def)
    then obtain y where "y \<in> N" "AddSource w \<in> effects (actions (findSourceCVTodo ir ctx y))"
      unfolding D(6) by (auto simp: cv_contents_def)
    then show ?thesis using findSourceCVTodo_sources [OF valid] by blast
  qed
  show ?thesis using sets new k D(1) by (auto simp: r split_def)
qed

end
