(* ===== verification/MissingTheorems.thy ===== *)
theory MissingTheorems
  imports MissingResults DataFlowTheorems
begin

text \<open>
  The data base of modelled checks as a step relation with its invariant, and the two slicing
  searches as instances of \<open>depth_first_stop\<close>.
\<close>

section \<open>Modelled checks\<close>

lemma model_sc_equiv_iff: "model_sc_equiv a b \<longleftrightarrow> mSrcUse a = mSrcUse b"
  by (auto simp: model_sc_equiv_def model_sc_less_def)

lemma findModelSC_iff: "findModelSC M S \<longleftrightarrow> mSrcUse M \<in> mSrcUse ` set S"
  unfolding findModelSC_def model_sc_equiv_iff by (metis (no_types) imageE imageI)

lemma set_insertModelSC:
  "set (insertModelSC M S) = (if mSrcUse M \<in> mSrcUse ` set S then set S else insert M (set S))"
proof -
  have "set S = set (takeWhile P S) \<union> set (dropWhile P S)" for P
    by (metis set_append takeWhile_dropWhile_id)
  moreover have "(\<exists>N \<in> set S. model_sc_equiv N M) \<longleftrightarrow> mSrcUse M \<in> mSrcUse ` set S"
    using findModelSC_iff by (simp add: findModelSC_def)
  ultimately show ?thesis by (auto simp: insertModelSC_def)
qed

lemma modelCheck_Inr:
  assumes "CmpI \<noteq> NULL" "1 < length (operands ir CmpI)"
  shows "\<exists>M. modelCheck ir CmpI SrcUse ArgNo = Inr M \<and> mSrcUse M = SrcUse \<and> mArgNo M = ArgNo"
  using assms by (simp add: modelCheck_def getOperand_def)

lemma modelCheck_use: "modelCheck ir CmpI SrcUse ArgNo = Inr M \<Longrightarrow> mSrcUse M = SrcUse"
  by (auto simp: modelCheck_def rbind_Inr_iff split: if_splits)

section \<open>Steps on the data base\<close>

text \<open>
  Stage 1 records checks, stage 2 counts occurrences of what stage 1 recorded. Every function
  of a stage is a sequence of steps of that stage.
\<close>

inductive check_step :: "mc_state \<Rightarrow> mc_state \<Rightarrow> bool" where
  src: "mSrcUse M = fst Src \<Longrightarrow> check_step st (addSrcCheck Src M st)"
| use: "mSrcUse M = fst Use \<Longrightarrow> check_step st (addUseCheck Use M st)"

inductive count_step :: "mc_state \<Rightarrow> mc_state \<Rightarrow> bool" where
  src: "Src \<in> CheckedSrcSet st \<Longrightarrow> count_step st (countSrc b Src V st)"
| use: "Use \<in> CheckedUseSet st \<Longrightarrow> count_step st (countUseOf b Use V st)"

inductive_cases check_stepE: "check_step st st'"
inductive_cases count_stepE: "count_step st st'"

text \<open>A loop whose body takes steps takes steps.\<close>

lemma foldM_steps:
  assumes "\<And>x s s'. x \<in> set xs \<Longrightarrow> f x s = Inr s' \<Longrightarrow> R\<^sup>*\<^sup>* s s'" and "foldM f xs s = Inr s'"
  shows "R\<^sup>*\<^sup>* s s'"
  using assms
proof (induction xs arbitrary: s)
  case (Cons x xs)
  from Cons.prems(2) obtain t where t: "f x s = Inr t" "foldM f xs t = Inr s'"
    by (auto simp: rbind_Inr_iff)
  have "R\<^sup>*\<^sup>* s t" by (rule Cons.prems(1) [OF _ t(1)]) simp
  moreover have "R\<^sup>*\<^sup>* t s'" by (rule Cons.IH [OF Cons.prems(1) t(2)]) simp_all
  ultimately show ?case by (rule rtranclp_trans)
qed simp

lemma countCheck_steps:
  assumes "countCheck ir SCI SrcUse ArgNo add st = Inr st'" "add = addSrcCheck \<or> add = addUseCheck"
  shows "check_step\<^sup>*\<^sup>* st st'"
proof -
  from assms(1) obtain M where M: "mSrcUse M = SrcUse" and st': "st' = add (SrcUse, ArgNo) M st"
    by (auto simp: countCheck_def rbind_Inr_iff dest: modelCheck_use)
  have "check_step st st'"
    using assms(2) M unfolding st' by (auto intro: check_step.intros)
  then show ?thesis by (rule r_into_rtranclp)
qed

lemma countArgumentSource_steps:
  assumes "countArgumentSource ir ctx F SCI Arg st = Inr st'"
  shows "check_step\<^sup>*\<^sup>* st st'"
proof (cases "hasAddressTaken ir F")
  case True
  then have l: "foldM (\<lambda>CI st. if calledFunction ir CI \<noteq> NULL then Inr st
      else countCheck ir SCI CI (argNoFrom (-1) Arg (args ir F)) addSrcCheck st)
      (smallSetOrder ir (Callers ctx F)) st = Inr st'"
    using assms by (simp add: countArgumentSource_def Let_def)
  show ?thesis
    by (rule foldM_steps [OF _ l]) (auto intro: countCheck_steps split: if_splits)
qed (use assms in \<open>simp add: countArgumentSource_def\<close>)

lemma countOutputUser_steps:
  "countOutputUser ir ctx SCI predBBs CT U st = Inr st' \<Longrightarrow> check_step\<^sup>*\<^sup>* st st'"
  by (auto simp: countOutputUser_def Let_def intro: countCheck_steps split: if_splits)

lemma countSource_steps:
  assumes "countSource ir ctx F SCI predBBs CT st = Inr st'"
  shows "check_step\<^sup>*\<^sup>* st st'"
proof (cases "isa ir Argument CT")
  case True
  then show ?thesis using assms by (simp add: countSource_def countArgumentSource_steps)
next
  case False
  show ?thesis
  proof (cases "isa ir CallInst CT")
    case True
    with False assms show ?thesis
      by (auto simp: countSource_def countCallSource_def Let_def intro: countCheck_steps split: if_splits)
  next
    case no: False
    then have l: "foldM (countOutputUser ir ctx SCI predBBs CT) (users ir CT) st = Inr st'"
      using False assms by (simp add: countSource_def)
    show ?thesis by (rule foldM_steps [OF _ l], rule countOutputUser_steps)
  qed
qed

lemma countUse_steps: "countUse ir ctx SCI Use st = Inr st' \<Longrightarrow> check_step\<^sup>*\<^sup>* st st'"
  by (auto simp: countUse_def Let_def intro: countCheck_steps split: if_splits)

lemma countSrcUseChecks_steps:
  assumes "countSrcUseChecks ir ctx F SCI st = Inr st'"
  shows "check_step\<^sup>*\<^sup>* st st'"
proof -
  have uses: "check_step\<^sup>*\<^sup>* s s'"
    if "foldM (\<lambda>UM st. foldM (countUse ir ctx SCI) (inOrder (snd UM)) st) UseMap s = Inr s'" for UseMap s s'
    by (rule foldM_steps [OF _ that], rule foldM_steps, rule countUse_steps)
  have srcs: "check_step\<^sup>*\<^sup>* s s'" if "foldM (countSource ir ctx F SCI predBBs) CTs s = Inr s'"
    for predBBs CTs s s'
    by (rule foldM_steps [OF _ that], rule countSource_steps)
  show ?thesis
    using assms
    by (auto simp: countSrcUseChecks_def Let_def rbind_Inr_iff dest!: uses srcs split: if_splits)
qed

lemma uncheckedCallee_steps:
  assumes "uncheckedCallee ir ctx F CI ArgNo Callee st = Inr st'" "src_c CI ArgNo \<in> CheckedSrcSet st"
  shows "count_step\<^sup>*\<^sup>* st st'"
  using assms
  by (auto simp: uncheckedCallee_def Let_def rbind_Inr_iff split: if_splits intro: count_step.src)

lemma checked_sets_count [simp]:
  "CheckedSrcSet (countSrc b Src V st) = CheckedSrcSet st" "CheckedUseSet (countSrc b Src V st) = CheckedUseSet st"
  "CheckedSrcSet (countUseOf b Use V st) = CheckedSrcSet st" "CheckedUseSet (countUseOf b Use V st) = CheckedUseSet st"
  by (simp_all add: countSrc_def countUseOf_def addSrcUncheck_def addUseUncheck_def Let_def)

text \<open>Counting changes neither the recorded checks nor the stage.\<close>

definition same_checks :: "mc_state \<Rightarrow> mc_state \<Rightarrow> bool" where
  "same_checks st st' \<longleftrightarrow>
     SrcCheckCount st' = SrcCheckCount st \<and> UseCheckCount st' = UseCheckCount st \<and>
     CheckedSrcSet st' = CheckedSrcSet st \<and> CheckedUseSet st' = CheckedUseSet st \<and>
     SrcChecksMap st' = SrcChecksMap st \<and> UseChecksMap st' = UseChecksMap st \<and>
     AnalysisStage st' = AnalysisStage st \<and> MIdx st' = MIdx st"

lemma count_step_same: "count_step\<^sup>*\<^sup>* st st' \<Longrightarrow> same_checks st st'"
proof (induction rule: rtranclp_induct)
  case (step t u)
  from step.hyps(2) have "same_checks t u"
    by cases (simp_all add: same_checks_def countSrc_def countUseOf_def addSrcUncheck_def addUseUncheck_def Let_def)
  with step.IH show ?case by (simp add: same_checks_def)
qed (simp add: same_checks_def)

lemma foldM_steps_inv:
  assumes "\<And>x s s'. x \<in> set xs \<Longrightarrow> P s \<Longrightarrow> f x s = Inr s' \<Longrightarrow> R\<^sup>*\<^sup>* s s'"
    and "\<And>s s'. P s \<Longrightarrow> R\<^sup>*\<^sup>* s s' \<Longrightarrow> P s'" and "P s" and "foldM f xs s = Inr s'"
  shows "R\<^sup>*\<^sup>* s s'"
  using assms(1,3,4)
proof (induction xs arbitrary: s)
  case (Cons x xs)
  from Cons.prems(3) obtain t where t: "f x s = Inr t" "foldM f xs t = Inr s'"
    by (auto simp: rbind_Inr_iff)
  have r: "R\<^sup>*\<^sup>* s t" by (rule Cons.prems(1) [OF _ Cons.prems(2) t(1)]) simp
  moreover have "R\<^sup>*\<^sup>* t s'"
    by (rule Cons.IH [OF Cons.prems(1) assms(2) [OF Cons.prems(2) r] t(2)]) simp_all
  ultimately show ?case by (rule rtranclp_trans)
qed simp

lemma uncheckedIndirectCall_steps:
  assumes "uncheckedIndirectCall ir ctx F CI st = Inr st'"
  shows "count_step\<^sup>*\<^sup>* st st'"
  using assms unfolding uncheckedIndirectCall_def
proof (rule foldM_steps [rotated])
  fix ArgNo s s'
  assume r: "(if src_c CI ArgNo \<notin> CheckedSrcSet s then Inr s
      else foldM (uncheckedCallee ir ctx F CI ArgNo) (smallSetOrder ir (Callees ctx CI)) s) = Inr s'"
  show "count_step\<^sup>*\<^sup>* s s'"
  proof (cases "src_c CI ArgNo \<in> CheckedSrcSet s")
    case True
    with r have l: "foldM (uncheckedCallee ir ctx F CI ArgNo) (smallSetOrder ir (Callees ctx CI)) s = Inr s'"
      by simp
    show ?thesis
      by (rule foldM_steps_inv [where P = "\<lambda>s. src_c CI ArgNo \<in> CheckedSrcSet s", OF _ _ True l])
         (auto dest: count_step_same simp: same_checks_def intro: uncheckedCallee_steps)
  qed (use r in simp)
qed

lemma uncheckedSource_steps:
  assumes "uncheckedSource ir ctx F CI CF ArgNo st = Inr st'"
  shows "count_step\<^sup>*\<^sup>* st st'"
proof -
  have step: "count_step\<^sup>*\<^sup>* st (countSrc b Src V st)" if "Src \<in> CheckedSrcSet st" for b Src V
    using that by (intro r_into_rtranclp count_step.src)
  show ?thesis
    using assms unfolding uncheckedSource_def Let_def
    by (elim rbindE ifE) (auto simp: split_def intro: step)
qed

lemma uncheckedUse_steps:
  assumes "uncheckedUse ir ctx F CI CF ArgNo st = Inr st'"
  shows "count_step\<^sup>*\<^sup>* st st'"
proof -
  have step: "count_step\<^sup>*\<^sup>* st (countUseOf b Use V st)" if "Use \<in> CheckedUseSet st" for b Use V
    using that by (intro r_into_rtranclp count_step.use)
  show ?thesis
    using assms unfolding uncheckedUse_def Let_def
    by (elim rbindE ifE) (auto simp: split_def intro: step)
qed

lemma uncheckedCall_steps:
  assumes "uncheckedCall ir ctx F CI st = Inr st'"
  shows "count_step\<^sup>*\<^sup>* st st'"
proof -
  have srcs: "count_step\<^sup>*\<^sup>* s s'" if "foldM (uncheckedSource ir ctx F CI CF) ns s = Inr s'" for CF ns s s'
    by (rule foldM_steps [OF _ that], rule uncheckedSource_steps)
  have uses: "count_step\<^sup>*\<^sup>* s s'" if "foldM (uncheckedUse ir ctx F CI CF) ns s = Inr s'" for CF ns s s'
    by (rule foldM_steps [OF _ that], rule uncheckedUse_steps)
  have both: "count_step\<^sup>*\<^sup>* st st'"
    if "foldM (uncheckedSource ir ctx F CI CF) ns st = Inr t" "foldM (uncheckedUse ir ctx F CI CF) ms t = Inr st'"
    for CF ns ms t
    using srcs [OF that(1)] uses [OF that(2)] by (rule rtranclp_trans)
  show ?thesis
    using assms unfolding uncheckedCall_def Let_def
    by (elim rbindE ifE) (assumption | (erule uncheckedIndirectCall_steps) | (erule both, assumption) | simp)+
qed

lemma countSrcUseUnchecks_steps:
  assumes "countSrcUseUnchecks ir ctx F st = Inr st'"
  shows "count_step\<^sup>*\<^sup>* st st'"
  using assms unfolding countSrcUseUnchecks_def
  by (rule foldM_steps [rotated]) (rule uncheckedCall_steps)

section \<open>The invariant of the data base\<close>

text \<open>
  The checked sources are the keys of the check counters and of the nonempty check sets; every
  recorded check is filed under its own source; and only checked sources are counted.
\<close>

definition table_ok ::
  "(src_t \<rightharpoonup> uint32) \<Rightarrow> src_t set \<Rightarrow> (src_t \<Rightarrow> model_sc list) \<Rightarrow> (src_t \<rightharpoonup> uint32) \<Rightarrow> bool"
where
  "table_ok Checks Checked ChecksMap Unchecks \<longleftrightarrow>
     finite Checked \<and> Checked = dom Checks \<and> (\<forall>k. k \<in> Checked \<longleftrightarrow> ChecksMap k \<noteq> []) \<and>
     (\<forall>k. \<forall>M \<in> set (ChecksMap k). mSrcUse M = fst k) \<and> dom Unchecks \<subseteq> Checked"

definition db_ok :: "mc_state \<Rightarrow> bool" where
  "db_ok st \<longleftrightarrow>
     table_ok (SrcCheckCount st) (CheckedSrcSet st) (SrcChecksMap st) (SrcUncheckCount st) \<and>
     table_ok (UseCheckCount st) (CheckedUseSet st) (UseChecksMap st) (UseUncheckCount st)"

lemma table_okD:
  assumes "table_ok Checks Checked ChecksMap Unchecks"
  shows "finite Checked" "k \<in> Checked \<longleftrightarrow> (\<exists>n. Checks k = Some n)" "k \<in> Checked \<longleftrightarrow> ChecksMap k \<noteq> []"
    and "M \<in> set (ChecksMap k) \<Longrightarrow> mSrcUse M = fst k" "Unchecks k = Some n \<Longrightarrow> k \<in> Checked"
proof -
  note d = assms [unfolded table_ok_def]
  show "finite Checked" using d by (rule conjunct1)
  note 1 = conjunct2 [OF d] note 2 = conjunct2 [OF 1] note 3 = conjunct2 [OF 2]
  show "k \<in> Checked \<longleftrightarrow> (\<exists>n. Checks k = Some n)" unfolding conjunct1 [OF 1] by (simp add: dom_def)
  show "Unchecks k = Some n \<Longrightarrow> k \<in> Checked" by (rule subsetD [OF conjunct2 [OF 3]]) (simp add: dom_def)
  show "k \<in> Checked \<longleftrightarrow> ChecksMap k \<noteq> []" using conjunct1 [OF 2] by (rule spec)
  show "M \<in> set (ChecksMap k) \<Longrightarrow> mSrcUse M = fst k" by (rule bspec [OF spec [OF conjunct1 [OF 3]]])
qed

lemma dom_bump [simp]: "dom (bump k C) = insert k (dom C)"
  by (simp add: bump_def)

lemma insertModelSC_nonempty [simp]: "insertModelSC M S \<noteq> []"
  by (auto simp: insertModelSC_def)

lemma insertModelSC_use:
  "M' \<in> set (insertModelSC M S) \<Longrightarrow> (\<And>N. N \<in> set S \<Longrightarrow> mSrcUse N = u) \<Longrightarrow> mSrcUse M = u \<Longrightarrow> mSrcUse M' = u"
  by (auto simp: set_insertModelSC split: if_splits)

lemma table_ok_check:
  assumes "table_ok C S T U" and "mSrcUse M = fst k"
  shows "table_ok (bump k C) (insert k S) (T(k := insertModelSC M (T k))) U"
  using assms unfolding table_ok_def
  by (auto elim: insertModelSC_use)

lemma table_ok_uncheck: "table_ok C S T U \<Longrightarrow> k \<in> S \<Longrightarrow> table_ok C S T (bump k U)"
  unfolding table_ok_def by (elim conjE, intro conjI) (simp_all only: dom_bump insert_subset simp_thms)

lemma db_ok_new: "db_ok newMissingChecks"
  by (simp add: db_ok_def table_ok_def newMissingChecks_def)

lemma db_ok_record [simp]: "db_ok (st\<lparr>AnalysisStage := a\<rparr>) = db_ok st" "db_ok (st\<lparr>MIdx := i\<rparr>) = db_ok st"
  by (simp_all add: db_ok_def)

lemma check_step_ok:
  assumes "check_step st st'" "db_ok st"
  shows "db_ok st'"
  using assms(1)
proof cases
  case (src M Src)
  then show ?thesis
    using assms(2) table_ok_check [OF _ src(2)] by (simp add: db_ok_def addSrcCheck_def)
next
  case (use M Use)
  then show ?thesis
    using assms(2) table_ok_check [OF _ use(2)] by (simp add: db_ok_def addUseCheck_def)
qed

lemma count_step_ok:
  assumes "count_step st st'" "db_ok st"
  shows "db_ok st'"
  using assms(1)
proof cases
  case (src Src b V)
  then show ?thesis
    using assms(2) table_ok_uncheck by (simp add: db_ok_def countSrc_def addSrcUncheck_def Let_def)
next
  case (use Use b V)
  then show ?thesis
    using assms(2) table_ok_uncheck by (simp add: db_ok_def countUseOf_def addUseUncheck_def Let_def)
qed

lemma check_steps_ok: "check_step\<^sup>*\<^sup>* st st' \<Longrightarrow> db_ok st \<Longrightarrow> db_ok st'"
  by (induction rule: rtranclp_induct) (simp_all add: check_step_ok)

lemma count_steps_ok: "count_step\<^sup>*\<^sup>* st st' \<Longrightarrow> db_ok st \<Longrightarrow> db_ok st'"
  by (induction rule: rtranclp_induct) (simp_all add: count_step_ok)

section \<open>Forward slices\<close>

lemma alias_heap:
  assumes "wf_values ir ctx" "p \<in> set (heap ir)"
  shows "getAliasPointers p (FuncPAResults ctx F) \<subseteq> set (heap ir)"
    and "set (sorted_list_of_set (getAliasPointers p (FuncPAResults ctx F))) =
      getAliasPointers p (FuncPAResults ctx F)"
proof -
  show h: "getAliasPointers p (FuncPAResults ctx F) \<subseteq> set (heap ir)"
    using wf_valuesD(3) [OF assms(1)] assms(2) by (auto simp: getAliasPointers_def split: option.splits)
  have "finite (getAliasPointers p (FuncPAResults ctx F))" using h by (rule finite_subset) simp
  then show "set (sorted_list_of_set (getAliasPointers p (FuncPAResults ctx F))) =
      getAliasPointers p (FuncPAResults ctx F)" by simp
qed

text \<open>
  The specification: whether a user of a value counts as its check, and where the value goes
  on. A comparison counts as soon as any check of the source is recorded.
\<close>

definition checksSource :: "llvm \<Rightarrow> gctx \<Rightarrow> mc_state \<Rightarrow> ptr \<Rightarrow> src_t \<Rightarrow> ptr set \<Rightarrow> ptr \<Rightarrow> bool" where
  "checksSource ir ctx st F Src Scope U \<longleftrightarrow>
     isa ir Instruction U \<and> getParent ir U \<in> Scope \<and>
     (isa ir CmpInst U \<and> SrcChecksMap st Src \<noteq> [] \<or> isa ir SwitchInst U \<or>
      isa ir CallInst U \<and> U \<in> CheckInstSets ctx F \<or> isa ir ReturnInst U)"

definition flowsThrough :: "llvm \<Rightarrow> gctx \<Rightarrow> ptr \<Rightarrow> ptr set \<Rightarrow> ptr \<Rightarrow> ptr \<Rightarrow> ptr set" where
  "flowsThrough ir ctx F Scope V U =
     (if \<not> isa ir Instruction U \<or> getParent ir U \<notin> Scope then {}
      else if isa ir StoreInst U then
        {LI. valueOperand ir U = V \<and> isa ir LoadInst LI \<and>
           (\<exists>A \<in> getAliasPointers (pointerOperand ir U) (FuncPAResults ctx F). LI \<in> set (users ir A))}
      else if isa ir GetElementPtrInst U then {W. W = U \<and> pointerOperand ir U = V}
      else if isa ir PHINode U \<or> isa ir UnaryInstruction U \<or> isa ir BinaryOperator U then {U}
      else {})"

lemma inModeledCheckSet_eq:
  assumes "db_ok st" "CmpI \<noteq> NULL" "1 < length (operands ir CmpI)"
  shows "inModeledCheckSet ir st CmpI V ArgNo IsSrc =
    Inr (if IsSrc then SrcChecksMap st (V, ArgNo) \<noteq> [] else UseChecksMap st (V, ArgNo) \<noteq> [])"
proof -
  obtain M where M: "modelCheck ir CmpI V ArgNo = Inr M" "mSrcUse M = V"
    using modelCheck_Inr [OF assms(2,3)] by blast
  have s: "findModelSC M (SrcChecksMap st (V, ArgNo)) \<longleftrightarrow> SrcChecksMap st (V, ArgNo) \<noteq> []"
    and u: "findModelSC M (UseChecksMap st (V, ArgNo)) \<longleftrightarrow> UseChecksMap st (V, ArgNo) \<noteq> []"
  proof -
    have key: "findModelSC M S \<longleftrightarrow> S \<noteq> []" if "\<And>N. N \<in> set S \<Longrightarrow> mSrcUse N = V" for S
      using that by (cases S) (auto simp: findModelSC_iff M(2) image_iff)
    show "findModelSC M (SrcChecksMap st (V, ArgNo)) \<longleftrightarrow> SrcChecksMap st (V, ArgNo) \<noteq> []"
      using assms(1) by (intro key) (auto simp: db_ok_def dest: table_okD(4))
    show "findModelSC M (UseChecksMap st (V, ArgNo)) \<longleftrightarrow> UseChecksMap st (V, ArgNo) \<noteq> []"
      using assms(1) by (intro key) (auto simp: db_ok_def dest: table_okD(4))
  qed
  show ?thesis by (simp add: inModeledCheckSet_def M(1) src_c_def use_c_def s u)
qed

lemma forwardUser_spec:
  assumes wfv: "wf_values ir ctx" and db: "db_ok st" and U: "U \<in> set (heap ir)"
  shows "returns (forwardUserTodo ir ctx st F Src Scope V U) (\<lambda>ts.
    calls ts = (if checksSource ir ctx st F Src Scope U then {} else flowsThrough ir ctx F Scope V U) \<and>
    effects ts = (if checksSource ir ctx st F Src Scope U then {()} else {}))"
proof (cases "isa ir Instruction U \<and> getParent ir U \<in> Scope")
  case False
  then show ?thesis by (auto simp: forwardUserTodo_def checksSource_def flowsThrough_def)
next
  case scope: True
  have null: "U \<noteq> NULL" by (rule wf_valuesD_null [OF wfv U])
  have disj: "isa ir k U \<Longrightarrow> isa ir k' U \<Longrightarrow> k \<in> set value_classes \<Longrightarrow> k' \<in> set value_classes \<Longrightarrow> k = k'"
    for k k' by (rule wf_valuesD_class [OF wfv])
  note defs = forwardUserTodo_def checksSource_def flowsThrough_def
  consider (cmp) "isa ir CmpInst U" | (switch) "isa ir SwitchInst U" | (ret) "isa ir ReturnInst U"
    | (call) "isa ir CallInst U" | (store) "isa ir StoreInst U" | (gep) "isa ir GetElementPtrInst U"
    | (other) "\<not> isa ir CmpInst U" "\<not> isa ir SwitchInst U" "\<not> isa ir ReturnInst U"
        "\<not> isa ir CallInst U" "\<not> isa ir StoreInst U" "\<not> isa ir GetElementPtrInst U" by blast
  then show ?thesis
  proof cases
    case cmp
    have "\<not> isa ir k U" if "k \<in> {SwitchInst, ReturnInst, CallInst, StoreInst, GetElementPtrInst, PHINode,
        UnaryInstruction, BinaryOperator}" for k
      using that disj [OF cmp, of k] by (auto simp: value_classes_def)
    moreover have "inModeledCheckSet ir st U (fst Src) (snd Src) True = Inr (SrcChecksMap st Src \<noteq> [])"
      using inModeledCheckSet_eq [OF db null, of ir "fst Src" "snd Src" True] wf_operandsD(2) [OF wfv U] cmp by simp
    ultimately show ?thesis using cmp scope null by (simp add: defs)
  next
    case switch
    have "\<not> isa ir CmpInst U" using disj [OF switch, of CmpInst] by (auto simp: value_classes_def)
    then show ?thesis using switch scope null by (simp add: defs)
  next
    case ret
    have "\<not> isa ir k U" if "k \<in> {CmpInst, SwitchInst, CallInst}" for k
      using that disj [OF ret, of k] by (auto simp: value_classes_def)
    then show ?thesis using ret scope null by (simp add: defs)
  next
    case call
    have "\<not> isa ir k U" if "k \<in> {CmpInst, SwitchInst, ReturnInst, StoreInst, GetElementPtrInst, PHINode,
        UnaryInstruction, BinaryOperator}" for k
      using that disj [OF call, of k] by (auto simp: value_classes_def)
    then show ?thesis using call scope null by (simp add: defs)
  next
    case store
    have "\<not> isa ir k U" if "k \<in> {CmpInst, SwitchInst, ReturnInst, CallInst, GetElementPtrInst, PHINode,
        UnaryInstruction, BinaryOperator}" for k
      using that disj [OF store, of k] by (auto simp: value_classes_def)
    moreover have "pointerOperand ir U \<in> set (heap ir)"
      using wf_heapD(8) [OF wf_valuesD(1) [OF wfv] U] store by simp
    ultimately show ?thesis using store scope null
      by (auto simp: defs Let_def alias_heap(2) [OF wfv])
  next
    case gep
    have "\<not> isa ir k U" if "k \<in> {CmpInst, SwitchInst, ReturnInst, CallInst, StoreInst, PHINode,
        UnaryInstruction, BinaryOperator}" for k
      using that disj [OF gep, of k] by (auto simp: value_classes_def)
    then show ?thesis using gep scope null by (simp add: defs)
  next
    case other
    then show ?thesis using scope null by (simp add: defs)
  qed
qed

lemma flowsThrough_heap:
  assumes "wf_values ir ctx" "U \<in> set (heap ir)"
  shows "flowsThrough ir ctx F Scope V U \<subseteq> set (heap ir)"
proof -
  note wf = wf_valuesD(1) [OF assms(1)]
  have "set (users ir A) \<subseteq> set (heap ir)"
    if "isa ir StoreInst U" "A \<in> getAliasPointers (pointerOperand ir U) (FuncPAResults ctx F)" for A
  proof -
    have "pointerOperand ir U \<in> set (heap ir)" using wf_heapD(8) [OF wf assms(2)] that(1) by simp
    then have "A \<in> set (heap ir)" using alias_heap(1) [OF assms(1)] that(2) by blast
    then show ?thesis by (rule wf_heapD(1) [OF wf])
  qed
  then show ?thesis using assms(2) by (auto simp: flowsThrough_def split: if_splits)
qed

interpretation forward: depth_first_stop_id "users ir" "forwardUserTodo ir ctx st F Src Scope"
  "isCheckedForwardF ir ctx st F Src Scope" "set (heap ir)"
  "\<lambda>V. wf_values ir ctx \<and> db_ok st \<and> V \<in> set (heap ir)" for ir ctx st F Src Scope
proof unfold_locales
  fix V U
  assume v: "wf_values ir ctx \<and> db_ok st \<and> V \<in> set (heap ir)" and "U \<in> set (users ir V)"
  then have U: "U \<in> set (heap ir)" using wf_heapD(1) [OF wf_valuesD(1)] by blast
  have w: "wf_values ir ctx" and d: "db_ok st" using v by simp_all
  show "calls_in {V. wf_values ir ctx \<and> db_ok st \<and> V \<in> set (heap ir)} (forwardUserTodo ir ctx st F Src Scope V U)"
    unfolding calls_in_def
    by (rule returns_mono [OF forwardUser_spec [OF w d U]]) (use v flowsThrough_heap [OF w U] in auto)
qed auto

text \<open>The values a source flows to inside the scope.\<close>

definition flowStep :: "llvm \<Rightarrow> gctx \<Rightarrow> mc_state \<Rightarrow> ptr \<Rightarrow> src_t \<Rightarrow> ptr set \<Rightarrow> ptr \<Rightarrow> ptr set" where
  "flowStep ir ctx st F Src Scope V =
     (\<Union>U \<in> {U \<in> set (users ir V). \<not> checksSource ir ctx st F Src Scope U}. flowsThrough ir ctx F Scope V U)"

definition checkedDownstream :: "llvm \<Rightarrow> gctx \<Rightarrow> mc_state \<Rightarrow> ptr \<Rightarrow> src_t \<Rightarrow> ptr set \<Rightarrow> ptr \<Rightarrow> bool" where
  "checkedDownstream ir ctx st F Src Scope V \<longleftrightarrow>
     (\<exists>W \<in> reach_set (flowStep ir ctx st F Src Scope) {V}. \<exists>U \<in> set (users ir W).
        checksSource ir ctx st F Src Scope U)"

lemma forward_spec:
  assumes "wf_values ir ctx" "db_ok st" "V \<in> set (heap ir)"
  shows "forward.nxt ir ctx st F Src Scope V = flowStep ir ctx st F Src Scope V"
    and "forward.hit ir ctx st F Src Scope V \<longleftrightarrow> (\<exists>U \<in> set (users ir V). checksSource ir ctx st F Src Scope U)"
proof -
  have U: "U \<in> set (heap ir)" if "U \<in> set (users ir V)" for U
    using wf_heapD(1) [OF wf_valuesD(1) [OF assms(1)] assms(3)] that by blast
  note s = returns_actions [OF forwardUser_spec [OF assms(1,2) U]]
  show "forward.nxt ir ctx st F Src Scope V = flowStep ir ctx st F Src Scope V"
    unfolding forward.nxt_def flowStep_def by (auto simp: s split: if_splits)
  show "forward.hit ir ctx st F Src Scope V \<longleftrightarrow> (\<exists>U \<in> set (users ir V). checksSource ir ctx st F Src Scope U)"
    unfolding forward.hit_def by (auto simp: s split: if_splits)
qed

lemma flowStep_heap:
  assumes "wf_values ir ctx" "V \<in> set (heap ir)"
  shows "flowStep ir ctx st F Src Scope V \<subseteq> set (heap ir)"
  using flowsThrough_heap [OF assms(1)] wf_heapD(1) [OF wf_valuesD(1) [OF assms(1)] assms(2)]
  by (fastforce simp: flowStep_def)

lemma isCheckedForward_decides:
  assumes w: "wf_values ir ctx" and d: "db_ok st" and V: "V \<in> set (heap ir)"
    and c: "forward.clean ir ctx st F Src Scope VSet"
  shows "returns (isCheckedForward ir ctx st F Src V Scope (VSet, False)) (\<lambda>(VSet', isChecked).
    isChecked = checkedDownstream ir ctx st F Src Scope V \<and>
    (\<not> isChecked \<longrightarrow> forward.clean ir ctx st F Src Scope VSet'))"
proof -
  have v: "wf_values ir ctx \<and> db_ok st \<and> V \<in> set (heap ir)" using assms by simp
  have R: "reach_set (forward.nxt ir ctx st F Src Scope) {V} = reach_set (flowStep ir ctx st F Src Scope) {V}"
    by (rule reach_set_cong [where X = "set (heap ir)"])
       (use V forward_spec(1) [OF w d] flowStep_heap [OF w] in simp_all)
  have "reach_set (flowStep ir ctx st F Src Scope) {V} \<subseteq> set (heap ir)"
    by (rule reach_set_least) (use V flowStep_heap [OF w] in simp_all)
  then have "(\<exists>W \<in> reach_set (flowStep ir ctx st F Src Scope) {V}. forward.hit ir ctx st F Src Scope W) =
      checkedDownstream ir ctx st F Src Scope V"
    unfolding checkedDownstream_def by (intro bex_cong refl forward_spec(2) [OF w d]) blast
  then show ?thesis
    using forward.visit_decides [OF v heap_fuel c]
    unfolding R isCheckedForward_def by (auto elim!: returns_mono)
qed

text \<open>Several slices that share their visited set.\<close>

lemma forwardSlices_decides:
  assumes w: "wf_values ir ctx" and d: "db_ok st" and V: "set TVs \<subseteq> set (heap ir)"
    and c: "forward.clean ir ctx st F Src Scope VSet"
  shows "returns (forwardSlices ir ctx st F Src Scope TVs (VSet, False)) (\<lambda>(VSet', isChecked).
    isChecked = (\<exists>TV \<in> set TVs. checkedDownstream ir ctx st F Src Scope TV))"
  using V c
proof (induction TVs arbitrary: VSet)
  case (Cons TV TVs)
  obtain W b where f: "isCheckedForward ir ctx st F Src TV Scope (VSet, False) = Inr (W, b)"
    and b: "b = checkedDownstream ir ctx st F Src Scope TV"
    and W: "\<not> b \<longrightarrow> forward.clean ir ctx st F Src Scope W"
  proof -
    have "TV \<in> set (heap ir)" using Cons.prems(1) by simp
    from isCheckedForward_decides [OF w d this Cons.prems(2)] that show ?thesis
      by (elim returnsE2) simp
  qed
  show ?case
  proof (cases b)
    case True
    then show ?thesis using b by (simp add: f)
  next
    case False
    then show ?thesis
      using b W Cons.IH [of W] Cons.prems(1) by (auto simp: f elim!: returns_mono)
  qed
qed simp

lemma clean_empty: "forward.clean ir ctx st F Src Scope {}"
  by (simp add: forward.clean_def)

section \<open>Backward slices\<close>

text \<open>The recorded callers are call instructions of the loaded modules.\<close>

definition wf_callers :: "llvm \<Rightarrow> gctx \<Rightarrow> bool" where
  "wf_callers ir ctx \<longleftrightarrow>
     (\<forall>F. \<forall>CI \<in> set (smallSetOrder ir (Callers ctx F)). CI \<in> set (heap ir) \<and> isa ir CallInst CI)"

definition checksUse :: "llvm \<Rightarrow> gctx \<Rightarrow> mc_state \<Rightarrow> use_t \<Rightarrow> backward_node \<Rightarrow> ptr \<Rightarrow> bool" where
  "checksUse ir ctx st Use = (\<lambda>(F, V, Scope, Depth) U.
     isa ir Instruction U \<and> getParent ir U \<in> Scope \<and>
     (isa ir CmpInst U \<and> UseChecksMap st Use \<noteq> [] \<or> isa ir SwitchInst U \<or>
      isa ir CallInst U \<and> U \<in> CheckInstSets ctx F))"

definition backwardValid :: "llvm \<Rightarrow> gctx \<Rightarrow> mc_state \<Rightarrow> backward_node \<Rightarrow> bool" where
  "backwardValid ir ctx st x \<longleftrightarrow>
     wf_values ir ctx \<and> db_ok st \<and> wf_callers ir ctx \<and> backwardKey x \<in> set (heap ir)"

lemma backwardUser_spec:
  assumes wfv: "wf_values ir ctx" and db: "db_ok st" and U: "U \<in> set (heap ir)"
  shows "returns (backwardUser ir ctx st Use x U) (\<lambda>ts.
    calls ts = {} \<and> effects ts = (if checksUse ir ctx st Use x U then {()} else {}))"
proof -
  obtain F V Scope Depth where x: "x = (F, V, Scope, Depth)" by (cases x)
  have null: "U \<noteq> NULL" by (rule wf_valuesD_null [OF wfv U])
  have disj: "isa ir k U \<Longrightarrow> isa ir k' U \<Longrightarrow> k \<in> set value_classes \<Longrightarrow> k' \<in> set value_classes \<Longrightarrow> k = k'"
    for k k' by (rule wf_valuesD_class [OF wfv])
  show ?thesis
  proof (cases "isa ir CmpInst U")
    case True
    have "\<not> isa ir SwitchInst U" "\<not> isa ir CallInst U"
      using disj [OF True] by (auto simp: value_classes_def)
    moreover have "inModeledCheckSet ir st U (fst Use) (snd Use) False = Inr (UseChecksMap st Use \<noteq> [])"
      using inModeledCheckSet_eq [OF db null, of ir "fst Use" "snd Use" False] wf_operandsD(2) [OF wfv U] True by simp
    ultimately show ?thesis using True null by (simp add: x backwardUser_def checksUse_def)
  next
    case False
    then show ?thesis using null by (simp add: x backwardUser_def checksUse_def)
  qed
qed

lemma backwardTodo_calls:
  assumes v: "backwardValid ir ctx st x" and i: "i \<in> set (backwardItems ir ctx x)"
  shows "calls_in {y. backwardValid ir ctx st y} (backwardTodo ir ctx st Use x i)"
proof -
  obtain F V Scope Depth where x: "x = (F, V, Scope, Depth)" by (cases x)
  have wfv: "wf_values ir ctx" and db: "db_ok st" and cs: "wf_callers ir ctx" and V: "V \<in> set (heap ir)"
    using v by (simp_all add: backwardValid_def backwardKey_def x)
  note wf = wf_valuesD(1) [OF wfv] and cl = wf_valuesD(2) [OF wfv]
  note h = wf_heapD [OF wf V]
  have ok: "backwardValid ir ctx st (F', W, S, n)" if "W \<in> set (heap ir)" for F' W S n
    using that wfv db cs by (simp add: backwardValid_def backwardKey_def)
  have op: "returns (getOperand ir V n) (\<lambda>op. op \<in> set (heap ir))" if "n < length (operands ir V)" for n
    by (rule getOperand_returns [OF wfv V that])
  show ?thesis
  proof (cases i)
    case (BUser U)
    then have "U \<in> set (users ir V)"
      using i by (auto simp: x backwardItems_def Let_def split: if_splits)
    then have "U \<in> set (heap ir)" using h(1) by blast
    then show ?thesis
      unfolding BUser backwardTodo_def backward_item.case calls_in_def
      by (intro returns_mono [OF backwardUser_spec [OF wfv db]]) simp_all
  next
    case (BCaller CI)
    then obtain PF where "CI \<in> set (smallSetOrder ir (Callers ctx PF))"
      using i by (auto simp: x backwardItems_def Let_def split: if_splits)
    then have C: "CI \<in> set (heap ir)" "isa ir CallInst CI" using cs unfolding wf_callers_def by blast+
    have p: "collectPredReachBlocks ir (getParent ir CI) {} =
        Inr (reach_set (\<lambda>b. set (predecessors ir b)) {getParent ir CI})"
      by (rule instruction_block(1) [OF wfv C(1) wf_classesD(8) [OF cl C(2)]])
    have "argOperands ir CI ! n \<in> set (heap ir)" if "n < length (argOperands ir CI)" for n
      using wf_heapD(3) [OF wf C(1)] that by (auto dest: nth_mem)
    then show ?thesis
      by (auto simp: BCaller x backwardTodo_def backwardCaller_def Let_def p calls_in_def intro!: ok)
  next
    case BOperands
    have al: "calls_in {y. backwardValid ir ctx st y} (Inr (concat (map (\<lambda>A.
        concat (map (backwardAlias ir (F, V, Scope, Depth)) (users ir A)))
        (sorted_list_of_set (getAliasPointers (pointerOperand ir V) (FuncPAResults ctx F))))))"
      if "isa ir LoadInst V"
    proof (rule calls_in_Inr, rule subsetI)
      have p: "pointerOperand ir V \<in> set (heap ir)" using h(8) that by simp
      fix y assume "y \<in> calls (concat (map (\<lambda>A. concat (map (backwardAlias ir (F, V, Scope, Depth)) (users ir A)))
        (sorted_list_of_set (getAliasPointers (pointerOperand ir V) (FuncPAResults ctx F)))))"
      then obtain A SU where A: "A \<in> getAliasPointers (pointerOperand ir V) (FuncPAResults ctx F)"
        and SU: "SU \<in> set (users ir A)" and y: "Inl y \<in> set (backwardAlias ir (F, V, Scope, Depth) SU)"
        by (auto simp: calls_def alias_heap(2) [OF wfv p])
      have "A \<in> set (heap ir)" using alias_heap(1) [OF wfv p] A by blast
      then have S: "SU \<in> set (heap ir)" using wf_heapD(1) [OF wf] SU by blast
      show "y \<in> {y. backwardValid ir ctx st y}"
        using y ok [OF S] ok [OF wf_heapD(9) [OF wf S]]
        by (auto simp: backwardAlias_def split: if_splits)
    qed
    note o = wf_operandsD [OF wfv V]
    have same: "backwardValid ir ctx st (F, operands ir V ! n, Scope, Depth)" if "n < length (operands ir V)" for n
      by (rule ok) (use h(2) that in \<open>auto dest: nth_mem\<close>)
    have un: "calls_in {y. backwardValid ir ctx st y}
        (rbind (getOperand ir V 0) (\<lambda>op. Inr [Inl (F, op, Scope, Depth)]))" if "isa ir UnaryInstruction V"
    proof -
      have "0 < length (operands ir V)" using o(1) that by blast
      then show ?thesis by (simp add: getOperand_Inr calls_in_def same)
    qed
    have bin: "calls_in {y. backwardValid ir ctx st y}
        (rbind (getOperand ir V 0) (\<lambda>op0. rbind (getOperand ir V 1)
          (\<lambda>op1. Inr [Inl (F, op0, Scope, Depth), Inl (F, op1, Scope, Depth)])))" if "isa ir BinaryOperator V"
    proof -
      have "1 < length (operands ir V)" "0 < length (operands ir V)" using o(2) that by force+
      then show ?thesis by (simp add: getOperand_Inr calls_in_def same)
    qed
    show ?thesis
      unfolding BOperands backwardTodo_def backwardOperandsTodo_def x Let_def
        backward_item.case prod.case
      by (intro calls_in_if al un bin)
         (use h in \<open>auto simp: calls_in_def split_def intro!: ok\<close>)
  qed
qed

interpretation backward: depth_first_stop backwardKey "backwardItems ir ctx" "backwardTodo ir ctx st Use"
  "isCheckedBackwardF ir ctx st Use" "set (heap ir)" "backwardValid ir ctx st" for ir ctx st Use
  by unfold_locales (simp_all add: backwardTodo_calls, simp add: backwardValid_def)

text \<open>A value counts as checked at a node where the depth allows it and a user checks it.\<close>

definition checkedAt :: "llvm \<Rightarrow> gctx \<Rightarrow> mc_state \<Rightarrow> use_t \<Rightarrow> backward_node \<Rightarrow> bool" where
  "checkedAt ir ctx st Use = (\<lambda>(F, V, Scope, Depth).
     Depth \<le> 5 \<and> \<not> isa ir Argument V \<and>
     (\<exists>U \<in> set (users ir V). checksUse ir ctx st Use (F, V, Scope, Depth) U))"

lemma backward_hit:
  assumes "backwardValid ir ctx st x" "backward.hit ir ctx st Use x"
  shows "checkedAt ir ctx st Use x"
proof -
  obtain F V Scope Depth where x: "x = (F, V, Scope, Depth)" by (cases x)
  have wfv: "wf_values ir ctx" and db: "db_ok st" and V: "V \<in> set (heap ir)"
    using assms(1) by (simp_all add: backwardValid_def backwardKey_def x)
  from assms(2) obtain i where i: "i \<in> set (backwardItems ir ctx x)"
    and e: "effects (actions (backwardTodo ir ctx st Use x i)) \<noteq> {}"
    unfolding backward.hit_def by blast
  have none: "effects (actions (backwardCaller ir x CI)) = {}" for CI
    unfolding x backwardCaller_def Let_def prod.case
    by (intro no_effects_if no_effects_rbind) simp_all
  have none': "effects (actions (backwardOperandsTodo ir ctx x)) = {}"
    unfolding x backwardOperandsTodo_def Let_def prod.case
    by (intro no_effects_if no_effects_rbind)
       (simp_all add: split_def effects_concat backwardAlias_def)
  from e obtain U where iU: "i = BUser U"
    using none none' by (cases i) (simp_all add: backwardTodo_def)
  with i have U: "U \<in> set (users ir V)" and d: "Depth \<le> 5" "\<not> isa ir Argument V"
    by (auto simp: x backwardItems_def Let_def split: if_splits)
  have "U \<in> set (heap ir)" using wf_heapD(1) [OF wf_valuesD(1) [OF wfv] V] U by blast
  from returns_actions(2) [OF backwardUser_spec [OF wfv db this]] e iU
  have "checksUse ir ctx st Use x U" by (simp add: backwardTodo_def split: if_splits)
  with U d show ?thesis by (auto simp: checkedAt_def x)
qed


lemma checkedAt_hits:
  assumes "backwardValid ir ctx st x" "checkedAt ir ctx st Use x"
  shows "backward.hit ir ctx st Use x"
proof -
  obtain F V Scope Depth where x: "x = (F, V, Scope, Depth)" by (cases x)
  have wfv: "wf_values ir ctx" and db: "db_ok st" and V: "V \<in> set (heap ir)"
    using assms(1) by (simp_all add: backwardValid_def backwardKey_def x)
  obtain U where d: "Depth \<le> 5" "\<not> isa ir Argument V" and U: "U \<in> set (users ir V)"
    and c: "checksUse ir ctx st Use x U"
    using assms(2) by (auto simp: checkedAt_def x)
  have "BUser U \<in> set (backwardItems ir ctx x)" using U d by (auto simp: x backwardItems_def Let_def)
  moreover have "U \<in> set (heap ir)" using wf_heapD(1) [OF wf_valuesD(1) [OF wfv] V] U by blast
  from returns_actions(2) [OF backwardUser_spec [OF wfv db this]]
  have "effects (actions (backwardTodo ir ctx st Use x (BUser U))) \<noteq> {}" by (simp add: backwardTodo_def c)
  ultimately show ?thesis unfolding backward.hit_def by blast
qed

text \<open>The nodes one node leads to: operands, stored values, loads and call sites.\<close>

definition backwardStep :: "llvm \<Rightarrow> gctx \<Rightarrow> mc_state \<Rightarrow> use_t \<Rightarrow> backward_node \<Rightarrow> backward_node set" where
  "backwardStep ir ctx st Use x =
     (\<Union>i \<in> set (backwardItems ir ctx x). calls (actions (backwardTodo ir ctx st Use x i)))"

lemma isCheckedBackward_finds:
  assumes v: "backwardValid ir ctx st (F, V, Scope, Depth)"
  shows "returns (isCheckedBackward ir ctx st F Use V Scope ({}, False) Depth) (\<lambda>(VSet, isChecked).
    if isChecked
    then \<exists>x \<in> reach_set (backwardStep ir ctx st Use) {(F, V, Scope, Depth)}. checkedAt ir ctx st Use x
    else V \<in> VSet \<and> (\<exists>N \<subseteq> reach_set (backwardStep ir ctx st Use) {(F, V, Scope, Depth)}.
      VSet = backwardKey ` N \<and>
      (\<forall>x \<in> N. \<not> checkedAt ir ctx st Use x \<and> backwardKey ` backwardStep ir ctx st Use x \<subseteq> VSet)))"
proof -
  let ?x = "(F, V, Scope, Depth)"
  let ?R = "reach_set (backwardStep ir ctx st Use) {?x}"
  have nxt: "backward.nxt ir ctx st Use = backwardStep ir ctx st Use"
    by (rule ext) (simp add: backward.nxt_def backwardStep_def)
  obtain V' b N where r: "isCheckedBackward ir ctx st F Use V Scope ({}, False) Depth = Inr (V', b)"
    and c: "backward.covers ir ctx st Use ?R False {?x} ({}, False) N (V', b)"
    using backward.visit_stops [OF v heap_fuel, of Use "({}, False)"]
    unfolding isCheckedBackward_def nxt by (elim returnsE) (metis surj_pair)
  note D = backward.coversD [OF c, unfolded fst_conv snd_conv nxt]
  have valid: "?R \<subseteq> {y. backwardValid ir ctx st y}"
  proof (rule reach_set_least)
    fix y assume y: "y \<in> {y. backwardValid ir ctx st y}"
    show "backwardStep ir ctx st Use y \<subseteq> {y. backwardValid ir ctx st y}"
      unfolding backwardStep_def
      by (rule UN_least) (rule calls_inD(2) [OF backwardTodo_calls], use y in simp_all)
  qed (use v in simp)
  show ?thesis
  proof (cases b)
    case True
    have "\<exists>x \<in> ?R. checkedAt ir ctx st Use x"
      using D(4) [OF True] D(2) valid backward_hit by blast
    then show ?thesis by (simp add: r True)
  next
    case False
    have "V \<in> V'" using D(6) [OF False] by (simp add: backwardKey_def)
    moreover have closed: "\<not> checkedAt ir ctx st Use x \<and> backwardKey ` backwardStep ir ctx st Use x \<subseteq> V'"
      if x: "x \<in> N" for x
    proof
      have "backwardValid ir ctx st x" using subsetD [OF valid subsetD [OF D(2) x]] by simp
      from checkedAt_hits [OF this] D(7) [OF False x] show "\<not> checkedAt ir ctx st Use x" by blast
    qed (rule D(8) [OF False x])
    moreover have "V' = backwardKey ` N" using D(1) by simp
    ultimately have "\<exists>N \<subseteq> ?R. V' = backwardKey ` N \<and>
        (\<forall>x \<in> N. \<not> checkedAt ir ctx st Use x \<and> backwardKey ` backwardStep ir ctx st Use x \<subseteq> V')"
      using D(2) closed by (intro exI [of _ N] conjI ballI) (assumption | erule closed [THEN conjunct1] | erule closed [THEN conjunct2])+
    with \<open>V \<in> V'\<close> show ?thesis by (simp only: r returns_Inr prod.case False if_False simp_thms)
  qed
qed

end
