(* ===== verification/DriverTheorems.thy ===== *)
theory DriverTheorems
  imports Analyzer
begin

text \<open>
  The pass driver \<open>run\<close>: its loops unfolded, and what a pass does whose initialization and
  finalization ask for no repetition, as those of all passes of the repository.
\<close>

lemma repeatWhile_unfold:
  "repeatWhile go body c s =
    (if go c then rbind (body s) (\<lambda>(c, s). repeatWhile go body c s) else Inr s)"
proof (cases "go c")
  case True
  let ?b = "\<lambda>r. case r of Inl _ \<Rightarrow> False | Inr (c, s) \<Rightarrow> go c" and ?c = "\<lambda>r. rbind r (\<lambda>(c, s). body s)"
  have "while_option ?b ?c (Inr (c, s)) = while_option ?b ?c (body s)"
    using while_option_unfold [of ?b ?c "Inr (c, s)"] True by simp
  then have r: "repeatWhile go body c s = (case while_option ?b ?c (body s) of
      None \<Rightarrow> Inl Diverges | Some r \<Rightarrow> rbind r (\<lambda>(c, s). Inr s))"
    by (simp add: repeatWhile_def)
  show ?thesis
  proof (cases "body s")
    case (Inl e)
    then show ?thesis using True by (simp add: r while_option_unfold [of ?b ?c "Inl e"])
  next
    case (Inr x)
    then show ?thesis using True unfolding r Inr by (cases x) (simp add: repeatWhile_def)
  qed
next
  case False
  then show ?thesis
    by (simp add: repeatWhile_def while_option_unfold
        [of "\<lambda>r. case r of Inl _ \<Rightarrow> False | Inr (c, s) \<Rightarrow> go c" _ "Inr (c, s)"])
qed

text \<open>Callbacks that ask for nothing.\<close>

lemma sweepAgain_quiet: "sweepAgain (\<lambda>M s. Inr (False, s)) modules s = Inr (False, s)"
proof -
  have "foldM (\<lambda>M (again, s). rbind (Inr (False, s)) (\<lambda>(ret, s). Inr (again \<or> ret, s))) modules (False, s) =
      Inr (False, s)"
    by (induction modules) simp_all
  then show ?thesis unfolding sweepAgain_def .
qed

lemma rbind_Inr_right [simp]: "rbind r Inr = r"
  by (cases r) simp_all

lemma rbind_assoc: "rbind (rbind r f) g = rbind r (\<lambda>x. rbind (f x) g)"
  by (cases r) simp_all

lemma run_quiet:
  fixes p :: "'s pass"
  assumes "doInitialization p = (\<lambda>M s. Inr (False, s))" "doFinalization p = (\<lambda>M s. Inr (False, s))"
  shows "run p modules s = repeatWhile (\<lambda>changed. changed \<noteq> 0) (sweepChanged (doModulePass p) modules) 1 s"
proof -
  have "repeatWhile (\<lambda>again. again) (sweepAgain (\<lambda>M s. Inr (False, s)) modules) True t = Inr t" for t :: 's
    by (subst repeatWhile_unfold) (simp add: sweepAgain_quiet, subst repeatWhile_unfold, simp)
  then show ?thesis by (simp add: run_def assms)
qed

lemma foldM_Nil_fun [simp]: "foldM f [] = Inr"
  by (rule ext) simp

lemma sweepChanged_snoc:
  "sweepChanged callback (modules @ [M]) s =
    rbind (sweepChanged callback modules s) (\<lambda>(n, s). rbind (callback M s)
      (\<lambda>(ret, s). Inr (if ret then n + 1 else n, s)))"
proof -
  have "foldM (\<lambda>M (n, s). rbind (callback M s) (\<lambda>(ret, s). Inr (if ret then n + 1 else n, s))) [M] (n, t) =
      rbind (callback M t) (\<lambda>(ret, s). Inr (if ret then n + 1 else n, s))" for n t
    by simp
  then show ?thesis
    unfolding sweepChanged_def foldM_append by (intro rbind_cong refl) (simp only: split_paired_all prod.case)
qed

text \<open>Loops over a filtered list, and loops whose bodies agree under an invariant.\<close>

lemma foldM_filter: "foldM f (filter P xs) s = foldM (\<lambda>x s. if P x then f x s else Inr s) xs s"
  by (induction xs arbitrary: s) (auto intro!: rbind_cong)

lemma foldM_cong_inv:
  assumes "\<And>x s. x \<in> set xs \<Longrightarrow> Q s \<Longrightarrow> f x s = g x s"
    and "\<And>x s s'. x \<in> set xs \<Longrightarrow> Q s \<Longrightarrow> g x s = Inr s' \<Longrightarrow> Q s'" and "Q s"
  shows "foldM f xs s = foldM g xs s"
  using assms
proof (induction xs arbitrary: s)
  case (Cons x xs)
  have "foldM f xs t = foldM g xs t" if "g x s = Inr t" for t
  proof (rule Cons.IH)
    show "Q t" by (rule Cons.prems(2) [OF _ Cons.prems(3) that]) simp
    show "Q s'" if "y \<in> set xs" "Q u" "g y u = Inr s'" for y u s'
      by (rule Cons.prems(2) [OF _ that(2,3)]) (simp add: that(1))
  qed (simp add: Cons.prems(1))
  then show ?case using Cons.prems by (auto intro!: rbind_cong)
qed simp

section \<open>Passes that visit every module once\<close>

text \<open>A callback that never asks for another sweep.\<close>

abbreviation once :: "(ptr \<Rightarrow> 's \<Rightarrow> 's res) \<Rightarrow> ptr \<Rightarrow> 's \<Rightarrow> (bool \<times> 's) res" where
  "once f M s \<equiv> rbind (f M s) (\<lambda>s. Inr (False, s))"

lemma sweepAgain_once: "sweepAgain (once f) modules s = rbind (foldM f modules s) (\<lambda>s. Inr (False, s))"
  unfolding sweepAgain_def
proof (induction modules arbitrary: s)
  case (Cons M modules)
  then show ?case by (cases "f M s") simp_all
qed simp

lemma sweepChanged_once: "sweepChanged (once f) modules s = rbind (foldM f modules s) (\<lambda>s. Inr (0, s))"
  unfolding sweepChanged_def
proof (induction modules arbitrary: s)
  case (Cons M modules)
  then show ?case by (cases "f M s") simp_all
qed simp

lemma repeat_once:
  "repeatWhile (\<lambda>again. again) (sweepAgain (once f) modules) True s = foldM f modules s"
  "repeatWhile (\<lambda>changed. changed \<noteq> 0) (sweepChanged (once f) modules) 1 s = foldM f modules s"
  by (subst repeatWhile_unfold, cases "foldM f modules s", simp_all add: sweepAgain_once sweepChanged_once,
      subst repeatWhile_unfold, simp)+

lemma run_once:
  assumes "doInitialization p = once i" "doModulePass p = once m" "doFinalization p = once f"
  shows "run p modules s = rbind (foldM i modules s) (\<lambda>s. rbind (foldM m modules s) (foldM f modules))"
  by (simp only: run_def assms repeat_once)

lemma once_Inr: "once (\<lambda>M. Inr) = (\<lambda>M s. Inr (False, s))"
  by (simp add: fun_eq_iff)

lemma foldM_Inr [simp]: "foldM (\<lambda>x. Inr) xs s = Inr s"
  by (induction xs) simp_all

lemma foldM_Inr_fun [simp]: "foldM (\<lambda>x. Inr) xs = Inr"
  by (rule ext) simp

end
