(* ===== verification/MissingRun.thy ===== *)
theory MissingRun
  imports MissingTheorems DriverTheorems
begin

text \<open>
  The missing-check pass as a whole: under the driver its stage counter makes exactly two sweeps
  over the modules, the first recording checks, the second counting the unchecked occurrences.
\<close>

section \<open>The two stages as a specification\<close>

definition analysedFunctions :: "llvm \<Rightarrow> gctx \<Rightarrow> ptr \<Rightarrow> ptr list" where
  "analysedFunctions ir ctx M =
     filter (\<lambda>F. blocks ir F \<noteq> [] \<and> length (blocks ir F) \<le> MAX_BLOCKS_SUPPORT \<and> F \<in> UnifiedFuncSet ctx)
       (moduleFunctions ir M)"

text \<open>The functions of a module, under the next module index.\<close>

definition overFunctions ::
  "(ptr \<Rightarrow> mc_state \<Rightarrow> mc_state res) \<Rightarrow> llvm \<Rightarrow> gctx \<Rightarrow> ptr \<Rightarrow> mc_state \<Rightarrow> mc_state res"
where
  "overFunctions f ir ctx M st = foldM f (analysedFunctions ir ctx M) (st\<lparr>MIdx := MIdx st + 1\<rparr>)"

definition recordChecks :: "llvm \<Rightarrow> gctx \<Rightarrow> ptr \<Rightarrow> mc_state \<Rightarrow> mc_state res" where
  "recordChecks ir ctx F =
     foldM (countSrcUseChecks ir ctx F) (filter (isa ir CmpInst) (sorted_list_of_set (CheckInstSets ctx F)))"

definition twoStages :: "llvm \<Rightarrow> gctx \<Rightarrow> mc_state \<Rightarrow> mc_state res" where
  "twoStages ir ctx st =
     rbind (foldM (overFunctions (recordChecks ir ctx) ir ctx) (Modules ctx) st) (\<lambda>st.
     rbind (foldM (overFunctions (countSrcUseUnchecks ir ctx) ir ctx) (Modules ctx)
              (st\<lparr>AnalysisStage := 2, MIdx := 0\<rparr>)) (\<lambda>st.
     Inr (st\<lparr>AnalysisStage := 3, MIdx := 0\<rparr>)))"

section \<open>The stage of a sweep does not change\<close>

definition same_stage :: "mc_state \<Rightarrow> mc_state \<Rightarrow> bool" where
  "same_stage st st' \<longleftrightarrow> AnalysisStage st' = AnalysisStage st \<and> MIdx st' = MIdx st"

lemma same_stage_refl [simp]: "same_stage st st"
  by (simp add: same_stage_def)

lemma same_stage_trans: "same_stage a b \<Longrightarrow> same_stage b c \<Longrightarrow> same_stage a c"
  by (simp add: same_stage_def)

lemma check_steps_stage: "check_step\<^sup>*\<^sup>* st st' \<Longrightarrow> same_stage st st'"
proof (induction rule: rtranclp_induct)
  case (step t u)
  from step.hyps(2) have "same_stage t u"
    by cases (simp_all add: same_stage_def addSrcCheck_def addUseCheck_def)
  with step.IH show ?case by (rule same_stage_trans)
qed simp

lemma recordChecks_steps:
  assumes "recordChecks ir ctx F st = Inr st'"
  shows "check_step\<^sup>*\<^sup>* st st'"
  using assms unfolding recordChecks_def
  by (rule foldM_steps [rotated]) (rule countSrcUseChecks_steps)

lemma recordChecks_stage: "recordChecks ir ctx F st = Inr st' \<Longrightarrow> same_stage st st'"
  by (rule check_steps_stage) (rule recordChecks_steps)

lemma countSrcUseUnchecks_stage: "countSrcUseUnchecks ir ctx F st = Inr st' \<Longrightarrow> same_stage st st'"
  using count_step_same [OF countSrcUseUnchecks_steps] by (auto simp: same_checks_def same_stage_def)

text \<open>The work of one stage on a function.\<close>

definition stageFunction :: "llvm \<Rightarrow> gctx \<Rightarrow> bool \<Rightarrow> ptr \<Rightarrow> mc_state \<Rightarrow> mc_state res" where
  "stageFunction ir ctx first F = (if first then recordChecks ir ctx F else countSrcUseUnchecks ir ctx F)"

lemma stageFunction_stage: "stageFunction ir ctx b F st = Inr st' \<Longrightarrow> same_stage st st'"
  by (auto simp: stageFunction_def intro: recordChecks_stage countSrcUseUnchecks_stage split: if_splits)

lemma missingFunction_stage:
  assumes "AnalysisStage st = (if b then 1 else 2)"
  shows "missingFunction ir ctx F st =
    (if blocks ir F \<noteq> [] \<and> length (blocks ir F) \<le> MAX_BLOCKS_SUPPORT \<and> F \<in> UnifiedFuncSet ctx
     then stageFunction ir ctx b F st else Inr st)"
proof -
  have f: "foldM (\<lambda>SC st. if \<not> isa ir CmpInst SC then Inr st else countSrcUseChecks ir ctx F SC st) xs st =
      foldM (countSrcUseChecks ir ctx F) (filter (isa ir CmpInst) xs) st" for xs st
    unfolding foldM_filter by (rule foldM_cong) auto
  show ?thesis
    using assms by (auto simp: missingFunction_def stageFunction_def recordChecks_def Let_def f)
qed

lemma moduleStage:
  assumes "AnalysisStage st = (if b then 1 else 2)"
  shows "foldM (missingFunction ir ctx) (moduleFunctions ir M) (st\<lparr>MIdx := MIdx st + 1\<rparr>) =
    overFunctions (stageFunction ir ctx b) ir ctx M st"
  unfolding overFunctions_def analysedFunctions_def foldM_filter
proof (rule foldM_cong_inv [where Q = "\<lambda>s. AnalysisStage s = (if b then 1 else 2)"])
  show "AnalysisStage (st\<lparr>MIdx := MIdx st + 1\<rparr>) = (if b then 1 else 2)" using assms by simp
next
  fix F s s'
  assume s: "AnalysisStage s = (if b then 1 else 2)"
    and "(if blocks ir F \<noteq> [] \<and> length (blocks ir F) \<le> MAX_BLOCKS_SUPPORT \<and> F \<in> UnifiedFuncSet ctx
      then stageFunction ir ctx b F s else Inr s) = Inr s'"
  then show "AnalysisStage s' = (if b then 1 else 2)"
  proof (elim ifE)
    assume "stageFunction ir ctx b F s = Inr s'"
    from stageFunction_stage [OF this] s show ?thesis by (simp only: same_stage_def)
  qed simp
qed (rule missingFunction_stage)

lemma foldM_preorder:
  assumes "\<And>x s s'. f x s = Inr s' \<Longrightarrow> R s s'" "\<And>s. R s s" "\<And>a b c. R a b \<Longrightarrow> R b c \<Longrightarrow> R a c"
    and "foldM f xs s = Inr s'"
  shows "R s s'"
  using assms(4) by (induction xs arbitrary: s) (auto simp: rbind_Inr_iff intro: assms(1-3))

lemma overFunctions_stage:
  assumes "overFunctions (stageFunction ir ctx b) ir ctx M st = Inr st'"
  shows "AnalysisStage st' = AnalysisStage st \<and> MIdx st' = MIdx st + 1"
proof -
  have "same_stage (st\<lparr>MIdx := MIdx st + 1\<rparr>) st'"
    by (rule foldM_preorder [OF stageFunction_stage same_stage_refl same_stage_trans
        assms [unfolded overFunctions_def]])
  then show ?thesis by (simp add: same_stage_def)
qed

section \<open>A sweep over the modules\<close>

lemma MIdx_compare:
  assumes "N < 2 ^ 31" "k < 2 ^ 31"
  shows "(of_nat N :: size_t) = scast (of_nat k :: int32) \<longleftrightarrow> N = k"
proof -
  have "scast (of_nat k :: int32) = (of_nat k :: size_t)"
    using assms(2) by (simp add: scast_eq signed_of_nat signed_take_bit_int_eq_self)
  then show ?thesis using assms by (simp add: word_of_nat_eq_iff take_bit_nat_eq_self)
qed

lemma doModulePass_stage:
  assumes "AnalysisStage st = (if b then 1 else 2)"
  shows "MissingChecks_doModulePass ir ctx M st =
    rbind (overFunctions (stageFunction ir ctx b) ir ctx M st) (\<lambda>st. Inr (endOfStage ctx st))"
  by (simp only: MissingChecks_doModulePass_def moduleStage [OF assms])

lemma sweep_prefix:
  assumes "k + length Ms < length (Modules ctx)" "length (Modules ctx) < 2 ^ 31"
    and "AnalysisStage st = (if b then 1 else 2)" "MIdx st = of_nat k"
  shows "sweepChanged (MissingChecks_doModulePass ir ctx) Ms st =
    rbind (foldM (overFunctions (stageFunction ir ctx b) ir ctx) Ms st) (\<lambda>st. Inr (0, st))"
proof -
  let ?f = "\<lambda>M (n :: uint32, s). rbind (MissingChecks_doModulePass ir ctx M s)
    (\<lambda>(ret, s). Inr (if ret then n + 1 else n, s))"
  have "foldM ?f Ms (0, st) =
    rbind (foldM (overFunctions (stageFunction ir ctx b) ir ctx) Ms st) (\<lambda>st. Inr (0, st))"
    using assms
  proof (induction Ms arbitrary: st k)
    case (Cons M Ms)
    note stage = Cons.prems(3)
    show ?case
    proof (cases "overFunctions (stageFunction ir ctx b) ir ctx M st")
      case (Inr st')
      from overFunctions_stage [OF this]
      have st': "AnalysisStage st' = (if b then 1 else 2)" "MIdx st' = of_nat (Suc k)"
        using Cons.prems(3,4) by simp_all
      have "endOfStage ctx st' = (False, st')"
        using MIdx_compare [of "length (Modules ctx)" "Suc k"] Cons.prems(1,2)
        by (simp add: endOfStage_def st'(2) del: of_nat_Suc)
      moreover have "foldM ?f Ms (0, st') =
          rbind (foldM (overFunctions (stageFunction ir ctx b) ir ctx) Ms st') (\<lambda>st. Inr (0, st))"
        using Cons.prems(1,2) by (intro Cons.IH [OF _ _ st']) simp_all
      ultimately show ?thesis by (simp add: doModulePass_stage [OF stage] Inr)
    qed (simp add: doModulePass_stage [OF stage])
  qed simp
  then show ?thesis unfolding sweepChanged_def .
qed

text \<open>The last module ends the stage.\<close>

lemma sweep_stage:
  assumes "Modules ctx \<noteq> []" "length (Modules ctx) < 2 ^ 31"
    and "AnalysisStage st = (if b then 1 else 2)" "MIdx st = 0"
  shows "sweepChanged (MissingChecks_doModulePass ir ctx) (Modules ctx) st =
    rbind (foldM (overFunctions (stageFunction ir ctx b) ir ctx) (Modules ctx) st)
      (\<lambda>st. Inr (if b then 1 else 0, st\<lparr>AnalysisStage := if b then 2 else 3, MIdx := 0\<rparr>))"
proof -
  obtain Ms M where Ms: "Modules ctx = Ms @ [M]" using assms(1) by (metis rev_exhaust)
  have pre: "sweepChanged (MissingChecks_doModulePass ir ctx) Ms st =
      rbind (foldM (overFunctions (stageFunction ir ctx b) ir ctx) Ms st) (\<lambda>st. Inr (0, st))"
    by (rule sweep_prefix [where k = 0]) (use assms in \<open>simp_all add: Ms\<close>)
  have inv: "AnalysisStage t = (if b then 1 else 2) \<and> MIdx t = of_nat (length Ms)"
    if "foldM (overFunctions (stageFunction ir ctx b) ir ctx) Ms st = Inr t" for t
    using that assms(3,4)
  proof (induction Ms arbitrary: t rule: rev_induct)
    case (snoc M Ms)
    then show ?case
      using overFunctions_stage by (fastforce simp: foldM_append rbind_Inr_iff)
  qed simp
  have last: "rbind (MissingChecks_doModulePass ir ctx M t) (\<lambda>(ret, s). Inr (if ret then (0 :: uint32) + 1 else 0, s)) =
      rbind (overFunctions (stageFunction ir ctx b) ir ctx M t)
        (\<lambda>st. Inr (if b then 1 else 0, st\<lparr>AnalysisStage := if b then 2 else 3, MIdx := 0\<rparr>))"
    if "foldM (overFunctions (stageFunction ir ctx b) ir ctx) Ms st = Inr t" for t
  proof (cases "overFunctions (stageFunction ir ctx b) ir ctx M t")
    case (Inr u)
    note t = inv [OF that]
    have u: "AnalysisStage u = (if b then 1 else 2)" "MIdx u = of_nat (length (Modules ctx))"
      using overFunctions_stage [OF Inr] t by (simp_all add: Ms)
    have "endOfStage ctx u = (b, u\<lparr>AnalysisStage := if b then 2 else 3, MIdx := 0\<rparr>)"
      using MIdx_compare [OF assms(2) assms(2)] by (simp add: endOfStage_def u Let_def MAX_STAGE_def)
    then show ?thesis using t by (simp add: doModulePass_stage Inr)
  qed (use inv [OF that] in \<open>simp add: doModulePass_stage\<close>)
  show ?thesis
    unfolding Ms sweepChanged_snoc pre
    by (cases "foldM (overFunctions (stageFunction ir ctx b) ir ctx) Ms st")
       (simp_all add: foldM_append last)
qed

lemma run_twoStages:
  assumes "Modules ctx \<noteq> []" "length (Modules ctx) < 2 ^ 31" "AnalysisStage st = 1" "MIdx st = 0"
  shows "run (MissingChecksPass ir ctx) (Modules ctx) st = twoStages ir ctx st"
proof -
  let ?g = "\<lambda>c :: uint32. c \<noteq> 0" and ?s = "sweepChanged (MissingChecks_doModulePass ir ctx) (Modules ctx)"
  have f: "stageFunction ir ctx True = recordChecks ir ctx"
    "stageFunction ir ctx False = countSrcUseUnchecks ir ctx"
    by (simp_all add: stageFunction_def fun_eq_iff)
  have second: "repeatWhile ?g ?s 1 (t\<lparr>AnalysisStage := 2, MIdx := 0\<rparr>) =
      rbind (foldM (overFunctions (countSrcUseUnchecks ir ctx) ir ctx) (Modules ctx)
        (t\<lparr>AnalysisStage := 2, MIdx := 0\<rparr>)) (\<lambda>st. Inr (st\<lparr>AnalysisStage := 3, MIdx := 0\<rparr>))" for t
    using sweep_stage [OF assms(1,2), of "t\<lparr>AnalysisStage := 2, MIdx := 0\<rparr>" False ir]
    by (subst repeatWhile_unfold) (cases "foldM (overFunctions (countSrcUseUnchecks ir ctx) ir ctx) (Modules ctx)
        (t\<lparr>AnalysisStage := 2, MIdx := 0\<rparr>)", simp_all add: f, subst repeatWhile_unfold, simp)
  have "run (MissingChecksPass ir ctx) (Modules ctx) st = repeatWhile ?g ?s 1 st"
    by (subst run_quiet) (simp_all add: MissingChecksPass_def)
  also have "\<dots> = twoStages ir ctx st"
    using sweep_stage [OF assms(1,2), of st True ir] assms(3,4)
    by (subst repeatWhile_unfold)
       (cases "foldM (overFunctions (recordChecks ir ctx) ir ctx) (Modules ctx) st",
        simp_all add: f twoStages_def second)
  finally show ?thesis .
qed

section \<open>The end of a stage\<close>

text \<open>It only moves the module index and the stage.\<close>

lemma endOfStage_fields:
  assumes "endOfStage ctx t = (again, st')"
  shows "\<exists>a i. st' = t\<lparr>AnalysisStage := a, MIdx := i\<rparr>"
proof -
  have "t = t\<lparr>AnalysisStage := AnalysisStage t, MIdx := MIdx t\<rparr>" by simp
  then show ?thesis using assms unfolding endOfStage_def Let_def by (elim ifE) (metis prod.inject)+
qed

end
