(* ===== verification/RatingTheorems.thy ===== *)
theory RatingTheorems
  imports MissingResults
begin

text \<open>
  The rating of a source or use is a single-precision quotient compared with a
  double-precision constant. For counts below \<open>2 ^ 24\<close>, which single precision holds exactly,
  the comparison is decided here by the exact fraction.
\<close>

section \<open>Rounding\<close>

lemma div_parts: "N = N div D * D + N mod (D :: nat)"
  by simp

lemma roundDiv_ge:
  assumes "0 < D" "(2 * q - 1) * D < 2 * N"
  shows "q \<le> roundDiv N D"
proof -
  define Q R where "Q = N div D" and "R = N mod D"
  have N: "N = Q * D + R" and R: "R < D"
    using div_parts [of N D] assms(1) by (simp_all add: Q_def R_def)
  consider "q \<le> Q" | "q = Q + 1" | "Q + 2 \<le> q" by linarith
  then show ?thesis
  proof cases
    case 1
    then show ?thesis by (simp add: roundDiv_def Let_def Q_def)
  next
    case 2
    then have "(2 * Q + 1) * D < 2 * N" using assms(2) by simp
    then have "D < 2 * R" by (simp add: N algebra_simps)
    then show ?thesis by (simp add: roundDiv_def Let_def 2 Q_def R_def)
  next
    case 3
    then have "2 * Q + 3 \<le> 2 * q - 1" by linarith
    then have "(2 * Q + 3) * D \<le> (2 * q - 1) * D" by (rule mult_le_mono1)
    with assms(2) have "(2 * Q + 3) * D < 2 * N" by linarith
    then show ?thesis using R by (simp add: N algebra_simps)
  qed
qed

lemma roundDiv_le:
  assumes "0 < D" "2 * N < (2 * q + 1) * D"
  shows "roundDiv N D \<le> q"
proof -
  define Q R where "Q = N div D" and "R = N mod D"
  have N: "N = Q * D + R" and R: "R < D"
    using div_parts [of N D] assms(1) by (simp_all add: Q_def R_def)
  consider "Q < q" | "q = Q" | "q + 1 \<le> Q" by linarith
  then show ?thesis
  proof cases
    case 1
    then show ?thesis by (simp add: roundDiv_def Let_def Q_def)
  next
    case 2
    then have "2 * R < D" using assms(2) by (simp add: N algebra_simps)
    then show ?thesis by (simp add: roundDiv_def Let_def 2 Q_def R_def)
  next
    case 3
    then have "(q + 1) * D \<le> Q * D" by (rule mult_le_mono1)
    then show ?thesis using assms by (simp add: N algebra_simps)
  qed
qed

lemma roundDiv_exact [simp]: "roundDiv n 1 = n" "roundDiv n (Suc 0) = n"
  by (simp_all add: roundDiv_def)

section \<open>Normalisation\<close>

lemma scaleUp_shape:
  "\<exists>j \<le> k. scaleUp k n d e = (n * 2 ^ j, d, e - int j) \<and>
     (j = 0 \<or> n * 2 ^ j < 2 ^ 24 * d) \<and> (j < k \<longrightarrow> 2 ^ 23 * d \<le> n * 2 ^ j)"
proof (induction k arbitrary: n e)
  case (Suc k)
  show ?case
  proof (cases "2 ^ 23 * d \<le> n")
    case True
    then show ?thesis by (intro exI [of _ 0]) simp
  next
    case False
    obtain j where j: "j \<le> k" "scaleUp k (2 * n) d (e - 1) = (2 * n * 2 ^ j, d, e - 1 - int j)"
      "j = 0 \<or> 2 * n * 2 ^ j < 2 ^ 24 * d" "j < k \<longrightarrow> 2 ^ 23 * d \<le> 2 * n * 2 ^ j"
      using Suc.IH [of "2 * n" "e - 1"] by blast
    then show ?thesis using False by (intro exI [of _ "Suc j"]) (auto simp: mult_ac)
  qed
qed simp

lemma scaleDown_shape:
  "\<exists>i \<le> k. scaleDown k n d e = (n, d * 2 ^ i, e + int i) \<and>
     (i = 0 \<or> 2 ^ 23 * (d * 2 ^ i) \<le> n) \<and> (i < k \<longrightarrow> n < 2 ^ 24 * (d * 2 ^ i))"
proof (induction k arbitrary: d e)
  case (Suc k)
  show ?case
  proof (cases "n < 2 ^ 24 * d")
    case True
    then show ?thesis by (intro exI [of _ 0]) simp
  next
    case False
    obtain i where i: "i \<le> k" "scaleDown k n (2 * d) (e + 1) = (n, 2 * d * 2 ^ i, e + 1 + int i)"
      "i = 0 \<or> 2 ^ 23 * (2 * d * 2 ^ i) \<le> n" "i < k \<longrightarrow> n < 2 ^ 24 * (2 * d * 2 ^ i)"
      using Suc.IH [of "2 * d" "e + 1"] by blast
    then show ?thesis using False by (intro exI [of _ "Suc i"]) (auto simp: mult_ac)
  qed
qed simp

lemma scaleDown_stop: "n < 2 ^ 24 * d \<Longrightarrow> scaleDown k n d e = (n, d, e)"
  by (cases k) simp_all

lemma float32_of_shape:
  assumes "0 < n" "n < 2 ^ 24" "0 < d" "d < 2 ^ 24"
  shows "\<exists>j. float32_of n d = (roundDiv (n * 2 ^ j) d, - int j) \<and>
    2 ^ 23 * d \<le> n * 2 ^ j \<and> n * 2 ^ j < 2 ^ 24 * d"
proof -
  obtain j where j: "j \<le> 64" "scaleUp 64 n d 0 = (n * 2 ^ j, d, - int j)"
    "j = 0 \<or> n * 2 ^ j < 2 ^ 24 * d" "j < 64 \<longrightarrow> 2 ^ 23 * d \<le> n * 2 ^ j"
    using scaleUp_shape [of 64 n d 0] by auto
  have up: "n * 2 ^ j < 2 ^ 24 * d"
  proof (cases "j = 0")
    case True
    have "n < 2 ^ 24 * 1" using assms(2) by simp
    also have "\<dots> \<le> 2 ^ 24 * d" using assms(3) by (intro mult_le_mono2) simp
    finally show ?thesis by (simp add: True)
  qed (use j(3) in blast)
  have "2 ^ 23 * d \<le> n * 2 ^ j"
  proof (cases "j < 64")
    case False
    with j(1) have j: "j = 64" by simp
    have "2 ^ 23 * d \<le> 1 * 2 ^ 64" using assms(4) by simp
    also have "\<dots> \<le> n * 2 ^ 64" using assms(1) by (intro mult_le_mono1) simp
    finally show ?thesis unfolding j .
  qed (use j(4) in blast)
  moreover have "scaleDown 64 (n * 2 ^ j) d (- int j) = (n * 2 ^ j, d, - int j)"
    using up by (rule scaleDown_stop)
  ultimately show ?thesis using assms(1) j(2) up by (intro exI [of _ j]) (simp add: float32_of_def)
qed

text \<open>The rating of counts that single precision holds exactly.\<close>

lemma rate_shape:
  assumes "0 < unat U" "unat U < 2 ^ 24" "0 < unat T" "unat T < 2 ^ 24"
  shows "\<exists>A B. rate U T = (roundDiv (unat U * 2 ^ A) (unat T * 2 ^ B), int B - int A) \<and>
    2 ^ 23 * (unat T * 2 ^ B) \<le> unat U * 2 ^ A \<and> unat U * 2 ^ A < 2 ^ 24 * (unat T * 2 ^ B)"
proof -
  obtain a where a: "float32_of (unat U) 1 = (unat U * 2 ^ a, - int a)" "unat U * 2 ^ a < 2 ^ 24 * 1"
    using float32_of_shape [OF assms(1,2), of 1] by auto
  obtain b where b: "float32_of (unat T) 1 = (unat T * 2 ^ b, - int b)" "unat T * 2 ^ b < 2 ^ 24 * 1"
    using float32_of_shape [OF assms(3,4), of 1] by auto
  obtain j where j: "float32_of (unat U * 2 ^ a) (unat T * 2 ^ b) =
      (roundDiv (unat U * 2 ^ a * 2 ^ j) (unat T * 2 ^ b), - int j)"
    "2 ^ 23 * (unat T * 2 ^ b) \<le> unat U * 2 ^ a * 2 ^ j" "unat U * 2 ^ a * 2 ^ j < 2 ^ 24 * (unat T * 2 ^ b)"
    using float32_of_shape [of "unat U * 2 ^ a" "unat T * 2 ^ b"] assms a(2) b(2) by auto
  show ?thesis
    by (rule exI [of _ "a + j"], rule exI [of _ b])
       (use j in \<open>simp add: rate_def float32_div_def a(1) b(1) power_add mult.assoc del: One_nat_def\<close>)
qed

section \<open>Thresholds\<close>

text \<open>
  The threshold \<open>a / 10\<close>: \<open>c / 2 ^ (p + 29)\<close> is the double that stands for it, \<open>Q / 2 ^ p\<close> the
  closest float above it. The side conditions place the double between two floats and the
  fraction \<open>a / 10\<close> on the upper half of the gap.
\<close>

lemma threshold_nat:
  fixes U T :: nat
  assumes T: "0 < T" "T < 2 ^ 24"
    and lo: "2 ^ 23 * (T * 2 ^ B) \<le> U * 2 ^ A" and hi: "U * 2 ^ A < 2 ^ 24 * (T * 2 ^ B)"
    and p: "24 \<le> p" and c: "(Q - 1) * 2 ^ 29 \<le> c" "c < Q * 2 ^ 29" "2 ^ 52 \<le> c" "c < 2 ^ 53"
    and above: "10 * (2 * Q - 1) < 2 * a * 2 ^ p" and below: "2 * a * 2 ^ p \<le> 10 * (2 * Q - 1) + 2 * 2 ^ (p - 24)"
    and up: "10 * 2 ^ 24 \<le> a * 2 ^ (p + 1)" and down: "a * 2 ^ (p - 1) \<le> 10 * 2 ^ 23" and Q: "0 < Q"
  shows "float32_exceeds (roundDiv (U * 2 ^ A) (T * 2 ^ B), int B - int A) c (p + 29) \<longleftrightarrow> a * T \<le> 10 * U"
proof -
  let ?N = "U * 2 ^ A" and ?D = "T * 2 ^ B"
  let ?M = "roundDiv ?N ?D"
  have D: "0 < ?D" using T(1) by simp
  have "(2 * 2 ^ 23 - 1) * ?D < 2 * ?N"
  proof -
    have "(2 * 2 ^ 23 - 1) * ?D < 2 * (2 ^ 23 * ?D)" using D by simp
    also have "\<dots> \<le> 2 * ?N" using lo by simp
    finally show ?thesis .
  qed
  then have m_lo: "2 ^ 23 \<le> roundDiv ?N ?D" by (rule roundDiv_ge [OF D])
  have "2 * ?N < (2 * 2 ^ 24 + 1) * ?D" using hi by simp
  then have m_hi: "roundDiv ?N ?D \<le> 2 ^ 24" by (rule roundDiv_le [OF D])
  consider (small) "A + 1 \<le> B + p" | (pivot) "A = B + p" | (large) "B + p + 1 \<le> A" by linarith
  then show ?thesis
  proof cases
    case small
    then have "(2 :: nat) ^ A \<le> 2 ^ (p - 1) * 2 ^ B"
      unfolding power_add [symmetric] by (intro power_increasing) auto
    then have N: "10 * ?N \<le> 10 * U * (2 ^ (p - 1) * 2 ^ B)" by simp
    have "a * T \<le> 10 * U"
    proof (rule ccontr)
      assume "\<not> a * T \<le> 10 * U"
      then have "10 * U * (2 ^ (p - 1) * 2 ^ B) < a * T * (2 ^ (p - 1) * 2 ^ B)" by simp
      also have "\<dots> = a * 2 ^ (p - 1) * ?D" by (simp add: mult_ac)
      also have "\<dots> \<le> 10 * 2 ^ 23 * ?D" using down by (rule mult_le_mono1)
      finally show False using N lo by linarith
    qed
    moreover have "c < ?M * 2 ^ nat (int B - int A + int (p + 29))"
    proof -
      have "c < 2 ^ 23 * 2 ^ 30" using c(4) by simp
      also have "\<dots> \<le> ?M * 2 ^ nat (int B - int A + int (p + 29))"
        using small by (intro mult_le_mono m_lo power_increasing) auto
      finally show ?thesis .
    qed
    ultimately show ?thesis using small by (simp add: float32_exceeds_def)
  next
    case pivot
    have N: "?N = U * (2 ^ p * 2 ^ B)" by (simp add: pivot power_add mult_ac)
    have "float32_exceeds (?M, int B - int A) c (p + 29) \<longleftrightarrow> c < ?M * 2 ^ 29"
      by (simp add: float32_exceeds_def pivot)
    also have "\<dots> \<longleftrightarrow> Q \<le> ?M"
      using c(1,2) Q by auto
    also have "\<dots> \<longleftrightarrow> a * T \<le> 10 * U"
    proof
      assume "a * T \<le> 10 * U"
      then have "2 * (a * T) * (2 ^ p * 2 ^ B) \<le> 2 * (10 * U) * (2 ^ p * 2 ^ B)" by (intro mult_le_mono1 mult_le_mono2)
      moreover have "10 * (2 * Q - 1) * ?D < 2 * a * 2 ^ p * ?D" using above D by (rule mult_less_mono1)
      moreover have "2 * a * 2 ^ p * ?D = 2 * (a * T) * (2 ^ p * 2 ^ B)" by (simp add: mult_ac)
      moreover have "2 * (10 * U) * (2 ^ p * 2 ^ B) = 10 * (2 * ?N)" unfolding N by simp
      ultimately have "10 * ((2 * Q - 1) * ?D) < 10 * (2 * ?N)" by (simp only: mult.assoc)
      then have "(2 * Q - 1) * ?D < 2 * ?N" by linarith
      then show "Q \<le> ?M" by (rule roundDiv_ge [OF D])
    next
      assume M: "Q \<le> ?M"
      show "a * T \<le> 10 * U"
      proof (rule ccontr)
        assume "\<not> a * T \<le> 10 * U"
        then have "2 * (10 * U + 1) * (2 ^ p * 2 ^ B) \<le> 2 * (a * T) * (2 ^ p * 2 ^ B)"
          by (intro mult_le_mono1) simp
        moreover have "2 * (10 * U + 1) * (2 ^ p * 2 ^ B) = 10 * (2 * ?N) + 2 * (2 ^ p * 2 ^ B)"
          unfolding N by (simp add: algebra_simps)
        moreover have "2 * (a * T) * (2 ^ p * 2 ^ B) = 2 * a * 2 ^ p * ?D" by (simp add: mult_ac)
        moreover have "2 * a * 2 ^ p * ?D \<le> (10 * (2 * Q - 1) + 2 * 2 ^ (p - 24)) * ?D"
          using below by (rule mult_le_mono1)
        moreover have "2 ^ (p - 24) * ?D < 2 ^ p * 2 ^ B"
        proof -
          have "2 ^ (p - 24) * (T * 2 ^ B) < 2 ^ (p - 24) * (2 ^ 24 * 2 ^ B)" using T(2) by simp
          also have "\<dots> = 2 ^ (p - 24 + 24) * 2 ^ B" by (simp add: power_add)
          finally show ?thesis using p by simp
        qed
        moreover have "(10 * (2 * Q - 1) + 2 * 2 ^ (p - 24)) * ?D = 10 * ((2 * Q - 1) * ?D) + 2 * (2 ^ (p - 24) * ?D)"
          by (simp add: algebra_simps)
        ultimately have "2 * ?N < (2 * Q - 1) * ?D" by linarith
        moreover have "2 * Q - 1 = 2 * (Q - 1) + 1" using Q by simp
        ultimately have "?M \<le> Q - 1" by (intro roundDiv_le [OF D]) (simp only:)
        with M Q show False by simp
      qed
    qed
    finally show ?thesis .
  next
    case large
    then have "(2 :: nat) ^ (p + 1) * 2 ^ B \<le> 2 ^ A"
      unfolding power_add [symmetric] by (intro power_increasing) auto
    then have "10 * U * (2 ^ (p + 1) * 2 ^ B) \<le> 10 * U * 2 ^ A" by (rule mult_le_mono2)
    then have N: "10 * U * (2 ^ (p + 1) * 2 ^ B) \<le> 10 * ?N" by (simp only: mult.assoc)
    have "\<not> a * T \<le> 10 * U"
    proof
      assume "a * T \<le> 10 * U"
      then have "a * T * (2 ^ (p + 1) * 2 ^ B) \<le> 10 * U * (2 ^ (p + 1) * 2 ^ B)" by (rule mult_le_mono1)
      moreover have "a * T * (2 ^ (p + 1) * 2 ^ B) = a * 2 ^ (p + 1) * ?D" by (simp add: mult_ac)
      moreover have "10 * 2 ^ 24 * ?D \<le> a * 2 ^ (p + 1) * ?D" using up by (rule mult_le_mono1)
      ultimately show False using N hi by linarith
    qed
    moreover have "\<not> float32_exceeds (?M, int B - int A) c (p + 29)"
    proof (cases "0 \<le> int B - int A + int (p + 29)")
      case True
      have "?M * 2 ^ nat (int B - int A + int (p + 29)) \<le> 2 ^ 24 * 2 ^ 28"
        using large by (intro mult_le_mono m_hi power_increasing) auto
      also have "\<dots> \<le> c" using c(3) by simp
      finally show ?thesis using True by (simp add: float32_exceeds_def)
    next
      case False
      have "?M \<le> c * 1" using m_hi c(3) by simp
      also have "\<dots> \<le> c * 2 ^ nat (- (int B - int A + int (p + 29)))" by (rule mult_le_mono2) simp
      finally show ?thesis using False by (simp add: float32_exceeds_def)
    qed
    ultimately show ?thesis by simp
  qed
qed

lemma exceeds_3_10_iff:
  assumes "0 < unat U" "unat U < 2 ^ 24" "0 < unat T" "unat T < 2 ^ 24"
  shows "exceeds_3_10 (rate U T) \<longleftrightarrow> 3 * unat T \<le> 10 * unat U"
proof -
  obtain A B where r: "rate U T = (roundDiv (unat U * 2 ^ A) (unat T * 2 ^ B), int B - int A)"
    "2 ^ 23 * (unat T * 2 ^ B) \<le> unat U * 2 ^ A" "unat U * 2 ^ A < 2 ^ 24 * (unat T * 2 ^ B)"
    using rate_shape [OF assms] by blast
  have "float32_exceeds (rate U T) 5404319552844595 (25 + 29) \<longleftrightarrow> 3 * unat T \<le> 10 * unat U"
    unfolding r(1) by (rule threshold_nat [OF assms(3,4) r(2,3), where Q = 10066330]) simp_all
  then show ?thesis by (simp add: exceeds_3_10_def)
qed

lemma exceeds_1_10_iff:
  assumes "0 < unat U" "unat U < 2 ^ 24" "0 < unat T" "unat T < 2 ^ 24"
  shows "exceeds_1_10 (rate U T) \<longleftrightarrow> unat T \<le> 10 * unat U"
proof -
  obtain A B where r: "rate U T = (roundDiv (unat U * 2 ^ A) (unat T * 2 ^ B), int B - int A)"
    "2 ^ 23 * (unat T * 2 ^ B) \<le> unat U * 2 ^ A" "unat U * 2 ^ A < 2 ^ 24 * (unat T * 2 ^ B)"
    using rate_shape [OF assms] by blast
  have "float32_exceeds (rate U T) 7205759403792794 (27 + 29) \<longleftrightarrow> 1 * unat T \<le> 10 * unat U"
    unfolding r(1) by (rule threshold_nat [OF assms(3,4) r(2,3), where Q = 13421773]) simp_all
  then show ?thesis by (simp add: exceeds_1_10_def)
qed

section \<open>The reports\<close>

text \<open>Counts that single precision holds, with a total if anything is unchecked.\<close>

definition exact_counts :: "uint32 \<times> uint32 \<times> uint32 \<Rightarrow> bool" where
  "exact_counts = (\<lambda>(C, U, T). unat U < 2 ^ 24 \<and> unat T < 2 ^ 24 \<and> (C \<noteq> 0 \<and> U \<noteq> 0 \<longrightarrow> T \<noteq> 0))"

lemma reportSrc_set:
  assumes "exact_counts (entryCounts (SrcCheckCount st) (SrcUncheckCount st) (SrcTotalCount st) Src)"
  shows "set (reportSrc ir st Src) =
    {\<lparr> rType = Some (srcType ir Src), rRating = rate U T, rChecks = C, rUnchecks = U, rTotal = T,
       rArgNo = snd Src, rValues = sorted_list_of_set (SrcUnchecksMap st Src) \<rparr> | C U T.
       entryCounts (SrcCheckCount st) (SrcUncheckCount st) (SrcTotalCount st) Src = (C, U, T) \<and>
       C \<noteq> 0 \<and> U \<noteq> 0 \<and> 10 * unat U < 3 * unat T}"
proof -
  obtain C U T where e: "entryCounts (SrcCheckCount st) (SrcUncheckCount st) (SrcTotalCount st) Src = (C, U, T)"
    by (metis surj_pair)
  have "exceeds_3_10 (rate U T) \<longleftrightarrow> \<not> 10 * unat U < 3 * unat T" if "C \<noteq> 0" "U \<noteq> 0"
    using assms that exceeds_3_10_iff [of U T] by (auto simp: e exact_counts_def unat_gt_0)
  then show ?thesis by (auto simp: reportSrc_def e Let_def)
qed

lemma reportUse_set:
  assumes "exact_counts (entryCounts (UseCheckCount st) (UseUncheckCount st) (UseTotalCount st) Use)"
  shows "set (reportUse st Use) =
    {\<lparr> rType = None, rRating = rate U T, rChecks = C, rUnchecks = U, rTotal = T,
       rArgNo = snd Use, rValues = sorted_list_of_set (UseUnchecksMap st Use) \<rparr> | C U T.
       entryCounts (UseCheckCount st) (UseUncheckCount st) (UseTotalCount st) Use = (C, U, T) \<and>
       C \<noteq> 0 \<and> U \<noteq> 0 \<and> 10 * unat U < unat T}"
proof -
  obtain C U T where e: "entryCounts (UseCheckCount st) (UseUncheckCount st) (UseTotalCount st) Use = (C, U, T)"
    by (metis surj_pair)
  have "exceeds_1_10 (rate U T) \<longleftrightarrow> \<not> 10 * unat U < unat T" if "C \<noteq> 0" "U \<noteq> 0"
    using assms that exceeds_1_10_iff [of U T] by (auto simp: e exact_counts_def unat_gt_0)
  then show ?thesis by (auto simp: reportUse_def e Let_def)
qed

lemma processResults_set:
  assumes "finite (CheckedSrcSet st)" "finite (CheckedUseSet st)"
    and "\<forall>Src \<in> CheckedSrcSet st. exact_counts
      (entryCounts (SrcCheckCount st) (SrcUncheckCount st) (SrcTotalCount st) Src)"
    and "\<forall>Use \<in> CheckedUseSet st. exact_counts
      (entryCounts (UseCheckCount st) (UseUncheckCount st) (UseTotalCount st) Use)"
  shows "set (processResults ir st) =
    {\<lparr> rType = Some (srcType ir Src), rRating = rate U T, rChecks = C, rUnchecks = U, rTotal = T,
       rArgNo = snd Src, rValues = sorted_list_of_set (SrcUnchecksMap st Src) \<rparr> | Src C U T.
       Src \<in> CheckedSrcSet st \<and>
       entryCounts (SrcCheckCount st) (SrcUncheckCount st) (SrcTotalCount st) Src = (C, U, T) \<and>
       C \<noteq> 0 \<and> U \<noteq> 0 \<and> 10 * unat U < 3 * unat T} \<union>
    {\<lparr> rType = None, rRating = rate U T, rChecks = C, rUnchecks = U, rTotal = T,
       rArgNo = snd Use, rValues = sorted_list_of_set (UseUnchecksMap st Use) \<rparr> | Use C U T.
       Use \<in> CheckedUseSet st \<and>
       entryCounts (UseCheckCount st) (UseUncheckCount st) (UseTotalCount st) Use = (C, U, T) \<and>
       C \<noteq> 0 \<and> U \<noteq> 0 \<and> 10 * unat U < unat T}" (is "_ = ?A \<union> ?B")
proof -
  have "set (concat (map (reportSrc ir st) (inOrder (CheckedSrcSet st)))) =
      (\<Union>Src \<in> CheckedSrcSet st. set (reportSrc ir st Src))"
    by (simp add: set_inOrder [OF assms(1)])
  also have "\<dots> = ?A"
    by (rule trans [OF SUP_cong [OF refl reportSrc_set [OF bspec [OF assms(3)]]]]) (assumption, blast)
  finally have A: "set (concat (map (reportSrc ir st) (inOrder (CheckedSrcSet st)))) = ?A" .
  have "set (concat (map (reportUse st) (inOrder (CheckedUseSet st)))) =
      (\<Union>Use \<in> CheckedUseSet st. set (reportUse st Use))"
    by (simp add: set_inOrder [OF assms(2)])
  also have "\<dots> = ?B"
    by (rule trans [OF SUP_cong [OF refl reportUse_set [OF bspec [OF assms(4)]]]]) (assumption, blast)
  finally have "set (concat (map (reportUse st) (inOrder (CheckedUseSet st)))) = ?B" .
  with A show ?thesis by (simp only: processResults_def set_append)
qed

end
