(* ===== verification/MissingSlices.thy ===== *)
theory MissingSlices
  imports MissingRun RatingTheorems
begin

text \<open>
  What stage 2 counts for one callee, one source and one use: the slices decide whether an
  occurrence is checked, and the counters record the decision.
\<close>

lemma checkedSlices:
  assumes w: "wf_values ir ctx" and d: "db_ok st" and T: "T \<subseteq> set (heap ir)"
  shows "\<exists>VSet. forwardSlices ir ctx st F Src Scope (sorted_list_of_set T) ({}, False) =
    Inr (VSet, \<exists>TV \<in> T. checkedDownstream ir ctx st F Src Scope TV)"
proof -
  have s: "set (sorted_list_of_set T) = T" using finite_subset [OF T] by simp
  have "set (sorted_list_of_set T) \<subseteq> set (heap ir)" using T by (simp only: s)
  from forwardSlices_decides [OF w d this clean_empty, of F Src Scope]
  show ?thesis unfolding s by (auto simp: returns_iff)
qed

lemma loadsOf_heap:
  assumes "wf_values ir ctx" "A \<subseteq> set (heap ir)"
  shows "loadsOf ir R A \<subseteq> set (heap ir)"
  using wf_heapD(1) [OF wf_valuesD(1) [OF assms(1)]] assms(2) unfolding loadsOf_def by fastforce

lemma unat_le_scast: "unat (a :: int8) \<le> unat (scast a :: size_t)"
proof -
  have "a = ucast (scast a :: size_t)" by (rule bit_word_eqI) (simp add: bit_simps)
  then have "unat a = unat (ucast (scast a :: size_t) :: int8)" by simp
  also have "\<dots> \<le> unat (scast a :: size_t)" by (simp add: unsigned_ucast_eq)
  finally show ?thesis .
qed

lemma getArgByNo_heap:
  assumes "wf_values ir ctx" "set (args ir Callee) \<subseteq> set (heap ir)"
  shows "getArgByNo ir Callee ArgNo = NULL \<longleftrightarrow> length (args ir Callee) \<le> unat (scast ArgNo :: size_t)"
    and "getArgByNo ir Callee ArgNo \<noteq> NULL \<Longrightarrow> getArgByNo ir Callee ArgNo \<in> set (heap ir)"
proof -
  let ?in = "unat (scast ArgNo :: size_t) < length (args ir Callee)"
  have h: "args ir Callee ! unat ArgNo \<in> set (heap ir)" if ?in
    by (rule subsetD [OF assms(2) nth_mem [OF le_less_trans [OF unat_le_scast that]]])
  have null: "args ir Callee ! unat ArgNo \<noteq> NULL" if ?in
    by (rule wf_valuesD_null [OF assms(1) h [OF that]])
  show "getArgByNo ir Callee ArgNo = NULL \<longleftrightarrow> length (args ir Callee) \<le> unat (scast ArgNo :: size_t)"
    using null by (cases ?in) (simp_all add: getArgByNo_def)
  show "getArgByNo ir Callee ArgNo \<in> set (heap ir)" if "getArgByNo ir Callee ArgNo \<noteq> NULL"
    using h that by (cases ?in) (simp_all add: getArgByNo_def)
qed

text \<open>The values that stand for a parameter: itself and, for a pointer, the loads of its aliases.\<close>

definition parameterValues :: "llvm \<Rightarrow> gctx \<Rightarrow> ptr \<Rightarrow> ptr set \<Rightarrow> ptr \<Rightarrow> ptr set" where
  "parameterValues ir ctx Callee Scope PArg =
     insert PArg (if isPointerTy ir (typeOf ir PArg)
       then loadsOf ir Scope (getAliasPointers PArg (FuncPAResults ctx Callee)) else {})"

lemma uncheckedCallee_eq:
  assumes w: "wf_values ir ctx" and d: "db_ok st" and b: "blocks ir Callee \<noteq> []"
    and e: "hd (blocks ir Callee) \<in> set (heap ir)" and a: "set (args ir Callee) \<subseteq> set (heap ir)"
  shows "uncheckedCallee ir ctx F CI ArgNo Callee st =
    (if length (args ir Callee) \<le> unat (scast ArgNo :: size_t) then Inl NullDeref
     else let PArg = getArgByNo ir Callee ArgNo;
              Scope = reach_set (\<lambda>b. set (successors ir b)) {hd (blocks ir Callee)}
          in Inr (countSrc (\<exists>TV \<in> parameterValues ir ctx Callee Scope PArg.
               checkedDownstream ir ctx st F (CI, ArgNo) Scope TV) (CI, ArgNo) PArg st))"
proof -
  let ?P = "getArgByNo ir Callee ArgNo" and ?R = "reach_set (\<lambda>b. set (successors ir b)) {hd (blocks ir Callee)}"
  have r: "collectSuccReachBlocks ir (hd (blocks ir Callee)) {} = Inr ?R"
    by (rule collectSuccReachBlocks_eq [OF wf_valuesD(1) [OF w] e])
  have l: "\<not> length (blocks ir Callee) < 1" using b by (cases "blocks ir Callee") simp_all
  show ?thesis
  proof (cases "?P = NULL")
    case True
    then show ?thesis using getArgByNo_heap(1) [OF w a, of ArgNo] l r by (simp add: uncheckedCallee_def Let_def)
  next
    case False
    have P: "?P \<in> set (heap ir)" by (rule getArgByNo_heap(2) [OF w a False])
    have T: "parameterValues ir ctx Callee ?R ?P \<subseteq> set (heap ir)"
      using P loadsOf_heap [OF w alias_heap(1) [OF w P]] by (simp add: parameterValues_def)
    obtain VSet where "forwardSlices ir ctx st F (CI, ArgNo) ?R
        (sorted_list_of_set (parameterValues ir ctx Callee ?R ?P)) ({}, False) =
        Inr (VSet, \<exists>TV \<in> parameterValues ir ctx Callee ?R ?P. checkedDownstream ir ctx st F (CI, ArgNo) ?R TV)"
      using checkedSlices [OF w d T] by blast
    then show ?thesis
      using False getArgByNo_heap(1) [OF w a, of ArgNo] l r
      by (simp add: uncheckedCallee_def Let_def src_c_def parameterValues_def)
  qed
qed

lemma call_block:
  assumes "wf_values ir ctx" "CI \<in> set (heap ir)" "isa ir CallInst CI"
  shows "collectSuccReachBlocks ir (getParent ir CI) {} = Inr (blocksAfter ir CI)"
    and "collectPredReachBlocks ir (getParent ir CI) {} = Inr (blocksBefore ir CI)"
  using instruction_block [OF assms(1,2) wf_classesD(8) [OF wf_valuesD(2) [OF assms(1)] assms(3)]]
  by (simp_all add: blocksAfter_def blocksBefore_def)

lemma uncheckedSource_retval:
  assumes w: "wf_values ir ctx" and d: "db_ok st" and C: "CI \<in> set (heap ir)" "isa ir CallInst CI"
    and u: "users ir CI \<noteq> []" and s: "(CF, -1) \<in> CheckedSrcSet st"
  shows "uncheckedSource ir ctx F CI CF (-1) st =
    Inr (countSrc (checkedDownstream ir ctx st F (CF, -1) (blocksAfter ir CI) CI) (CF, -1) CI st)"
proof -
  obtain V where "isCheckedForward ir ctx st F (CF, -1) CI (blocksAfter ir CI) ({}, False) =
      Inr (V, checkedDownstream ir ctx st F (CF, -1) (blocksAfter ir CI) CI)"
    using isCheckedForward_decides [OF w d C(1) clean_empty, of F "(CF, -1)" "blocksAfter ir CI"]
    by (auto simp: returns_iff)
  then show ?thesis using u s by (simp add: uncheckedSource_def Let_def src_c_def call_block [OF w C])
qed

lemma uncheckedSource_argument:
  assumes w: "wf_values ir ctx" and d: "db_ok st" and C: "CI \<in> set (heap ir)" "isa ir CallInst CI"
    and n: "ArgNo \<noteq> -1" "getOperand ir CI (unat (scast ArgNo :: uint32)) = Inr Param"
    and t: "isPointerTy ir (typeOf ir Param)" and s: "(CF, ArgNo) \<in> CheckedSrcSet st"
  shows "uncheckedSource ir ctx F CI CF ArgNo st =
    Inr (countSrc (\<exists>LI \<in> loadsOf ir (blocksAfter ir CI) (getAliasPointers Param (FuncPAResults ctx F)).
      checkedDownstream ir ctx st F (CF, ArgNo) (blocksAfter ir CI) LI) (CF, ArgNo) CI st)"
proof -
  have P: "Param \<in> set (heap ir)" by (rule getOperand_heap [OF wf_valuesD(1) [OF w] C(1) n(2)])
  let ?T = "loadsOf ir (blocksAfter ir CI) (getAliasPointers Param (FuncPAResults ctx F))"
  have "?T \<subseteq> set (heap ir)" by (rule loadsOf_heap [OF w alias_heap(1) [OF w P]])
  then obtain V where "forwardSlices ir ctx st F (CF, ArgNo) (blocksAfter ir CI) (sorted_list_of_set ?T) ({}, False) =
      Inr (V, \<exists>LI \<in> ?T. checkedDownstream ir ctx st F (CF, ArgNo) (blocksAfter ir CI) LI)"
    using checkedSlices [OF w d] by blast
  then show ?thesis using n t s by (simp add: uncheckedSource_def Let_def src_c_def call_block [OF w C])
qed

end
