(* ===== verification/MissingStages.thy ===== *)
theory MissingStages
  imports MissingSlices
begin

text \<open>
  Stage 1 of the missing-check pass, exactly: the sources and uses that one security check
  records. A comparison is traced back to the values its operands come from; each of them gives
  sources (the callee that returned it or wrote it through an argument, or the indirect calls that
  passed it) and, traced forward, uses.
\<close>

section \<open>Recording\<close>

text \<open>The value of a counter that is only entered when it is first used.\<close>

definition counter :: "('k \<rightharpoonup> uint32) \<Rightarrow> 'k \<Rightarrow> uint32" where
  "counter C k = (case C k of None \<Rightarrow> 0 | Some n \<Rightarrow> n)"

lemma counter_bump: "counter (bump k C) k' = counter C k' + (if k' = k then 1 else 0)"
  by (simp add: counter_def bump_def)

text \<open>A piece of stage 1 records the sources \<open>S\<close> and the uses \<open>U\<close>, each as often as it is listed.\<close>

definition logs :: "src_t list \<Rightarrow> use_t list \<Rightarrow> mc_state \<Rightarrow> mc_state \<Rightarrow> bool" where
  "logs S U st st' \<longleftrightarrow> check_step\<^sup>*\<^sup>* st st' \<and>
     CheckedSrcSet st' = CheckedSrcSet st \<union> set S \<and> CheckedUseSet st' = CheckedUseSet st \<union> set U \<and>
     (\<forall>k. counter (SrcCheckCount st') k = counter (SrcCheckCount st) k + of_nat (count_list S k)) \<and>
     (\<forall>k. counter (UseCheckCount st') k = counter (UseCheckCount st) k + of_nat (count_list U k))"

lemma logs_refl [simp]: "logs [] [] st st"
  by (simp add: logs_def)

lemma logs_trans: "logs S U a b \<Longrightarrow> logs S' U' b c \<Longrightarrow> logs (S @ S') (U @ U') a c"
  by (auto simp: logs_def)

lemma returns_foldM_logs:
  assumes "\<And>x s. x \<in> set xs \<Longrightarrow> returns (f x s) (logs (S x) (U x) s)"
  shows "returns (foldM f xs s) (logs (concat (map S xs)) (concat (map U xs)) s)"
  using assms
proof (induction xs arbitrary: s)
  case (Cons x xs)
  have "returns (f x s) (logs (S x) (U x) s)" by (rule Cons.prems) simp
  moreover have "returns (foldM f xs t) (logs (concat (map S (x # xs))) (concat (map U (x # xs))) s)"
    if t: "logs (S x) (U x) s t" for t
  proof -
    have "returns (foldM f xs t) (logs (concat (map S xs)) (concat (map U xs)) t)"
      by (rule Cons.IH) (rule Cons.prems, simp)
    then show ?thesis by (rule returns_mono) (use logs_trans [OF t] in simp)
  qed
  ultimately show ?case unfolding foldM.simps by (rule returns_rbind)
qed simp

lemma concat_map_Nil [simp]: "concat (map (\<lambda>_. []) xs) = []"
  by (induction xs) simp_all

lemma returns_foldM_sources:
  "(\<And>x s. x \<in> set xs \<Longrightarrow> returns (f x s) (logs (S x) [] s)) \<Longrightarrow>
   returns (foldM f xs s) (logs (concat (map S xs)) [] s)"
  using returns_foldM_logs [of xs f S "\<lambda>_. []" s] by simp

lemma returns_foldM_uses:
  "(\<And>x s. x \<in> set xs \<Longrightarrow> returns (f x s) (logs [] (U x) s)) \<Longrightarrow>
   returns (foldM f xs s) (logs [] (concat (map U xs)) s)"
  using returns_foldM_logs [of xs f "\<lambda>_. []" U s] by simp

text \<open>What the parameter \<open>SCI\<close> has to be: a comparison of the program.\<close>

definition comparison :: "llvm \<Rightarrow> ptr \<Rightarrow> bool" where
  "comparison ir SCI \<longleftrightarrow> SCI \<in> set (heap ir) \<and> isa ir CmpInst SCI"

lemma comparisonD:
  assumes "wf_values ir ctx" "comparison ir SCI"
  shows "SCI \<in> set (heap ir)" "isa ir CmpInst SCI" "isa ir Instruction SCI" "SCI \<noteq> NULL"
    and "1 < length (operands ir SCI)"
  using assms wf_classesD(9) [OF wf_valuesD(2) [OF assms(1)]] wf_valuesD_null [OF assms(1)] wf_operandsD(2) [OF assms(1)]
  unfolding comparison_def by blast+

lemma countCheck_logs:
  assumes "wf_values ir ctx" "comparison ir SCI"
  shows "returns (countCheck ir SCI V A addSrcCheck st) (logs [(V, A)] [] st)"
    and "returns (countCheck ir SCI V A addUseCheck st) (logs [] [(V, A)] st)"
proof -
  note c = comparisonD [OF assms]
  obtain M where M: "modelCheck ir SCI V A = Inr M" "mSrcUse M = V" using modelCheck_Inr [OF c(4,5)] by blast
  have "check_step st (addSrcCheck (V, A) M st)" "check_step st (addUseCheck (V, A) M st)"
    using M(2) by (simp_all add: check_step.intros)
  then have "logs [(V, A)] [] st (addSrcCheck (V, A) M st)" "logs [] [(V, A)] st (addUseCheck (V, A) M st)"
    by (simp_all add: logs_def r_into_rtranclp addSrcCheck_def addUseCheck_def counter_bump)
  then show "returns (countCheck ir SCI V A addSrcCheck st) (logs [(V, A)] [] st)"
    and "returns (countCheck ir SCI V A addUseCheck st) (logs [] [(V, A)] st)"
    by (simp_all add: countCheck_def c(2) M(1))
qed

section \<open>The targets of a check\<close>

text \<open>The sources in the data-flow closure of a value; without the constants they are targets.\<close>

definition nodeSources :: "llvm \<Rightarrow> gctx \<Rightarrow> ptr \<Rightarrow> ptr set" where
  "nodeSources ir ctx v = (if isLeafSource ir v then {v} else {}) \<union> loadOutputs ir ctx v"

definition sourcesOf :: "llvm \<Rightarrow> gctx \<Rightarrow> ptr \<Rightarrow> ptr set" where
  "sourcesOf ir ctx V = (\<Union>v \<in> dataClosure ir ctx V. nodeSources ir ctx v)"

definition checkedTargets :: "llvm \<Rightarrow> gctx \<Rightarrow> ptr \<Rightarrow> ptr set" where
  "checkedTargets ir ctx SCI =
     {CT \<in> (if isa ir ICmpInst SCI then \<Union>op \<in> set (operands ir SCI). sourcesOf ir ctx op else {}).
        \<not> isa ir Constant CT \<and> \<not> isa ir GlobalVariable CT}"

lemma loadOutputs_heap:
  assumes "wf_values ir ctx" "call_args_fit ir ctx" "V \<in> set (heap ir)"
  shows "loadOutputs ir ctx V \<subseteq> set (heap ir)"
proof
  fix Opd assume "Opd \<in> loadOutputs ir ctx V"
  then obtain A U where L: "isa ir LoadInst V" and u: "(A, U) \<in> usersBefore ir ctx V" "isa ir CallInst U"
    and o: "Opd = argOperands ir U ! unat (scast (callArgNo ir U A) :: uint32)"
    by (auto simp: loadOutputs_def callOutputs_def split: if_splits)
  have au: "A \<in> set (aliasList ir ctx V (pointerOperand ir V))" "U \<in> set (users ir A)"
    using u(1) by (simp_all add: usersBefore_def)
  have U: "U \<in> set (heap ir)" by (rule usersBefore_heap [OF assms(1,3) L au])
  have "argOperands ir U \<noteq> [] \<and> length (argOperands ir U) \<le> 128"
    by (rule call_args_fitD [OF assms(2,3) L au u(2)])
  from callArgNo_in_range [OF conjunct1 [OF this] conjunct2 [OF this]]
  have "Opd \<in> set (argOperands ir U)" unfolding o by (rule nth_mem)
  then show "Opd \<in> set (heap ir)" using wf_heapD(3) [OF wf_valuesD(1) [OF assms(1)] U] by blast
qed

lemma sourcesOf_heap:
  assumes "wf_values ir ctx" "call_args_fit ir ctx" "V \<in> set (heap ir)"
  shows "sourcesOf ir ctx V \<subseteq> set (heap ir)"
proof -
  have "nodeSources ir ctx v \<subseteq> set (heap ir)" if "v \<in> dataClosure ir ctx V" for v
    using dataClosure_heap [OF assms] loadOutputs_heap [OF assms(1,2), of v] that by (auto simp: nodeSources_def)
  then show ?thesis by (auto simp: sourcesOf_def)
qed

lemma dataClosure_closed: "v \<in> dataClosure ir ctx V \<Longrightarrow> dataPreds ir ctx v \<subseteq> dataClosure ir ctx V"
  unfolding dataClosure_def using reach_set_step by fast

lemma findInFuncSourceCV_adds:
  assumes wf: "wf_values ir ctx" "call_args_fit ir ctx" and V: "V \<in> set (heap ir)"
    and T: "T \<subseteq> set (heap ir)" "\<And>y. y \<in> T \<Longrightarrow> dataPreds ir ctx y \<subseteq> T"
  shows "returns (findInFuncSourceCV ir ctx V (T, CTSet \<union> (\<Union>v \<in> T. nodeSources ir ctx v), C)) (\<lambda>(T', s).
    T' = T \<union> dataClosure ir ctx V \<and> fst s = CTSet \<union> (\<Union>v \<in> T'. nodeSources ir ctx v))"
proof -
  let ?S = "CTSet \<union> (\<Union>v \<in> T. nodeSources ir ctx v)"
  have v: "wf_values ir ctx \<and> call_args_fit ir ctx \<and> V \<in> set (heap ir)" using wf V by simp
  note spec = findInFuncTodo_spec [OF wf]
  have closed: "in_func.nxt ir ctx y \<subseteq> T" if "y \<in> T" for y
    using T(2) [OF that] spec [OF subsetD [OF T(1) that]] by (simp add: in_func.nxt_def)
  have ret: "returns (findInFuncSourceCVF ir ctx (search_fuel ir) V (T, ?S, C)) (\<lambda>(T', s).
      T' = T \<union> reach_set (in_func.nxt ir ctx) {V} \<and> cv_contents s = cv_contents (?S, C) \<union>
        (\<Union>y \<in> reach_set (in_func.nxt ir ctx) {V} - T. effects (actions (findInFuncSourceCVTodo ir ctx y))))"
    by (rule in_func.visit_reaches [OF v heap_fuel]) (rule closed)
  obtain T' s where r: "findInFuncSourceCV ir ctx V (T, ?S, C) = Inr (T', s)"
    and T': "T' = T \<union> dataClosure ir ctx V"
    and c: "cv_contents s = cv_contents (?S, C) \<union>
      (\<Union>y \<in> dataClosure ir ctx V - T. effects (actions (findInFuncSourceCVTodo ir ctx y)))"
    using ret unfolding in_func_closure [OF wf V] findInFuncSourceCV_def by (elim returnsE2) simp
  have e: "(\<Union>y \<in> dataClosure ir ctx V - T. effects (actions (findInFuncSourceCVTodo ir ctx y))) =
      (\<Union>y \<in> dataClosure ir ctx V - T. inFuncEffects ir ctx y)"
    by (intro SUP_cong refl) (use spec dataClosure_heap [OF wf V] in blast)
  have "fst s = ?S \<union> (\<Union>v \<in> dataClosure ir ctx V - T. nodeSources ir ctx v)"
    unfolding cv_contents_sets(1) [of s] c e
    by (auto simp: cv_contents_def inFuncEffects_def nodeSources_def split: if_splits)
  then have "fst s = CTSet \<union> (\<Union>v \<in> T'. nodeSources ir ctx v)" unfolding T' by blast
  then show ?thesis by (simp add: r T')
qed

lemma trackAll_returns:
  assumes wf: "wf_values ir ctx" "call_args_fit ir ctx" and opds: "set opds \<subseteq> set (heap ir)"
  shows "trackAll ir ctx opds CTSet = Inr (CTSet \<union> (\<Union>op \<in> set opds. sourcesOf ir ctx op))"
proof -
  let ?T = "\<lambda>S. \<Union>op \<in> S. dataClosure ir ctx op"
  let ?Q = "\<lambda>S (T, s). T = ?T S \<and> fst s = CTSet \<union> (\<Union>v \<in> T. nodeSources ir ctx v)"
  have "returns (foldM (findInFuncSourceCV ir ctx) opds ({}, CTSet, {})) (?Q (set opds))"
  proof (rule returns_foldM_seen [where Q = ?Q])
    fix ys V zs and st :: "ptr set \<times> cv_sets"
    assume o: "opds = ys @ V # zs" and q: "?Q (set ys) st"
    obtain T S C where st: "st = (T, S, C)" by (metis surj_pair)
    have T: "T = ?T (set ys)" and S: "S = CTSet \<union> (\<Union>v \<in> T. nodeSources ir ctx v)" using q by (simp_all add: st)
    have V: "V \<in> set (heap ir)" and ys: "set ys \<subseteq> set (heap ir)" using opds o by auto
    have "T \<subseteq> set (heap ir)" unfolding T using dataClosure_heap [OF wf] ys by blast
    moreover have "dataPreds ir ctx y \<subseteq> T" if "y \<in> T" for y
      using that dataClosure_closed [of y ir ctx] unfolding T by blast
    ultimately have "returns (findInFuncSourceCV ir ctx V (T, S, C)) (\<lambda>(T', s).
        T' = T \<union> dataClosure ir ctx V \<and> fst s = CTSet \<union> (\<Union>v \<in> T'. nodeSources ir ctx v))"
      unfolding S by (rule findInFuncSourceCV_adds [OF wf V])
    then show "returns (findInFuncSourceCV ir ctx V st) (?Q (insert V (set ys)))"
      unfolding st by (rule returns_mono) (auto simp: T)
  qed simp
  then obtain T s where "foldM (findInFuncSourceCV ir ctx) opds ({}, CTSet, {}) = Inr (T, s)"
    "T = ?T (set opds)" "fst s = CTSet \<union> (\<Union>v \<in> T. nodeSources ir ctx v)" by (elim returnsE2 conjE)
  then show ?thesis by (simp add: trackAll_def split_def sourcesOf_def)
qed

lemma identifyCheckedTargets_eq:
  assumes "wf_values ir ctx" "call_args_fit ir ctx" "comparison ir SCI"
  shows "identifyCheckedTargets ir ctx F SCI {} =
    Inr (if isa ir ICmpInst SCI then \<Union>op \<in> set (operands ir SCI). sourcesOf ir ctx op else {})"
proof -
  note c = comparisonD [OF assms(1,3)]
  have "\<not> isa ir BinaryOperator SCI" "\<not> isa ir UnaryInstruction SCI" "\<not> isa ir PHINode SCI" "\<not> isa ir CallInst SCI"
    using wf_valuesD_class [OF assms(1) c(2)] by (auto simp: value_classes_def)
  then show ?thesis
    using trackAll_returns [OF assms(1,2) wf_heapD(2) [OF wf_valuesD(1) [OF assms(1)] c(1)], of "{}"]
    by (simp add: identifyCheckedTargets_def)
qed

section \<open>The entries of a target\<close>

text \<open>The entry for a call: the callee that stands for it, with the argument number.\<close>

definition entryOf :: "llvm \<Rightarrow> gctx \<Rightarrow> ptr \<Rightarrow> int8 \<Rightarrow> src_t list" where
  "entryOf ir ctx CI ArgNo = (if representative ir ctx CI = NULL then [] else [(representative ir ctx CI, ArgNo)])"

definition sourceEntries :: "llvm \<Rightarrow> gctx \<Rightarrow> ptr \<Rightarrow> ptr \<Rightarrow> ptr \<Rightarrow> src_t list" where
  "sourceEntries ir ctx F SCI CT =
     (if isa ir Argument CT then
        (if hasAddressTaken ir F
         then map (\<lambda>CI. (CI, argNoFrom (-1) CT (args ir F)))
                (filter (\<lambda>CI. calledFunction ir CI = NULL) (smallSetOrder ir (Callers ctx F)))
         else [])
      else if isa ir CallInst CT then entryOf ir ctx CT (-1)
      else concat (map (\<lambda>U. entryOf ir ctx U (callArgNo ir U CT))
        (filter (\<lambda>U. isa ir CallInst U \<and> getParent ir U \<in> blocksBefore ir SCI \<and> callArgNo ir U CT \<noteq> -1) (users ir CT))))"

definition usesFrom :: "llvm \<Rightarrow> gctx \<Rightarrow> ptr \<Rightarrow> ptr \<Rightarrow> use_t set" where
  "usesFrom ir ctx SCI CT = (\<Union>T \<in> useClosure ir ctx SCI CT. directUses ir SCI T)"

definition useEntries :: "llvm \<Rightarrow> gctx \<Rightarrow> ptr \<Rightarrow> ptr \<Rightarrow> use_t list" where
  "useEntries ir ctx SCI CT =
     concat (map (\<lambda>(U, ArgNo). entryOf ir ctx U ArgNo)
       (filter (\<lambda>(U, ArgNo). isa ir CallInst U) (inOrder (usesFrom ir ctx SCI CT))))"

lemma concat_map_keep: "concat (map (\<lambda>x. if P x then f x else []) xs) = concat (map f (filter P xs))"
  by (induction xs) simp_all

lemma countOutputUser_logs:
  assumes "wf_values ir ctx" "comparison ir SCI"
  shows "returns (countOutputUser ir ctx SCI (blocksBefore ir SCI) CT U st) (logs
    (if isa ir CallInst U \<and> getParent ir U \<in> blocksBefore ir SCI \<and> callArgNo ir U CT \<noteq> -1
     then entryOf ir ctx U (callArgNo ir U CT) else []) [] st)"
  using countCheck_logs(1) [OF assms] by (simp add: countOutputUser_def entryOf_def Let_def)

lemma countSource_logs:
  assumes "wf_values ir ctx" "comparison ir SCI"
  shows "returns (countSource ir ctx F SCI (blocksBefore ir SCI) CT st) (logs (sourceEntries ir ctx F SCI CT) [] st)"
proof -
  note check = countCheck_logs(1) [OF assms]
  consider "isa ir Argument CT" | "\<not> isa ir Argument CT" "isa ir CallInst CT" | "\<not> isa ir Argument CT" "\<not> isa ir CallInst CT"
    by blast
  then show ?thesis
  proof cases
    case 1
    let ?A = "argNoFrom (-1) CT (args ir F) :: int8"
    have "returns (foldM (\<lambda>CI st. if calledFunction ir CI \<noteq> NULL then Inr st else countCheck ir SCI CI ?A addSrcCheck st)
        (smallSetOrder ir (Callers ctx F)) st)
        (logs (concat (map (\<lambda>CI. if calledFunction ir CI = NULL then [(CI, ?A)] else []) (smallSetOrder ir (Callers ctx F)))) [] st)"
      by (rule returns_foldM_sources) (simp add: check)
    then show ?thesis
      by (simp add: 1 countSource_def countArgumentSource_def sourceEntries_def Let_def concat_map_keep concat_map_singleton)
  next
    case 2
    then show ?thesis
      using check by (simp add: countSource_def countCallSource_def sourceEntries_def entryOf_def Let_def)
  next
    case 3
    have "returns (foldM (countOutputUser ir ctx SCI (blocksBefore ir SCI) CT) (users ir CT) st)
        (logs (concat (map (\<lambda>U. if isa ir CallInst U \<and> getParent ir U \<in> blocksBefore ir SCI \<and>
          callArgNo ir U CT \<noteq> -1 then entryOf ir ctx U (callArgNo ir U CT) else []) (users ir CT))) [] st)"
      by (rule returns_foldM_sources) (rule countOutputUser_logs [OF assms])
    then show ?thesis using 3 by (simp add: countSource_def sourceEntries_def concat_map_keep)
  qed
qed

lemma countUse_logs:
  assumes "wf_values ir ctx" "comparison ir SCI"
  shows "returns (countUse ir ctx SCI Use st)
    (logs [] (if isa ir CallInst (fst Use) then entryOf ir ctx (fst Use) (snd Use) else []) st)"
  using countCheck_logs(2) [OF assms] by (simp add: countUse_def entryOf_def Let_def)

lemma countUses_logs:
  assumes "wf_values ir ctx" "comparison ir SCI"
  shows "returns (foldM (countUse ir ctx SCI) (inOrder (usesFrom ir ctx SCI CT)) st) (logs [] (useEntries ir ctx SCI CT) st)"
  using returns_foldM_uses [where xs = "inOrder (usesFrom ir ctx SCI CT)", OF countUse_logs [OF assms]]
  by (simp add: useEntries_def concat_map_keep split_def)

lemma inOrder_empty [simp]: "inOrder {} = []"
  by (simp add: inOrder_def)

text \<open>The uses of the targets, one entry for each target that has one.\<close>

lemma collectUses_eq:
  assumes wf: "wf_values ir ctx" and c: "comparison ir SCI" and CTs: "set CTs \<subseteq> set (heap ir)"
  shows "collectUses ir ctx SCI CTs =
    Inr (map (\<lambda>CT. (CT, usesFrom ir ctx SCI CT)) (filter (\<lambda>CT. usesFrom ir ctx SCI CT \<noteq> {}) CTs))"
proof -
  note cmp = comparisonD [OF wf c]
  let ?m = "\<lambda>CTs. map (\<lambda>CT. (CT, usesFrom ir ctx SCI CT)) (filter (\<lambda>CT. usesFrom ir ctx SCI CT \<noteq> {}) CTs)"
  have "foldM (\<lambda>CT UseMap. rbind (findUses ir ctx SCI CT ({}, {}))
         (\<lambda>(Visited, UseSet). Inr (if UseSet = {} then UseMap else UseMap @ [(CT, UseSet)]))) CTs UseMap =
      Inr (UseMap @ ?m CTs)" for UseMap
    using CTs
  proof (induction CTs arbitrary: UseMap)
    case (Cons CT CTs)
    have "CT \<in> set (heap ir)" using Cons.prems by simp
    then obtain Visited where "findUses ir ctx SCI CT ({}, {}) = Inr (Visited, usesFrom ir ctx SCI CT)"
      using findUses_closure [OF wf cmp(1,3), of CT "{}"] by (auto simp: usesFrom_def elim!: returnsE2)
    then show ?case using Cons by simp
  qed simp
  from this [of "[]"] show ?thesis by (simp add: collectUses_def)
qed

section \<open>One check\<close>

text \<open>What one security check of the function \<open>F\<close> logs.\<close>

definition checkSources :: "llvm \<Rightarrow> gctx \<Rightarrow> ptr \<Rightarrow> ptr \<Rightarrow> src_t list" where
  "checkSources ir ctx F SCI = concat (map (sourceEntries ir ctx F SCI) (sorted_list_of_set (checkedTargets ir ctx SCI)))"

definition checkUses :: "llvm \<Rightarrow> gctx \<Rightarrow> ptr \<Rightarrow> use_t list" where
  "checkUses ir ctx SCI = concat (map (useEntries ir ctx SCI) (sorted_list_of_set (checkedTargets ir ctx SCI)))"

lemma checkedTargets_heap:
  assumes "wf_values ir ctx" "call_args_fit ir ctx" "comparison ir SCI"
  shows "checkedTargets ir ctx SCI \<subseteq> set (heap ir)"
proof -
  have "set (operands ir SCI) \<subseteq> set (heap ir)"
    by (rule wf_heapD(2) [OF wf_valuesD(1) [OF assms(1)] comparisonD(1) [OF assms(1,3)]])
  then show ?thesis using sourcesOf_heap [OF assms(1,2)] by (auto simp: checkedTargets_def split: if_splits)
qed

lemma useMap_logs:
  assumes "wf_values ir ctx" "comparison ir SCI"
  shows "returns (foldM (\<lambda>UM st. foldM (countUse ir ctx SCI) (inOrder (snd UM)) st)
      (map (\<lambda>CT. (CT, usesFrom ir ctx SCI CT)) (filter (\<lambda>CT. usesFrom ir ctx SCI CT \<noteq> {}) CTs)) st)
    (logs [] (concat (map (useEntries ir ctx SCI) CTs)) st)"
proof -
  have e: "foldM (\<lambda>UM st. foldM (countUse ir ctx SCI) (inOrder (snd UM)) st)
      (map (\<lambda>CT. (CT, usesFrom ir ctx SCI CT)) (filter (\<lambda>CT. usesFrom ir ctx SCI CT \<noteq> {}) CTs)) =
    foldM (\<lambda>CT st. foldM (countUse ir ctx SCI) (inOrder (usesFrom ir ctx SCI CT)) st) CTs"
    by (induction CTs) (rule ext, simp)+
  show ?thesis unfolding e by (rule returns_foldM_uses) (rule countUses_logs [OF assms])
qed

lemma countSrcUseChecks_logs:
  assumes wf: "wf_values ir ctx" "call_args_fit ir ctx" and c: "comparison ir SCI"
  shows "returns (countSrcUseChecks ir ctx F SCI st) (logs (checkSources ir ctx F SCI) (checkUses ir ctx SCI) st)"
proof -
  let ?T = "checkedTargets ir ctx SCI"
  note cmp = comparisonD [OF wf(1) c]
  have heap: "?T \<subseteq> set (heap ir)" by (rule checkedTargets_heap [OF wf c])
  then have CTs: "set (sorted_list_of_set ?T) = ?T" using finite_subset by fastforce
  have body: "countSrcUseChecks ir ctx F SCI st = (if ?T = {} then Inr st
      else rbind (foldM (countSource ir ctx F SCI (blocksBefore ir SCI)) (sorted_list_of_set ?T) st) (\<lambda>st.
        rbind (collectUses ir ctx SCI (sorted_list_of_set ?T)) (\<lambda>UseMap.
          foldM (\<lambda>UM st. foldM (countUse ir ctx SCI) (inOrder (snd UM)) st) UseMap st)))"
    by (simp only: countSrcUseChecks_def identifyCheckedTargets_eq [OF wf c] rbind.simps Let_def
        checkedTargets_def [symmetric] instruction_block(1) [OF wf(1) cmp(1,3)] blocksBefore_def [symmetric])
  show ?thesis
  proof (cases "?T = {}")
    case True
    then show ?thesis by (simp add: body checkSources_def checkUses_def)
  next
    case False
    have "returns (foldM (countSource ir ctx F SCI (blocksBefore ir SCI)) (sorted_list_of_set ?T) st)
        (logs (checkSources ir ctx F SCI) [] st)"
      unfolding checkSources_def by (rule returns_foldM_sources) (rule countSource_logs [OF wf(1) c])
    moreover have "returns (rbind (collectUses ir ctx SCI (sorted_list_of_set ?T)) (\<lambda>UseMap.
          foldM (\<lambda>UM st. foldM (countUse ir ctx SCI) (inOrder (snd UM)) st) UseMap s))
        (logs (checkSources ir ctx F SCI) (checkUses ir ctx SCI) st)"
      if s: "logs (checkSources ir ctx F SCI) [] st s" for s
    proof -
      have u: "collectUses ir ctx SCI (sorted_list_of_set ?T) = Inr (map (\<lambda>CT. (CT, usesFrom ir ctx SCI CT))
          (filter (\<lambda>CT. usesFrom ir ctx SCI CT \<noteq> {}) (sorted_list_of_set ?T)))"
        by (rule collectUses_eq [OF wf(1) c]) (simp only: CTs heap)
      show ?thesis
        unfolding u rbind.simps
        by (rule returns_mono [OF useMap_logs [OF wf(1) c]], fold checkUses_def) (drule logs_trans [OF s], simp)
    qed
    ultimately show ?thesis unfolding body if_not_P [OF False] by (rule returns_rbind)
  qed
qed

end
