(* ===== verification/MissingCounts.thy ===== *)
theory MissingCounts
  imports MissingStages
begin

text \<open>
  Stage 2 of the missing-check pass, exactly: what it counts is a list of occurrences that can be
  read off the program and the recorded checks before the stage starts. Each occurrence names the
  source or use, the verdict of the slices, and the value that is listed if it is unchecked.
\<close>

section \<open>Occurrences\<close>

datatype occurrence = SrcOcc src_t bool ptr | UseOcc use_t bool ptr

primrec count_occ :: "occurrence \<Rightarrow> mc_state \<Rightarrow> mc_state" where
  "count_occ (SrcOcc Src isChecked V) = countSrc isChecked Src V"
| "count_occ (UseOcc Use isChecked V) = countUseOf isChecked Use V"

primrec occ_ok :: "mc_state \<Rightarrow> occurrence \<Rightarrow> bool" where
  "occ_ok st (SrcOcc Src b V) = (Src \<in> CheckedSrcSet st)"
| "occ_ok st (UseOcc Use b V) = (Use \<in> CheckedUseSet st)"

text \<open>The recorded checks, which stage 2 only reads.\<close>

definition same_db :: "mc_state \<Rightarrow> mc_state \<Rightarrow> bool" where
  "same_db st s \<longleftrightarrow> CheckedSrcSet s = CheckedSrcSet st \<and> CheckedUseSet s = CheckedUseSet st \<and>
     SrcChecksMap s = SrcChecksMap st \<and> UseChecksMap s = UseChecksMap st \<and>
     SrcCheckCount s = SrcCheckCount st \<and> UseCheckCount s = UseCheckCount st"

abbreviation counting :: "mc_state \<Rightarrow> mc_state \<Rightarrow> bool" where
  "counting st s \<equiv> db_ok s \<and> same_db st s"

lemma count_occ_step: "occ_ok s x \<Longrightarrow> count_step s (count_occ x s)"
  by (cases x) (simp_all add: count_step.intros)

lemma count_occ_counting:
  assumes "occ_ok st x" "counting st s"
  shows "counting st (count_occ x s)"
proof -
  have "occ_ok s x" using assms by (cases x) (simp_all add: same_db_def)
  from count_step_ok [OF count_occ_step [OF this]] count_step_same [OF r_into_rtranclp, OF count_occ_step [OF this]]
  show ?thesis using assms(2) by (simp add: same_db_def same_checks_def)
qed

lemma fold_count_counting:
  "(\<And>x. x \<in> set xs \<Longrightarrow> occ_ok st x) \<Longrightarrow> counting st s \<Longrightarrow> counting st (fold count_occ xs s)"
proof (induction xs arbitrary: s)
  case (Cons x xs)
  have "counting st (count_occ x s)" by (rule count_occ_counting) (use Cons.prems in simp_all)
  then show ?case unfolding fold_Cons comp_apply by (rule Cons.IH [rotated]) (use Cons.prems(1) in simp)
qed simp

text \<open>A loop whose body counts the occurrences of its item counts the occurrences of all.\<close>

lemma foldM_counts:
  assumes "\<And>x s. x \<in> set xs \<Longrightarrow> counting st s \<Longrightarrow> f x s = Inr (fold count_occ (occ x) s)"
    and "\<And>x y. x \<in> set xs \<Longrightarrow> y \<in> set (occ x) \<Longrightarrow> occ_ok st y" and "counting st s"
  shows "foldM f xs s = Inr (fold count_occ (concat (map occ xs)) s)"
  using assms
proof (induction xs arbitrary: s)
  case (Cons x xs)
  have "counting st (fold count_occ (occ x) s)"
    by (rule fold_count_counting [OF _ Cons.prems(3)]) (rule Cons.prems(2) [of x], simp_all)
  then have "foldM f xs (fold count_occ (occ x) s) = Inr (fold count_occ (concat (map occ xs)) (fold count_occ (occ x) s))"
    by (intro Cons.IH Cons.prems(1,2)) simp_all
  then show ?case using Cons.prems(1) [of x s] Cons.prems(3) by simp
qed simp

section \<open>The verdicts do not depend on what was counted\<close>

lemma checkedDownstream_cong:
  assumes "same_db st s"
  shows "checkedDownstream ir ctx s = checkedDownstream ir ctx st"
proof -
  have "checksSource ir ctx s = checksSource ir ctx st"
    using assms by (simp add: fun_eq_iff checksSource_def same_db_def)
  then show ?thesis by (simp add: fun_eq_iff checkedDownstream_def flowStep_def [abs_def])
qed

lemma isCheckedBackwardF_cong:
  assumes "same_db st s"
  shows "isCheckedBackwardF ir ctx s Use n x v = isCheckedBackwardF ir ctx st Use n x v"
proof -
  have e: "UseChecksMap s = UseChecksMap st" using assms by (simp only: same_db_def)
  have t: "backwardTodo ir ctx s Use = backwardTodo ir ctx st Use"
    by (simp add: e fun_eq_iff backwardTodo_def backwardUser_def inModeledCheckSet_def split: backward_item.split)
  show ?thesis
  proof (induction n arbitrary: x v)
    case (Suc n)
    have "isCheckedBackwardF ir ctx s Use n = isCheckedBackwardF ir ctx st Use n" using Suc by (simp add: fun_eq_iff)
    then show ?case by (cases v) (simp add: t)
  qed (cases v, simp)
qed

section \<open>Argument numbers\<close>

lemma scast_small:
  assumes "k < 128"
  shows "unat (of_nat k :: int8) = k" "unat (scast (of_nat k :: int8) :: uint32) = k"
    "unat (scast (of_nat k :: int8) :: size_t) = k"
proof -
  have "scast (of_nat k :: int8) = (of_nat k :: uint32)" "scast (of_nat k :: int8) = (of_nat k :: size_t)"
    using assms by (simp_all add: scast_eq signed_of_nat signed_take_bit_int_eq_self)
  then show "unat (of_nat k :: int8) = k" "unat (scast (of_nat k :: int8) :: uint32) = k"
    "unat (scast (of_nat k :: int8) :: size_t) = k"
    using assms by (simp_all add: unat_of_nat take_bit_nat_eq_self)
qed

lemma argNumbersE:
  assumes "A \<in> set (argNumbers n)"
  obtains "unat A < n" "unat (scast A :: uint32) = unat A" "unat (scast A :: size_t) = unat A" "A \<noteq> -1"
proof -
  obtain k where k: "A = of_nat k" "k < n" "k < 128" using assms by (auto simp: argNumbers_def)
  note s = scast_small [OF k(3), folded k(1)]
  have "sint A = int k" using k by (simp add: signed_of_nat signed_take_bit_int_eq_self)
  then have "A \<noteq> -1" by auto
  then show thesis using that k(2) s by simp
qed

section \<open>The occurrences of a call\<close>

text \<open>The parameter of one callee of an indirect call, sliced from the entry of the callee.\<close>

definition calleeOccurrence ::
  "llvm \<Rightarrow> gctx \<Rightarrow> mc_state \<Rightarrow> ptr \<Rightarrow> ptr \<Rightarrow> int8 \<Rightarrow> ptr \<Rightarrow> occurrence list"
where
  "calleeOccurrence ir ctx st F CI ArgNo Callee =
     (if blocks ir Callee = [] then []
      else let PArg = args ir Callee ! unat ArgNo;
               Scope = reach_set (\<lambda>b. set (successors ir b)) {hd (blocks ir Callee)}
           in [SrcOcc (CI, ArgNo) (\<exists>TV \<in> parameterValues ir ctx Callee Scope PArg.
                checkedDownstream ir ctx st F (CI, ArgNo) Scope TV) PArg])"

definition indirectOccurrences :: "llvm \<Rightarrow> gctx \<Rightarrow> mc_state \<Rightarrow> ptr \<Rightarrow> ptr \<Rightarrow> occurrence list" where
  "indirectOccurrences ir ctx st F CI =
     concat (map (\<lambda>ArgNo. if (CI, ArgNo) \<notin> CheckedSrcSet st then []
                          else concat (map (calleeOccurrence ir ctx st F CI ArgNo) (smallSetOrder ir (Callees ctx CI))))
       (argNumbers (length (argOperands ir CI))))"

text \<open>The return value of a direct call and its pointer arguments, as outputs of the callee.\<close>

definition sourceOccurrence ::
  "llvm \<Rightarrow> gctx \<Rightarrow> mc_state \<Rightarrow> ptr \<Rightarrow> ptr \<Rightarrow> ptr \<Rightarrow> int8 \<Rightarrow> occurrence list"
where
  "sourceOccurrence ir ctx st F CI CF ArgNo =
     (if (CF, ArgNo) \<notin> CheckedSrcSet st then []
      else if ArgNo = -1 then
        (if users ir CI = [] then []
         else [SrcOcc (CF, -1) (checkedDownstream ir ctx st F (CF, -1) (blocksAfter ir CI) CI) CI])
      else let Param = operands ir CI ! unat ArgNo
           in if isPointerTy ir (typeOf ir Param)
              then [SrcOcc (CF, ArgNo) (\<exists>LI \<in> loadsOf ir (blocksAfter ir CI) (getAliasPointers Param (FuncPAResults ctx F)).
                     checkedDownstream ir ctx st F (CF, ArgNo) (blocksAfter ir CI) LI) CI]
              else [])"

text \<open>An argument of a direct call, as use: the answer of the backward slice.\<close>

definition useOccurrence ::
  "llvm \<Rightarrow> gctx \<Rightarrow> mc_state \<Rightarrow> ptr \<Rightarrow> ptr \<Rightarrow> ptr \<Rightarrow> int8 \<Rightarrow> occurrence list"
where
  "useOccurrence ir ctx st F CI CF ArgNo =
     (if (CF, ArgNo) \<notin> CheckedUseSet st then []
      else let Arg = argOperands ir CI ! unat ArgNo
           in [UseOcc (CF, ArgNo) (\<exists>VSet. isCheckedBackward ir ctx st F (CF, ArgNo) Arg
                 (blocksBefore ir CI - {getParent ir CI}) ({}, False) 1 = Inr (VSet, True)) Arg])"

definition callOccurrences :: "llvm \<Rightarrow> gctx \<Rightarrow> mc_state \<Rightarrow> ptr \<Rightarrow> ptr \<Rightarrow> occurrence list" where
  "callOccurrences ir ctx st F CI =
     (if \<not> isa ir CallInst CI then []
      else if isIndirectCall ir CI then indirectOccurrences ir ctx st F CI
      else if intrinsicID ir CI \<noteq> 0 then []
      else if Callees ctx CI = {} \<or> firstCallee ir ctx CI = NULL then []
      else let CF = firstCallee ir ctx CI; n = length (argOperands ir CI)
           in if nameOf ir CF \<in> set ignoredFunctions then []
              else concat (map (sourceOccurrence ir ctx st F CI CF) (retAndArgNumbers n (length (args ir CF)))) @
                   concat (map (useOccurrence ir ctx st F CI CF) (argNumbers n)))"

text \<open>
  Every resolved callee of an indirect call has a parameter for each argument of the call: the
  condition under which no null pointer is read.
\<close>

definition wf_indirect :: "llvm \<Rightarrow> gctx \<Rightarrow> bool" where
  "wf_indirect ir ctx \<longleftrightarrow>
     (\<forall>CI \<in> set (heap ir). isa ir CallInst CI \<and> isIndirectCall ir CI \<longrightarrow>
        (\<forall>Callee \<in> set (smallSetOrder ir (Callees ctx CI)). blocks ir Callee \<noteq> [] \<longrightarrow>
           hd (blocks ir Callee) \<in> set (heap ir) \<and> set (args ir Callee) \<subseteq> set (heap ir) \<and>
           length (argOperands ir CI) \<le> length (args ir Callee)))"

lemma callOccurrences_ok: "x \<in> set (callOccurrences ir ctx st F CI) \<Longrightarrow> occ_ok st x"
  by (auto simp: callOccurrences_def indirectOccurrences_def calleeOccurrence_def sourceOccurrence_def
      useOccurrence_def Let_def split: if_splits)

lemma uncheckedCallee_counts:
  assumes w: "wf_values ir ctx" and s: "counting st s" and n: "unat (scast ArgNo :: size_t) = unat ArgNo" "unat ArgNo < length (args ir Callee)"
    and c: "blocks ir Callee \<noteq> []" "hd (blocks ir Callee) \<in> set (heap ir)" "set (args ir Callee) \<subseteq> set (heap ir)"
  shows "uncheckedCallee ir ctx F CI ArgNo Callee s =
    Inr (fold count_occ (calleeOccurrence ir ctx st F CI ArgNo Callee) s)"
proof -
  have "getArgByNo ir Callee ArgNo = args ir Callee ! unat ArgNo" using n by (simp add: getArgByNo_def)
  moreover have "checkedDownstream ir ctx s = checkedDownstream ir ctx st"
    by (rule checkedDownstream_cong) (use s in simp)
  ultimately show ?thesis
    using n c(1) by (simp add: uncheckedCallee_eq [OF w conjunct1 [OF s] c] calleeOccurrence_def Let_def)
qed

lemma uncheckedIndirectCall_counts:
  assumes w: "wf_values ir ctx" "wf_indirect ir ctx" and s: "counting st s"
    and C: "CI \<in> set (heap ir)" "isa ir CallInst CI" "isIndirectCall ir CI"
  shows "uncheckedIndirectCall ir ctx F CI s = Inr (fold count_occ (indirectOccurrences ir ctx st F CI) s)"
  unfolding uncheckedIndirectCall_def indirectOccurrences_def
proof (rule foldM_counts [OF _ _ s])
  fix A s assume A: "A \<in> set (argNumbers (length (argOperands ir CI)))" and s: "counting st s"
  have S: "CheckedSrcSet s = CheckedSrcSet st" using s by (simp add: same_db_def)
  show "(if src_c CI A \<notin> CheckedSrcSet s then Inr s
      else foldM (uncheckedCallee ir ctx F CI A) (smallSetOrder ir (Callees ctx CI)) s) =
    Inr (fold count_occ (if (CI, A) \<notin> CheckedSrcSet st then []
      else concat (map (calleeOccurrence ir ctx st F CI A) (smallSetOrder ir (Callees ctx CI)))) s)"
  proof (cases "(CI, A) \<in> CheckedSrcSet st")
    case True
    have "foldM (uncheckedCallee ir ctx F CI A) (smallSetOrder ir (Callees ctx CI)) s =
        Inr (fold count_occ (concat (map (calleeOccurrence ir ctx st F CI A) (smallSetOrder ir (Callees ctx CI)))) s)"
    proof (rule foldM_counts [OF _ _ s])
      fix Callee s assume Callee: "Callee \<in> set (smallSetOrder ir (Callees ctx CI))" and s: "counting st s"
      show "uncheckedCallee ir ctx F CI A Callee s = Inr (fold count_occ (calleeOccurrence ir ctx st F CI A Callee) s)"
      proof (cases "blocks ir Callee = []")
        case False
        then have c: "hd (blocks ir Callee) \<in> set (heap ir)" "set (args ir Callee) \<subseteq> set (heap ir)"
          "length (argOperands ir CI) \<le> length (args ir Callee)"
          using w(2) C Callee unfolding wf_indirect_def by blast+
        show ?thesis
          by (rule argNumbersE [OF A]) (rule uncheckedCallee_counts [OF w(1) s _ _ False c(1,2)], use c(3) in simp_all)
      qed (simp add: uncheckedCallee_def calleeOccurrence_def Let_def)
    qed (use True in \<open>auto simp: calleeOccurrence_def Let_def split: if_splits\<close>)
    then show ?thesis using True by (simp add: S src_c_def)
  qed (simp add: S src_c_def)
qed (auto simp: calleeOccurrence_def Let_def split: if_splits)

lemma call_argument:
  assumes "wf_values ir ctx" "CI \<in> set (heap ir)" "isa ir CallInst CI" "k < length (argOperands ir CI)"
  shows "getOperand ir CI k = Inr (operands ir CI ! k)" "argOperands ir CI ! k \<in> set (heap ir)"
  using wf_operandsD(3) [OF assms(1-3)] wf_heapD(3) [OF wf_valuesD(1) [OF assms(1)] assms(2)] assms(4)
  by (auto simp: getOperand_def dest: nth_mem)

lemma uncheckedSource_counts:
  assumes w: "wf_values ir ctx" and s: "counting st s" and C: "CI \<in> set (heap ir)" "isa ir CallInst CI"
    and A: "A \<in> set (retAndArgNumbers (length (argOperands ir CI)) m)"
  shows "uncheckedSource ir ctx F CI CF A s = Inr (fold count_occ (sourceOccurrence ir ctx st F CI CF A) s)"
proof -
  have S: "CheckedSrcSet s = CheckedSrcSet st" and d: "db_ok s" using s by (simp_all add: same_db_def)
  have v: "checkedDownstream ir ctx s = checkedDownstream ir ctx st"
    by (rule checkedDownstream_cong) (use s in simp)
  consider "A = -1" | "A \<in> set (argNumbers (min (length (argOperands ir CI)) m))"
    using A by (auto simp: retAndArgNumbers_def)
  then show ?thesis
  proof cases
    case 1
    show ?thesis
    proof (cases "users ir CI = [] \<or> (CF, -1) \<notin> CheckedSrcSet st")
      case True
      then show ?thesis by (auto simp: uncheckedSource_def sourceOccurrence_def src_c_def S Let_def 1)
    next
      case False
      then have f: "users ir CI \<noteq> []" "(CF, -1) \<in> CheckedSrcSet s" by (simp_all add: S)
      then show ?thesis
        by (simp add: 1 uncheckedSource_retval [OF w d C f] v sourceOccurrence_def S [symmetric])
    qed
  next
    case 2
    then obtain k: "unat A < length (argOperands ir CI)" "unat (scast A :: uint32) = unat A" "A \<noteq> -1"
      by (rule argNumbersE) simp
    let ?P = "operands ir CI ! unat A"
    have g: "getOperand ir CI (unat (scast A :: uint32)) = Inr ?P"
      unfolding k(2) by (rule call_argument(1) [OF w C k(1)])
    show ?thesis
    proof (cases "isPointerTy ir (typeOf ir ?P) \<and> (CF, A) \<in> CheckedSrcSet st")
      case True
      then have f: "isPointerTy ir (typeOf ir ?P)" "(CF, A) \<in> CheckedSrcSet s" by (simp_all add: S)
      then show ?thesis
        using k(3) by (simp add: uncheckedSource_argument [OF w d C k(3) g f] v sourceOccurrence_def Let_def S [symmetric])
    next
      case False
      then show ?thesis
        using k(3) by (auto simp: uncheckedSource_def sourceOccurrence_def src_c_def S Let_def g)
    qed
  qed
qed

lemma uncheckedUse_counts:
  assumes w: "wf_values ir ctx" "wf_callers ir ctx" and s: "counting st s"
    and C: "CI \<in> set (heap ir)" "isa ir CallInst CI" and A: "A \<in> set (argNumbers (length (argOperands ir CI)))"
  shows "uncheckedUse ir ctx F CI CF A s = Inr (fold count_occ (useOccurrence ir ctx st F CI CF A) s)"
proof (cases "(CF, A) \<in> CheckedUseSet st")
  case True
  obtain k: "unat A < length (argOperands ir CI)" "unat (scast A :: uint32) = unat A"
    by (rule argNumbersE [OF A])
  let ?Arg = "argOperands ir CI ! unat A" and ?Scope = "blocksBefore ir CI - {getParent ir CI}"
  have d: "db_ok s" and db: "same_db st s" and U: "CheckedUseSet s = CheckedUseSet st"
    using s by (simp_all add: same_db_def)
  have "backwardValid ir ctx s (F, ?Arg, ?Scope, 1)"
    using w d call_argument(2) [OF w(1) C k(1)] by (simp add: backwardValid_def backwardKey_def)
  from isCheckedBackward_finds [OF this, of "(CF, A)"]
  obtain V b where r: "isCheckedBackward ir ctx s F (CF, A) ?Arg ?Scope ({}, False) 1 = Inr (V, b)"
    by (auto elim!: returnsE2)
  moreover have "isCheckedBackward ir ctx st F (CF, A) ?Arg ?Scope ({}, False) 1 =
      isCheckedBackward ir ctx s F (CF, A) ?Arg ?Scope ({}, False) 1"
    by (simp add: isCheckedBackward_def isCheckedBackwardF_cong [OF db])
  ultimately have "(\<exists>VSet. isCheckedBackward ir ctx st F (CF, A) ?Arg ?Scope ({}, False) 1 = Inr (VSet, True)) = b"
    by simp
  moreover have "uncheckedUse ir ctx F CI CF A s = Inr (countUseOf b (CF, A) ?Arg s)"
    using True k by (simp add: uncheckedUse_def use_c_def Let_def U getArgOperand_def call_block(2) [OF w(1) C] r)
  ultimately show ?thesis using True by (simp add: useOccurrence_def Let_def)
next
  case False
  then show ?thesis using s by (simp add: uncheckedUse_def use_c_def useOccurrence_def same_db_def)
qed

lemma uncheckedCall_counts:
  assumes w: "wf_values ir ctx" "wf_callers ir ctx" "wf_indirect ir ctx" and s: "counting st s"
    and C: "CI \<in> set (heap ir)"
  shows "uncheckedCall ir ctx F CI s = Inr (fold count_occ (callOccurrences ir ctx st F CI) s)"
proof -
  let ?n = "length (argOperands ir CI)" and ?CF = "firstCallee ir ctx CI"
  let ?src = "concat (map (sourceOccurrence ir ctx st F CI ?CF) (retAndArgNumbers ?n (length (args ir ?CF))))"
  have src_ok: "occ_ok st y" if "y \<in> set (sourceOccurrence ir ctx st F CI ?CF A)" for A y
    using that by (auto simp: sourceOccurrence_def Let_def split: if_splits)
  have src: "foldM (uncheckedSource ir ctx F CI ?CF) (retAndArgNumbers ?n (length (args ir ?CF))) s = Inr (fold count_occ ?src s)"
    if "isa ir CallInst CI"
    by (rule foldM_counts [OF uncheckedSource_counts [OF w(1) _ C that] src_ok s])
  have "counting st (fold count_occ ?src s)"
    by (rule fold_count_counting [OF _ s]) (use src_ok in auto)
  then have use: "foldM (uncheckedUse ir ctx F CI ?CF) (argNumbers ?n) (fold count_occ ?src s) =
      Inr (fold count_occ (concat (map (useOccurrence ir ctx st F CI ?CF) (argNumbers ?n))) (fold count_occ ?src s))"
    if "isa ir CallInst CI"
    by (intro foldM_counts [OF uncheckedUse_counts [OF w(1,2) _ C that]])
       (auto simp: useOccurrence_def Let_def split: if_splits)
  have no_occ: "callOccurrences ir ctx st F CI = []"
    if "isa ir CallInst CI" "\<not> isIndirectCall ir CI" "users ir CI = [] \<and> ?n = 0"
    using that
    by (auto simp: callOccurrences_def Let_def retAndArgNumbers_def argNumbers_def sourceOccurrence_def)
  show ?thesis
  proof (cases "isa ir CallInst CI \<and> \<not> isIndirectCall ir CI")
    case True
    show ?thesis
    proof (cases "users ir CI = [] \<and> ?n = 0")
      case empty: True
      have "callOccurrences ir ctx st F CI = []" using no_occ True empty by blast
      then show ?thesis using True empty by (simp add: uncheckedCall_def)
    next
      case False
      then show ?thesis
        using True src use by (simp add: uncheckedCall_def callOccurrences_def Let_def split del: if_split cong: if_cong) (simp, blast)
    qed
  next
    case False
    then show ?thesis
      using uncheckedIndirectCall_counts [OF w(1,3) s C] by (auto simp: uncheckedCall_def callOccurrences_def)
  qed
qed

section \<open>The occurrences of functions and modules\<close>

definition functionOccurrences :: "llvm \<Rightarrow> gctx \<Rightarrow> mc_state \<Rightarrow> ptr \<Rightarrow> occurrence list" where
  "functionOccurrences ir ctx st F = concat (map (callOccurrences ir ctx st F) (instructions ir F))"

definition moduleOccurrences :: "llvm \<Rightarrow> gctx \<Rightarrow> mc_state \<Rightarrow> ptr list \<Rightarrow> occurrence list" where
  "moduleOccurrences ir ctx st Ms =
     concat (map (functionOccurrences ir ctx st) (concat (map (analysedFunctions ir ctx) Ms)))"

lemma functionOccurrences_ok: "x \<in> set (functionOccurrences ir ctx st F) \<Longrightarrow> occ_ok st x"
  by (auto simp: functionOccurrences_def intro: callOccurrences_ok)

lemma countSrcUseUnchecks_counts:
  assumes w: "wf_values ir ctx" "wf_callers ir ctx" "wf_indirect ir ctx" and s: "counting st s"
    and F: "set (instructions ir F) \<subseteq> set (heap ir)"
  shows "countSrcUseUnchecks ir ctx F s = Inr (fold count_occ (functionOccurrences ir ctx st F) s)"
  unfolding countSrcUseUnchecks_def functionOccurrences_def
  by (rule foldM_counts [OF uncheckedCall_counts [OF w] callOccurrences_ok s]) (use F in blast)+

text \<open>The module index is all that a module adds.\<close>

lemma count_occ_MIdx: "count_occ x (s\<lparr>MIdx := i\<rparr>) = (count_occ x s)\<lparr>MIdx := i\<rparr>"
  by (cases x) (simp_all add: countSrc_def countUseOf_def addSrcUncheck_def addUseUncheck_def Let_def)

lemma fold_count_MIdx: "fold count_occ xs (s\<lparr>MIdx := i\<rparr>) = (fold count_occ xs s)\<lparr>MIdx := i\<rparr>"
  by (induction xs arbitrary: s) (simp_all add: count_occ_MIdx)

lemma overFunctions_counts:
  assumes w: "wf_values ir ctx" "wf_callers ir ctx" "wf_indirect ir ctx" and s: "counting st s"
    and M: "\<And>F. F \<in> set (moduleFunctions ir M) \<Longrightarrow> set (instructions ir F) \<subseteq> set (heap ir)"
  shows "overFunctions (countSrcUseUnchecks ir ctx) ir ctx M s =
    Inr ((fold count_occ (moduleOccurrences ir ctx st [M]) s)\<lparr>MIdx := MIdx s + 1\<rparr>)"
proof -
  have "counting st (s\<lparr>MIdx := MIdx s + 1\<rparr>)" using s by (simp add: same_db_def)
  then have "foldM (countSrcUseUnchecks ir ctx) (analysedFunctions ir ctx M) (s\<lparr>MIdx := MIdx s + 1\<rparr>) =
      Inr (fold count_occ (concat (map (functionOccurrences ir ctx st) (analysedFunctions ir ctx M))) (s\<lparr>MIdx := MIdx s + 1\<rparr>))"
    by (intro foldM_counts [OF countSrcUseUnchecks_counts [OF w] functionOccurrences_ok])
       (use M in \<open>auto simp: analysedFunctions_def\<close>)
  then show ?thesis by (simp add: overFunctions_def moduleOccurrences_def fold_count_MIdx)
qed

lemma sweep_counts:
  assumes w: "wf_values ir ctx" "wf_callers ir ctx" "wf_indirect ir ctx" and s: "counting st s"
    and Ms: "\<forall>M \<in> set Ms. \<forall>F \<in> set (moduleFunctions ir M). set (instructions ir F) \<subseteq> set (heap ir)"
  shows "\<exists>i. foldM (overFunctions (countSrcUseUnchecks ir ctx) ir ctx) Ms s =
    Inr ((fold count_occ (moduleOccurrences ir ctx st Ms) s)\<lparr>MIdx := i\<rparr>)"
  using s Ms
proof (induction Ms arbitrary: s)
  case Nil
  show ?case by (rule exI [of _ "MIdx s"]) (simp add: moduleOccurrences_def)
next
  case (Cons M Ms)
  let ?t = "(fold count_occ (moduleOccurrences ir ctx st [M]) s)\<lparr>MIdx := MIdx s + 1\<rparr>"
  have ok: "occ_ok st x" if "x \<in> set (moduleOccurrences ir ctx st [M])" for x
    using that functionOccurrences_ok by (auto simp: moduleOccurrences_def)
  have "counting st (fold count_occ (moduleOccurrences ir ctx st [M]) s)"
    by (rule fold_count_counting [OF ok Cons.prems(1)])
  then have "counting st ?t" by (simp add: same_db_def)
  then obtain i where "foldM (overFunctions (countSrcUseUnchecks ir ctx) ir ctx) Ms ?t =
      Inr ((fold count_occ (moduleOccurrences ir ctx st Ms) ?t)\<lparr>MIdx := i\<rparr>)"
    using Cons.IH [of ?t] Cons.prems(2) by auto
  moreover have "overFunctions (countSrcUseUnchecks ir ctx) ir ctx M s = Inr ?t"
    by (rule overFunctions_counts [OF w Cons.prems(1)]) (use Cons.prems(2) in simp)
  moreover have "moduleOccurrences ir ctx st (M # Ms) = moduleOccurrences ir ctx st [M] @ moduleOccurrences ir ctx st Ms"
    by (simp add: moduleOccurrences_def)
  ultimately show ?case by (auto simp: fold_count_MIdx)
qed

section \<open>The counters\<close>

primrec sourceVerdict :: "src_t \<Rightarrow> occurrence \<Rightarrow> bool list" where
  "sourceVerdict Src (SrcOcc S b V) = (if S = Src then [b] else [])"
| "sourceVerdict Src (UseOcc U b V) = []"

primrec useVerdict :: "use_t \<Rightarrow> occurrence \<Rightarrow> bool list" where
  "useVerdict Use (SrcOcc S b V) = []"
| "useVerdict Use (UseOcc U b V) = (if U = Use then [b] else [])"

text \<open>The verdicts on one source or use, in the order in which they are counted.\<close>

definition sourceVerdicts :: "src_t \<Rightarrow> occurrence list \<Rightarrow> bool list" where
  "sourceVerdicts Src xs = concat (map (sourceVerdict Src) xs)"

definition useVerdicts :: "use_t \<Rightarrow> occurrence list \<Rightarrow> bool list" where
  "useVerdicts Use xs = concat (map (useVerdict Use) xs)"

lemma count_occ_totals:
  "SrcTotalCount (count_occ x s) Src = SrcTotalCount s Src + of_nat (length (sourceVerdict Src x))"
  "UseTotalCount (count_occ x s) Use = UseTotalCount s Use + of_nat (length (useVerdict Use x))"
  "counter (SrcUncheckCount (count_occ x s)) Src =
     counter (SrcUncheckCount s) Src + of_nat (length (filter Not (sourceVerdict Src x)))"
  "counter (UseUncheckCount (count_occ x s)) Use =
     counter (UseUncheckCount s) Use + of_nat (length (filter Not (useVerdict Use x)))"
  by (cases x; simp add: countSrc_def countUseOf_def addSrcUncheck_def addUseUncheck_def Let_def counter_bump)+

lemma fold_count_totals:
  "SrcTotalCount (fold count_occ xs s) Src = SrcTotalCount s Src + of_nat (length (sourceVerdicts Src xs))"
  "UseTotalCount (fold count_occ xs s) Use = UseTotalCount s Use + of_nat (length (useVerdicts Use xs))"
  "counter (SrcUncheckCount (fold count_occ xs s)) Src =
     counter (SrcUncheckCount s) Src + of_nat (length (filter Not (sourceVerdicts Src xs)))"
  "counter (UseUncheckCount (fold count_occ xs s)) Use =
     counter (UseUncheckCount s) Use + of_nat (length (filter Not (useVerdicts Use xs)))"
  by (induction xs arbitrary: s) (simp_all add: sourceVerdicts_def useVerdicts_def count_occ_totals)

end
