(* ===== verification/CallGraph.thy ===== *)
theory CallGraph
  imports Analyzer
begin

text \<open>
  \<open>CallGraph.cc\<close>: the global call graph. Indirect calls are resolved by function type and by the
  types of the structures the called pointer is loaded from (multi-layer type analysis, MLTA,
  the configured mode). Types are keyed by the hashes of \<open>Common.cc\<close>. The call of \<open>unrollLoops\<close>
  (theory \<open>LoopUnrolling\<close>) is compiled out: \<open>UNROLL_LOOP_ONCE\<close> is not defined.
\<close>

section \<open>State\<close>

text \<open>
  The static maps of \<open>CallGraphPass\<close> with the global context and \<open>TypeToTNameMap\<close>, the global of
  \<open>TypeInitializer.cc\<close> that \<open>typeHash\<close> reads. Maps to sets are functions, as in the context.
\<close>

record cg_state =
  cgCtx :: gctx
  TypeToTNameMap :: "ptr \<rightharpoonup> string"
  typeFuncsMap :: "size_t \<Rightarrow> func_set"
  typeConfineMap :: "size_t \<Rightarrow> size_t set"
  typeTransitMap :: "size_t \<Rightarrow> size_t set"
  typeEscapeSet :: "size_t set"

definition newCallGraph :: "gctx \<Rightarrow> (ptr \<rightharpoonup> string) \<Rightarrow> cg_state" where
  "newCallGraph ctx names =
     \<lparr> cgCtx = ctx, TypeToTNameMap = names, typeFuncsMap = (\<lambda>_. {}), typeConfineMap = (\<lambda>_. {}),
       typeTransitMap = (\<lambda>_. {}), typeEscapeSet = {} \<rparr>"

text \<open>\<open>M[k].insert(x)\<close>.\<close>

definition insertAt :: "'k \<Rightarrow> 'v \<Rightarrow> ('k \<Rightarrow> 'v set) \<Rightarrow> 'k \<Rightarrow> 'v set" where
  "insertAt k x M = M(k := insert x (M k))"

abbreviation addTypeFunc :: "size_t \<Rightarrow> ptr \<Rightarrow> cg_state \<Rightarrow> cg_state" where
  "addTypeFunc h F st \<equiv> st\<lparr>typeFuncsMap := insertAt h F (typeFuncsMap st)\<rparr>"

abbreviation addConfine :: "size_t \<Rightarrow> size_t \<Rightarrow> cg_state \<Rightarrow> cg_state" where
  "addConfine h h' st \<equiv> st\<lparr>typeConfineMap := insertAt h h' (typeConfineMap st)\<rparr>"

section \<open>Type analysis of one layer\<close>

text \<open>
  The loop that strips pointers off both types. Actual and defined type are compared by
  identity, by structure name and by integer width; \<open>char *\<close> matches every pointer.
\<close>

definition stripBoth :: "llvm \<Rightarrow> ptr \<Rightarrow> ptr \<Rightarrow> (ptr \<times> ptr) res" where
  "stripBoth ir DefinedTy ActualTy =
     repeatWhile (\<lambda>c. c)
       (\<lambda>(D, A). let D' = elementType ir D; A' = elementType ir A
                 in Inr (isPointerTy ir D' \<and> isPointerTy ir A', (D', A')))
       (isPointerTy ir DefinedTy \<and> isPointerTy ir ActualTy) (DefinedTy, ActualTy)"

definition typesMatch :: "llvm \<Rightarrow> ptr \<Rightarrow> ptr \<Rightarrow> bool res" where
  "typesMatch ir DefinedTy ActualTy =
     (if DefinedTy = ActualTy then Inr True
      else rbind (stripBoth ir DefinedTy ActualTy) (\<lambda>(D, A).
        if isStructTy ir D \<and> isStructTy ir A \<and> structName ir D = structName ir A then Inr True
        else if isIntegerTy ir D \<and> isIntegerTy ir A \<and> integerBitWidth ir D = integerBitWidth ir A then Inr True
        else Inr (D = int8PtrTy ir \<and> (isPointerTy ir A \<or> A = intPtrTy ir) \<or>
                  A = int8PtrTy ir \<and> (isPointerTy ir D \<or> D = intPtrTy ir))))"

text \<open>
  The arguments are paired with the parameters; the iterator over the arguments of a call with
  too few of them runs past their end.
\<close>

fun argsMatch :: "llvm \<Rightarrow> ptr list \<Rightarrow> ptr list \<Rightarrow> bool res" where
  "argsMatch ir [] As = Inr True"
| "argsMatch ir (P # Ps) [] = Inl OutOfRange"
| "argsMatch ir (P # Ps) (A # As) =
     rbind (typesMatch ir (typeOf ir P) (typeOf ir A))
       (\<lambda>ok. if ok then argsMatch ir Ps As else Inr False)"

definition findCalleesWithType :: "llvm \<Rightarrow> gctx \<Rightarrow> ptr \<Rightarrow> ptr set \<Rightarrow> ptr set res" where
  "findCalleesWithType ir ctx CI S =
     (if isa ir InlineAsm (calledValue ir CI) then Inr S
      else foldM (\<lambda>F S.
        if \<not> isVarArg ir (functionType ir F) \<and> length (args ir F) \<noteq> length (argOperands ir CI) then Inr S
        else if isIntrinsic ir F then Inr S
        else rbind (argsMatch ir (args ir F) (argOperands ir CI))
          (\<lambda>Matched. Inr (if Matched then insert F S else S)))
        (smallSetOrder ir (AddressTakenFuncs ctx)) S)"

section \<open>Where types are confined\<close>

definition isCompositeType :: "llvm \<Rightarrow> ptr \<Rightarrow> bool" where
  "isCompositeType ir Ty \<longleftrightarrow> isStructTy ir Ty \<or> isArrayTy ir Ty \<or> isVectorTy ir Ty"

text \<open>
  One operand \<open>O\<close> with number \<open>ONo\<close> of an initializer \<open>U\<close>. Nested composite initializers are
  queued; \<open>dyn_cast<User>\<close> of another value queues a null pointer.
\<close>

definition confineOperand ::
  "llvm \<Rightarrow> ptr \<Rightarrow> nat \<times> ptr \<Rightarrow> ptr list \<times> cg_state \<Rightarrow> (ptr list \<times> cg_state) res"
where
  "confineOperand ir U = (\<lambda>(ONo, Op) (LU, st).
     let OTy = typeOf ir Op; slot = typeIdxHash ir (TypeToTNameMap st) (typeOf ir U) (of_nat ONo)
     in if isa ir FunctionValue Op then Inr (LU, addTypeFunc slot Op st)
        else if isCompositeType ir OTy then
          Inr (LU @ [if isa ir UserClass Op then Op else NULL],
               addConfine slot (typeHash ir (TypeToTNameMap st) OTy) st)
        else Inr (LU, st))"

definition confineInitializers :: "llvm \<Rightarrow> ptr list \<times> cg_state \<Rightarrow> (bool \<times> ptr list \<times> cg_state) res" where
  "confineInitializers ir = (\<lambda>(LU, st).
     case LU of
       [] \<Rightarrow> Inr (False, [], st)
     | U # LU \<Rightarrow>
         if U = NULL then Inl NullDeref
         else rbind (foldM (confineOperand ir U) (enumerate 0 (operands ir U)) (LU, st))
           (\<lambda>(LU, st). Inr (LU \<noteq> [], LU, st)))"

definition typeConfineInInitializer :: "llvm \<Rightarrow> ptr \<Rightarrow> cg_state \<Rightarrow> (bool \<times> cg_state) res" where
  "typeConfineInInitializer ir Ini st =
     rbind (repeatWhile (\<lambda>c. c) (confineInitializers ir) True ([Ini], st)) (\<lambda>(LU, st). Inr (True, st))"

definition escapeType :: "llvm \<Rightarrow> ptr \<Rightarrow> int32 \<Rightarrow> cg_state \<Rightarrow> cg_state" where
  "escapeType ir Ty Idx st =
     st\<lparr>typeEscapeSet := insert
          (if Idx = -1 then typeHash ir (TypeToTNameMap st) Ty
           else typeIdxHash ir (TypeToTNameMap st) Ty Idx) (typeEscapeSet st)\<rparr>"

definition transitType :: "llvm \<Rightarrow> ptr \<Rightarrow> ptr \<Rightarrow> int32 \<Rightarrow> int32 \<Rightarrow> cg_state \<Rightarrow> cg_state" where
  "transitType ir ToTy FromTy ToIdx FromIdx st =
     (let names = TypeToTNameMap st
      in if ToIdx \<noteq> -1 \<and> FromIdx \<noteq> -1
         then st\<lparr>typeTransitMap := insertAt (typeIdxHash ir names ToTy ToIdx)
                  (typeIdxHash ir names FromTy FromIdx) (typeTransitMap st)\<rparr>
         else st\<lparr>typeTransitMap := insertAt (typeHash ir names ToTy) (typeHash ir names FromTy)
                  (typeTransitMap st)\<rparr>)"

definition funcSetIntersection :: "func_set \<Rightarrow> func_set \<Rightarrow> func_set" where
  "funcSetIntersection FS1 FS2 = {F \<in> FS1. F \<in> FS2}"

text \<open>
  The next lower layer of a pointer: the base pointer with the composite type and the index it
  is derived with. Loads and other unary instructions are looked through.
\<close>

fun nextLayerBaseTypeF :: "llvm \<Rightarrow> nat \<Rightarrow> ptr \<Rightarrow> (ptr \<times> ptr \<times> int32) option res" where
  "nextLayerBaseTypeF ir 0 V = Inl Diverges"
| "nextLayerBaseTypeF ir (Suc n) V =
     (if isa ir GEPOperator V then
        (let Ty = elementType ir (typeOf ir (pointerOperand ir V))
         in if isCompositeType ir Ty \<and> allConstantIndices ir V
            then Inr (Some (pointerOperand ir V, Ty, lastIndex ir V))
            else Inr None)
      else if isa ir LoadInst V then
        (if 0 < length (operands ir V) then nextLayerBaseTypeF ir n (operands ir V ! 0) else Inl OutOfRange)
      else if isa ir UnaryInstruction V then
        (if 0 < length (operands ir V) then nextLayerBaseTypeF ir n (operands ir V ! 0) else Inl OutOfRange)
      else Inr None)"

definition nextLayerBaseType :: "llvm \<Rightarrow> ptr \<Rightarrow> (ptr \<times> ptr \<times> int32) option res" where
  "nextLayerBaseType ir V = nextLayerBaseTypeF ir (search_fuel ir) V"

definition typeConfineInStore :: "llvm \<Rightarrow> ptr \<Rightarrow> cg_state \<Rightarrow> (bool \<times> cg_state) res" where
  "typeConfineInStore ir SI st =
     (let PO = pointerOperand ir SI; VO = valueOperand ir SI; names = TypeToTNameMap st
      in if isa ir FunctionValue VO then
           rbind (nextLayerBaseType ir PO) (\<lambda>layer. case layer of
               Some (B, STy, Idx) \<Rightarrow> Inr (True, addTypeFunc (typeIdxHash ir names STy Idx) VO st)
             | None \<Rightarrow> Inr (False, st))
         else (let EPTy = elementType ir (typeOf ir PO); VTy = typeOf ir VO
           in if isCompositeType ir VTy then
                (if isCompositeType ir EPTy
                 then Inr (True, addConfine (typeHash ir names EPTy) (typeHash ir names VTy) st)
                 else Inr (False, escapeType ir EPTy (-1) st))
              else if isa ir ConstantPointerNull VO then Inr (False, st)
              else if \<not> isPointerTy ir VTy then Inr (False, st)
              else (let EVTy = elementType ir VTy
                in rbind (nextLayerBaseType ir PO) (\<lambda>layer. case layer of
                    Some (B, STy, Idx) \<Rightarrow>
                      if isCompositeType ir EVTy
                      then Inr (True, addConfine (typeIdxHash ir names STy Idx) (typeHash ir names EVTy) st)
                      else Inr (False, escapeType ir STy Idx st)
                  | None \<Rightarrow> Inr (False, st)))))"

definition typeConfineInCast :: "llvm \<Rightarrow> ptr \<Rightarrow> cg_state \<Rightarrow> (bool \<times> cg_state) res" where
  "typeConfineInCast ir CastI st =
     (if length (operands ir CastI) = 0 then Inl OutOfRange
      else (let ToTy = typeOf ir CastI; FromTy = typeOf ir (operands ir CastI ! 0)
        in if isCompositeType ir FromTy then Inr (True, transitType ir ToTy FromTy (-1) (-1) st)
           else if \<not> isPointerTy ir FromTy \<or> \<not> isPointerTy ir ToTy then Inr (False, st)
           else (let EToTy = elementType ir ToTy; EFromTy = elementType ir FromTy
             in if isCompositeType ir EToTy \<and> isCompositeType ir EFromTy
                then Inr (True, transitType ir EToTy EFromTy (-1) (-1) st)
                else Inr (False, st))))"

section \<open>Targets of an indirect call\<close>

text \<open>
  Step 3 of a layer: the function sets of the types that were cast to the layer's type. The hash
  of the type is held in an \<open>unsigned\<close>, which keeps its low 32 bits.
\<close>

definition transitted :: "llvm \<Rightarrow> cg_state \<Rightarrow> int32 \<Rightarrow> uint32 \<Rightarrow> func_set \<times> func_set \<Rightarrow> func_set \<times> func_set" where
  "transitted ir st FieldIdx CT =
     fold (\<lambda>H (FS1, FST).
         let FST = funcSetIntersection FS1 (typeFuncsMap st (hashIdxHash ir H FieldIdx))
         in (if FST \<noteq> {} then FST else FS1, FST))
       (sorted_list_of_set (typeTransitMap st (ucast CT)))"

definition hasEscaped :: "llvm \<Rightarrow> cg_state \<Rightarrow> ptr \<Rightarrow> int32 \<Rightarrow> bool" where
  "hasEscaped ir st LayerTy FieldIdx \<longleftrightarrow>
     typeHash ir (TypeToTNameMap st) LayerTy \<in> typeEscapeSet st \<or>
     typeIdxHash ir (TypeToTNameMap st) LayerTy FieldIdx \<in> typeEscapeSet st"

definition layerFuncs :: "llvm \<Rightarrow> cg_state \<Rightarrow> ptr \<Rightarrow> int32 \<Rightarrow> func_set \<Rightarrow> func_set" where
  "layerFuncs ir st LayerTy FieldIdx FS1 =
     (let FS2 = typeFuncsMap st (typeIdxHash ir (TypeToTNameMap st) LayerTy FieldIdx);
          TH = ucast (typeHash ir (TypeToTNameMap st) LayerTy) :: uint32;
          (FS1, FST) = transitted ir st FieldIdx TH (FS1, funcSetIntersection FS1 FS2)
      in if FST \<noteq> {} then FST else FS1)"

fun mltaLayersF :: "llvm \<Rightarrow> cg_state \<Rightarrow> nat \<Rightarrow> (ptr \<times> ptr \<times> int32) option \<Rightarrow> func_set \<Rightarrow> func_set res" where
  "mltaLayersF ir st 0 layer FS1 = Inl Diverges"
| "mltaLayersF ir st (Suc n) layer FS1 =
     (case layer of
        None \<Rightarrow> Inr FS1
      | Some (CV, LayerTy, FieldIdx) \<Rightarrow>
          if hasEscaped ir st LayerTy FieldIdx then Inr FS1
          else rbind (nextLayerBaseType ir CV)
            (\<lambda>layer. mltaLayersF ir st n layer (layerFuncs ir st LayerTy FieldIdx FS1)))"

definition findCalleesWithMLTA :: "llvm \<Rightarrow> cg_state \<Rightarrow> ptr \<Rightarrow> func_set \<Rightarrow> (bool \<times> func_set) res" where
  "findCalleesWithMLTA ir st CI FS =
     (let FS1 = sigFuncsMap (cgCtx st) (callHash ir CI)
      in if FS1 = {} then Inr (False, FS)
         else rbind (nextLayerBaseType ir (calledValue ir CI)) (\<lambda>layer.
           rbind (mltaLayersF ir st (Suc (search_fuel ir)) layer FS1) (\<lambda>FS. Inr (True, FS))))"

section \<open>The pass\<close>

text \<open>
  The names of system calls are made consistent. The sources keep the new name in a \<open>StringRef\<close> to a
  temporary that is gone when the name is used; this is the name they mean.
\<close>

definition syscallName :: "string \<Rightarrow> string" where
  "syscallName FName = (if take 4 FName = ''SyS_'' then ''sys_'' @ drop 4 FName else FName)"

definition confineInst :: "llvm \<Rightarrow> ptr \<Rightarrow> cg_state \<Rightarrow> cg_state res" where
  "confineInst ir I st =
     (if isa ir StoreInst I then rbind (typeConfineInStore ir I st) (\<lambda>(b, st). Inr st)
      else if isa ir CastInst I then rbind (typeConfineInCast ir I st) (\<lambda>(b, st). Inr st)
      else Inr st)"

definition takeAddress :: "llvm \<Rightarrow> ptr \<Rightarrow> gctx \<Rightarrow> gctx" where
  "takeAddress ir F ctx =
     (if hasAddressTaken ir F
      then ctx\<lparr>AddressTakenFuncs := insert F (AddressTakenFuncs ctx),
               sigFuncsMap := insertAt (funcHash ir F False) F (sigFuncsMap ctx)\<rparr>
      else ctx)"

definition nameGlobal :: "llvm \<Rightarrow> ptr \<Rightarrow> gctx \<Rightarrow> gctx" where
  "nameGlobal ir F ctx =
     (if hasExternalLinkage ir F \<and> blocks ir F \<noteq> []
      then ctx\<lparr>GlobalFuncs := (GlobalFuncs ctx)(syscallName (nameOf ir F) \<mapsto> F)\<rparr>
      else ctx)"

text \<open>A single copy is kept of functions with the same hash of type and name.\<close>

definition unify :: "llvm \<Rightarrow> ptr \<Rightarrow> gctx \<Rightarrow> gctx" where
  "unify ir F ctx =
     (let fh = funcHash ir F True
      in if UnifiedFuncMap ctx fh = None then
           (let ctx = ctx\<lparr>UnifiedFuncMap := (UnifiedFuncMap ctx)(fh \<mapsto> F),
                          UnifiedFuncSet := insert F (UnifiedFuncSet ctx)\<rparr>
            in if hasAddressTaken ir F
               then ctx\<lparr>sigFuncsMap := insertAt (funcHash ir F False) F (sigFuncsMap ctx)\<rparr>
               else ctx)
         else ctx)"

definition initFunction :: "llvm \<Rightarrow> ptr \<Rightarrow> cg_state \<Rightarrow> cg_state res" where
  "initFunction ir F st =
     (if isDeclaration ir F then Inr st
      else rbind (foldM (confineInst ir) (instructions ir F) st)
        (\<lambda>st. Inr (st\<lparr>cgCtx := unify ir F (nameGlobal ir F (takeAddress ir F (cgCtx st)))\<rparr>)))"

definition initGlobal :: "llvm \<Rightarrow> ptr \<Rightarrow> cg_state \<Rightarrow> cg_state res" where
  "initGlobal ir GV st =
     (if \<not> hasInitializer ir GV then Inr st
      else if \<not> isa ir ConstantAggregate (initializer ir GV) then Inr st
      else rbind (typeConfineInInitializer ir (initializer ir GV) st) (\<lambda>(b, st). Inr st))"

definition CallGraph_doInitialization :: "llvm \<Rightarrow> ptr \<Rightarrow> cg_state \<Rightarrow> (bool \<times> cg_state) res" where
  "CallGraph_doInitialization ir M st =
     rbind (foldM (initGlobal ir) (moduleGlobals ir M) st) (\<lambda>st.
       rbind (foldM (initFunction ir) (moduleFunctions ir M) st) (\<lambda>st. Inr (False, st)))"

text \<open>
  A direct call: the definition of an external function is looked up by name, then the unified
  copy by hash. \<open>operator[]\<close> enters a null pointer where there is none.
\<close>

definition externalTarget :: "llvm \<Rightarrow> ptr \<Rightarrow> gctx \<Rightarrow> ptr \<times> gctx" where
  "externalTarget ir CF ctx =
     (if blocks ir CF \<noteq> [] then (CF, ctx)
      else (let FName = syscallName (nameOf ir CF)
            in case GlobalFuncs ctx FName of
                 Some GF \<Rightarrow> (if GF \<noteq> NULL then GF else CF, ctx)
               | None \<Rightarrow> (CF, ctx\<lparr>GlobalFuncs := (GlobalFuncs ctx)(FName \<mapsto> NULL)\<rparr>)))"

definition unifiedTarget :: "llvm \<Rightarrow> ptr \<Rightarrow> gctx \<Rightarrow> ptr \<times> gctx" where
  "unifiedTarget ir CF ctx =
     (let fh = funcHash ir CF True
      in case UnifiedFuncMap ctx fh of
           Some UF \<Rightarrow> (UF, ctx)
         | None \<Rightarrow> (NULL, ctx\<lparr>UnifiedFuncMap := (UnifiedFuncMap ctx)(fh \<mapsto> NULL)\<rparr>))"

definition addCaller :: "ptr \<Rightarrow> ptr \<Rightarrow> gctx \<Rightarrow> gctx" where
  "addCaller CI Callee ctx = ctx\<lparr>Callers := insertAt Callee CI (Callers ctx)\<rparr>"

definition directCall :: "llvm \<Rightarrow> ptr \<Rightarrow> gctx \<Rightarrow> func_set \<times> gctx" where
  "directCall ir CI ctx =
     (let CF = calledFunction ir CI
      in if CF = NULL then ({}, ctx)
         else (let (CF, ctx) = externalTarget ir CF ctx; (CF, ctx) = unifiedTarget ir CF ctx
               in if CF \<noteq> NULL then ({CF}, addCaller CI CF ctx) else ({}, ctx)))"

definition indirectCall :: "llvm \<Rightarrow> ptr \<Rightarrow> cg_state \<Rightarrow> (func_set \<times> gctx) res" where
  "indirectCall ir CI st =
     rbind (findCalleesWithMLTA ir st CI {}) (\<lambda>(found, FS).
       let ctx = fold (addCaller CI) (smallSetOrder ir FS) (cgCtx st)
       in Inr (FS, ctx\<lparr>IndirectCallInsts := IndirectCallInsts ctx @ [CI]\<rparr>))"

definition resolveCall :: "llvm \<Rightarrow> ptr \<Rightarrow> cg_state \<Rightarrow> cg_state res" where
  "resolveCall ir CI st =
     (if \<not> isa ir CallInst CI then Inr st
      else rbind (if isIndirectCall ir CI then indirectCall ir CI st else Inr (directCall ir CI (cgCtx st)))
        (\<lambda>(FS, ctx). Inr (st\<lparr>cgCtx := ctx\<lparr>Callees := (Callees ctx)(CI := FS)\<rparr>\<rparr>)))"

definition CallGraph_doModulePass :: "llvm \<Rightarrow> ptr \<Rightarrow> cg_state \<Rightarrow> (bool \<times> cg_state) res" where
  "CallGraph_doModulePass ir M st =
     rbind (foldM (\<lambda>F st.
         if F \<notin> UnifiedFuncSet (cgCtx st) then Inr st
         else foldM (resolveCall ir) (instructions ir F) st) (moduleFunctions ir M) st)
       (\<lambda>st. Inr (False, st))"

definition CallGraphPass :: "llvm \<Rightarrow> cg_state pass" where
  "CallGraphPass ir =
     \<lparr> doInitialization = CallGraph_doInitialization ir,
       doModulePass = CallGraph_doModulePass ir,
       doFinalization = (\<lambda>M st. Inr (False, st)) \<rparr>"

end
