(* ===== verification/PointerAnalysis.thy ===== *)
theory PointerAnalysis
  imports DriverTheorems
begin

text \<open>
  \<open>PointerAnalysis.cc\<close>: the addresses each function reads and writes are compared pairwise by
  the alias analysis of LLVM (the parameter \<open>aliasQuery\<close>); a "may" answer is refined by comparing
  the pointers the two addresses are derived from. The result is the alias map of the function,
  \<open>FuncPAResults\<close>, which the data-flow analysis reads.
\<close>

section \<open>Where a pointer comes from\<close>

definition isPointerSource :: "llvm \<Rightarrow> ptr \<Rightarrow> bool" where
  "isPointerSource ir TI \<longleftrightarrow>
     isa ir Argument TI \<or> isa ir AllocaInst TI \<or> isa ir CallInst TI \<or> isa ir GlobalVariable TI"

text \<open>
  The loop over the queue \<open>EI\<close>; the condition of the loop is that the queue is not empty and no
  source was found.
\<close>

definition sourcePointerStep :: "llvm \<Rightarrow> ptr list \<times> ptr \<Rightarrow> (bool \<times> ptr list \<times> ptr) res" where
  "sourcePointerStep ir = (\<lambda>(EI, SrcP).
     case EI of
       [] \<Rightarrow> Inr (False, EI, SrcP)
     | TI # EI \<Rightarrow>
         if isPointerSource ir TI then Inr (False, EI, SrcP)
         else if isa ir UnaryInstruction TI then
           (case operands ir TI of
              [] \<Rightarrow> Inl OutOfRange
            | UO # _ \<Rightarrow>
                if isPointerTy ir (typeOf ir UO) \<and> isa ir Instruction UO
                then Inr (True, EI @ [UO], UO) else Inr (EI \<noteq> [], EI, SrcP))
         else if isa ir GetElementPtrInst TI then
           Inr (True, EI @ [pointerOperand ir TI], pointerOperand ir TI)
         else Inr (EI \<noteq> [], EI, SrcP))"

definition getSourcePointer :: "llvm \<Rightarrow> ptr \<Rightarrow> ptr res" where
  "getSourcePointer ir P =
     rbind (repeatWhile (\<lambda>c. c) (sourcePointerStep ir) True ([P], P)) (\<lambda>(EI, SrcP). Inr SrcP)"

section \<open>Augmented aliases\<close>

text \<open>
  \<open>augmentMustAlias\<close> and \<open>collectPointers\<close> are declared by the pass and called by nothing. The
  closure pushes an \<open>alloca\<close> onto its own queue, where the processed set drops it.
\<close>

definition mustAliasTodo :: "llvm \<Rightarrow> ptr \<Rightarrow> unit \<Rightarrow> (ptr list \<times> unit) res" where
  "mustAliasTodo ir TV u =
     (if isa ir GetElementPtrInst TV then Inr ([pointerOperand ir TV], u)
      else if isa ir CastInst TV then
        (case operands ir TV of Op # _ \<Rightarrow> Inr ([Op], u) | [] \<Rightarrow> Inl OutOfRange)
      else if isa ir AllocaInst TV then Inr ([TV], u)
      else Inr ([], u))"

definition augmentMustAlias :: "llvm \<Rightarrow> ptr \<Rightarrow> ptr set \<Rightarrow> ptr set res" where
  "augmentMustAlias ir P ASet =
     rbind (worklist never_stop (\<lambda>x. x) (mustAliasTodo ir) [P] ()) (\<lambda>(PV, u).
       Inr (fold (\<lambda>V ASet.
            fold (\<lambda>U ASet. if isa ir GetElementPtrInst U then insert U ASet
                           else if isa ir CastInst U then insert U ASet else ASet)
              (users ir V) (insert V ASet))
          (sorted_list_of_set PV) ASet))"

definition collectPointers :: "llvm \<Rightarrow> ptr \<Rightarrow> ptr set \<Rightarrow> ptr set" where
  "collectPointers ir F PSet =
     fold (\<lambda>I PSet.
         if \<not> isPointerTy ir (typeOf ir I) then PSet
         else if isa ir LoadInst I \<or> isa ir GetElementPtrInst I \<or> isa ir CastInst I
         then insert I PSet else PSet)
       (instructions ir F) PSet"

section \<open>Aliases of a function\<close>

text \<open>The addresses an instruction accesses or passes on.\<close>

definition collectAddress :: "llvm \<Rightarrow> ptr \<Rightarrow> ptr set \<Rightarrow> ptr set" where
  "collectAddress ir I addr1Set =
     (if isa ir LoadInst I then insert (pointerOperand ir I) addr1Set
      else if isa ir StoreInst I then insert (pointerOperand ir I) addr1Set
      else if isa ir CallInst I then
        fold (\<lambda>Arg S. if \<not> isPointerTy ir (typeOf ir Arg) then S else insert Arg S)
          (argOperands ir I) addr1Set
      else addr1Set)"

definition notAliased :: "llvm \<Rightarrow> ptr \<Rightarrow> ptr \<Rightarrow> bool res" where
  "notAliased ir Addr1 Addr2 =
     (case aliasQuery ir Addr1 Addr2 of
        MustAlias \<Rightarrow> Inr False
      | PartialAlias \<Rightarrow> Inr False
      | MayAlias \<Rightarrow>
          rbind (getSourcePointer ir Addr1) (\<lambda>S1. rbind (getSourcePointer ir Addr2) (\<lambda>S2.
            Inr (S1 \<noteq> S2)))
      | NoAlias \<Rightarrow> Inr True)"

definition addAlias :: "ptr \<Rightarrow> ptr \<Rightarrow> (ptr \<rightharpoonup> ptr set) \<Rightarrow> (ptr \<rightharpoonup> ptr set)" where
  "addAlias Addr1 Addr2 aliasPtrs =
     (case aliasPtrs Addr1 of
        None \<Rightarrow> aliasPtrs(Addr1 \<mapsto> {Addr2})
      | Some sv \<Rightarrow> aliasPtrs(Addr1 \<mapsto> insert Addr2 sv))"

definition aliasPair :: "llvm \<Rightarrow> ptr \<Rightarrow> ptr \<Rightarrow> (ptr \<rightharpoonup> ptr set) \<Rightarrow> (ptr \<rightharpoonup> ptr set) res" where
  "aliasPair ir Addr1 Addr2 aliasPtrs =
     (if Addr1 = Addr2 then Inr aliasPtrs
      else rbind (notAliased ir Addr1 Addr2) (\<lambda>notAlias.
        Inr (if notAlias then aliasPtrs else addAlias Addr1 Addr2 aliasPtrs)))"

definition detectAliasPointers ::
  "llvm \<Rightarrow> ptr \<Rightarrow> (ptr \<rightharpoonup> ptr set) \<Rightarrow> (ptr \<rightharpoonup> ptr set) res"
where
  "detectAliasPointers ir F aliasPtrs =
     (let addr1Set = fold (collectAddress ir) (instructions ir F) {}
      in if card addr1Set > 1000 then Inr aliasPtrs
         else foldM (\<lambda>Addr1. foldM (aliasPair ir Addr1) (sorted_list_of_set addr1Set))
                (sorted_list_of_set addr1Set) aliasPtrs)"

section \<open>The pass\<close>

text \<open>
  The analysis of LLVM (\<open>TLI\<close>, the pass manager) is behind \<open>aliasQuery\<close>; its handle is the same
  for all functions of the module.
\<close>

definition aliasFunction :: "llvm \<Rightarrow> ptr \<Rightarrow> ptr \<Rightarrow> gctx \<Rightarrow> gctx res" where
  "aliasFunction ir M F ctx =
     (if blocks ir F = [] then Inr ctx
      else rbind (detectAliasPointers ir F Map.empty) (\<lambda>aliasPtrs.
        Inr (ctx\<lparr>FuncPAResults := (FuncPAResults ctx)(F := aliasPtrs),
                 FuncAAResults := (FuncAAResults ctx)(F \<mapsto> aliasResults ir M)\<rparr>)))"

definition PointerAnalysis_doModulePass :: "llvm \<Rightarrow> ptr \<Rightarrow> gctx \<Rightarrow> (bool \<times> gctx) res" where
  "PointerAnalysis_doModulePass ir M ctx =
     rbind (foldM (aliasFunction ir M) (moduleFunctions ir M) ctx) (\<lambda>ctx. Inr (False, ctx))"

definition PointerAnalysisPass :: "llvm \<Rightarrow> gctx pass" where
  "PointerAnalysisPass ir =
     \<lparr> doInitialization = (\<lambda>M ctx. Inr (False, ctx)),
       doModulePass = PointerAnalysis_doModulePass ir,
       doFinalization = (\<lambda>M ctx. Inr (False, ctx)) \<rparr>"

end
