(* ===== verification/TypeInitializer.thy ===== *)
theory TypeInitializer
  imports DriverTheorems
begin

text \<open>
  \<open>TypeInitializer.cc\<close>: structure types without a name are given one, through the global
  variables of that type and the named structure types that values of the same name have.
\<close>

record ti_state =
  tiCtx :: gctx
  TypeValueMap :: "ptr \<rightharpoonup> string"
  VnameToTypenameMap :: "string \<rightharpoonup> string"
  tiTypeToTNameMap :: "ptr \<rightharpoonup> string"

definition newTypeInitializer :: "gctx \<Rightarrow> ti_state" where
  "newTypeInitializer ctx =
     \<lparr> tiCtx = ctx, TypeValueMap = Map.empty, VnameToTypenameMap = Map.empty, tiTypeToTNameMap = Map.empty \<rparr>"

text \<open>\<open>std::map::insert\<close> keeps an existing entry.\<close>

definition mapInsert :: "'k \<Rightarrow> 'v \<Rightarrow> ('k \<rightharpoonup> 'v) \<Rightarrow> ('k \<rightharpoonup> 'v)" where
  "mapInsert k v M = (case M k of None \<Rightarrow> M(k \<mapsto> v) | Some _ \<Rightarrow> M)"

section \<open>Collecting names\<close>

definition nameGlobalType :: "llvm \<Rightarrow> ptr \<Rightarrow> ti_state \<Rightarrow> ti_state" where
  "nameGlobalType ir GV st =
     (let GVTy = valueType ir GV
      in if \<not> hasName ir GV then st
         else if isStructTy ir GVTy then
           (if structHasName ir GVTy then st
            else st\<lparr>TypeValueMap := mapInsert GVTy (nameOf ir GV) (TypeValueMap st)\<rparr>)
         else st)"

text \<open>\<open>while (VT && VT->isPointerTy()) VT = VT->getPointerElementType();\<close>\<close>

definition stripPointers :: "llvm \<Rightarrow> ptr \<Rightarrow> ptr res" where
  "stripPointers ir VT =
     repeatWhile (\<lambda>c. c)
       (\<lambda>VT. let VT = elementType ir VT in Inr (VT \<noteq> NULL \<and> isPointerTy ir VT, VT))
       (VT \<noteq> NULL \<and> isPointerTy ir VT) VT"

definition nameOperandType :: "llvm \<Rightarrow> ptr \<Rightarrow> ti_state \<Rightarrow> ti_state res" where
  "nameOperandType ir VI st =
     (if VI = NULL then Inr st
      else if \<not> hasName ir VI then Inr st
      else rbind (stripPointers ir (typeOf ir VI)) (\<lambda>VT.
        if VT = NULL then Inr st
        else if isStructTy ir VT then
          (if \<not> hasName ir VI \<or> \<not> structHasName ir VT then Inr st
           else Inr (st\<lparr>VnameToTypenameMap :=
                  mapInsert (nameOf ir VI) (structName ir VT) (VnameToTypenameMap st)\<rparr>))
        else Inr st))"

definition nameFunctionTypes :: "llvm \<Rightarrow> ptr \<Rightarrow> ti_state \<Rightarrow> ti_state res" where
  "nameFunctionTypes ir Fn st =
     (if isIntrinsic ir Fn then Inr st
      else foldM (\<lambda>Inst. foldM (nameOperandType ir) (operands ir Inst)) (instructions ir Fn) st)"

definition TypeInitializer_doInitialization :: "llvm \<Rightarrow> ptr \<Rightarrow> ti_state \<Rightarrow> (bool \<times> ti_state) res" where
  "TypeInitializer_doInitialization ir M st =
     rbind (foldM (nameFunctionTypes ir) (moduleFunctions ir M)
         (fold (nameGlobalType ir) (moduleGlobals ir M) st)) (\<lambda>st. Inr (False, st))"

definition TypeInitializerPass :: "llvm \<Rightarrow> ti_state pass" where
  "TypeInitializerPass ir =
     \<lparr> doInitialization = TypeInitializer_doInitialization ir,
       doModulePass = (\<lambda>M st. Inr (False, st)),
       doFinalization = (\<lambda>M st. Inr (False, st)) \<rparr>"

section \<open>Joining the two maps\<close>

text \<open>The map is iterated in the order of the addresses of its types.\<close>

definition joinEntry :: "(string \<rightharpoonup> string) \<Rightarrow> ptr \<times> string \<Rightarrow> (ptr \<rightharpoonup> string) \<Rightarrow> (ptr \<rightharpoonup> string)" where
  "joinEntry names = (\<lambda>(Ty, Vname) types.
     case names Vname of Some TName \<Rightarrow> mapInsert Ty TName types | None \<Rightarrow> types)"

definition BuildTypeStructMap :: "ti_state \<Rightarrow> ti_state" where
  "BuildTypeStructMap st =
     (let types = fold (joinEntry (VnameToTypenameMap st))
                    (map (\<lambda>Ty. (Ty, the (TypeValueMap st Ty))) (sorted_list_of_set (dom (TypeValueMap st))))
                    (GlobalTypes (tiCtx st))
      in st\<lparr>tiCtx := (tiCtx st)\<lparr>GlobalTypes := types\<rparr>, tiTypeToTNameMap := types\<rparr>)"

end
