(* ===== verification/Workflow.thy ===== *)
theory Workflow
  imports SecurityChecks MissingChecksPass MissingResults CallGraph PointerAnalysis TypeInitializer
begin

text \<open>
  The main workflow of \<open>Analyzer.cc\<close>: the passes in the order of \<open>main\<close>, each over all loaded
  modules, with the global context handed from one to the next. \<open>SC\<close> and \<open>MC\<close> are the command
  line flags \<open>-sc\<close> and \<open>-mc\<close>. The set of selects is a static member, so the second run of the
  security-check pass starts with what the first one left.
\<close>

definition buildGraph :: "llvm \<Rightarrow> string option \<Rightarrow> gctx \<Rightarrow> gctx res" where
  "buildGraph ir errfile GlobalCtx =
     (let ctx = LoadStaticData errfile GlobalCtx
      in rbind (run (TypeInitializerPass ir) (Modules ctx) (newTypeInitializer ctx)) (\<lambda>ti.
         let ti = BuildTypeStructMap ti
         in rbind (run (CallGraphPass ir) (Modules ctx) (newCallGraph (tiCtx ti) (tiTypeToTNameMap ti)))
              (\<lambda>cg. Inr (cgCtx cg))))"

definition missingWorkflow :: "llvm \<Rightarrow> (string \<Rightarrow> string) \<Rightarrow> sc_state \<Rightarrow> (gctx \<times> report list) res" where
  "missingWorkflow ir files = (\<lambda>(ctx, Sel).
     rbind (run (PointerAnalysisPass ir) (Modules ctx) ctx) (\<lambda>ctx.
     rbind (run (SecurityChecksPass ir files) (Modules ctx) (ctx, Sel)) (\<lambda>(ctx, Sel).
     rbind (run (MissingChecksPass ir ctx) (Modules ctx) newMissingChecks) (\<lambda>st.
       Inr (ctx, processResults ir st)))))"

definition mainWorkflow ::
  "llvm \<Rightarrow> (string \<Rightarrow> string) \<Rightarrow> string option \<Rightarrow> bool \<Rightarrow> bool \<Rightarrow> gctx \<Rightarrow> (gctx \<times> report list) res"
where
  "mainWorkflow ir files errfile SC MC GlobalCtx =
     rbind (buildGraph ir errfile GlobalCtx) (\<lambda>ctx.
     rbind (if SC then run (SecurityChecksPass ir files) (Modules ctx) (ctx, {}) else Inr (ctx, {})) (\<lambda>(ctx, Sel).
       if MC then missingWorkflow ir files (ctx, Sel) else Inr (ctx, [])))"

text \<open>
  Loading: \<open>parseIRFile\<close> is LLVM's reader, which returns a null pointer for a file it cannot read;
  such a file is skipped.
\<close>

definition loadModule :: "(string \<Rightarrow> ptr) \<Rightarrow> string \<Rightarrow> gctx \<Rightarrow> gctx" where
  "loadModule parseIRFile file GlobalCtx =
     (let M = parseIRFile file
      in if M = NULL then GlobalCtx
         else GlobalCtx\<lparr>Modules := Modules GlobalCtx @ [M], ModuleMaps := (ModuleMaps GlobalCtx)(M \<mapsto> file)\<rparr>)"

definition analyzerMain ::
  "llvm \<Rightarrow> (string \<Rightarrow> string) \<Rightarrow> string option \<Rightarrow> (string \<Rightarrow> ptr) \<Rightarrow> bool \<Rightarrow> bool \<Rightarrow> string list \<Rightarrow>
   (gctx \<times> report list) res"
where
  "analyzerMain ir files errfile parseIRFile SC MC InputFilenames =
     mainWorkflow ir files errfile SC MC (fold (loadModule parseIRFile) InputFilenames newGlobalContext)"

end
