(* ===== verification/CallGraphTheorems.thy ===== *)
theory CallGraphTheorems
  imports CallGraph DriverTheorems "HOL-Library.Multiset"
begin

text \<open>
  The call graph: initializers are scanned completely, the multi-layer type analysis returns and
  only narrows the targets found by type, and the recorded callers and callees agree.
\<close>

section \<open>Initializers\<close>

text \<open>
  What LLVM documents of constant initializers: a composite operand is a \<open>User\<close>, and the nesting
  of composite constants is finite.
\<close>

definition nestedInitializers :: "llvm \<Rightarrow> ptr \<Rightarrow> ptr set" where
  "nestedInitializers ir U =
     {Op \<in> set (operands ir U). \<not> isa ir FunctionValue Op \<and> isCompositeType ir (typeOf ir Op)}"

definition wf_initializers :: "llvm \<Rightarrow> bool" where
  "wf_initializers ir \<longleftrightarrow> NULL \<notin> set (heap ir) \<and>
     (\<forall>U \<in> set (heap ir). nestedInitializers ir U \<subseteq> {Op \<in> set (heap ir). isa ir UserClass Op}) \<and>
     acyclic {(U, Op). U \<in> set (heap ir) \<and> Op \<in> nestedInitializers ir U}"

text \<open>The functions that the operands of \<open>U\<close> enter under the hash \<open>h\<close>.\<close>

definition slotFuncs :: "llvm \<Rightarrow> (ptr \<rightharpoonup> string) \<Rightarrow> ptr \<Rightarrow> size_t \<Rightarrow> func_set" where
  "slotFuncs ir names U h =
     {F. \<exists>i < length (operands ir U). operands ir U ! i = F \<and> isa ir FunctionValue F \<and>
         h = typeIdxHash ir names (typeOf ir U) (of_nat i)}"

text \<open>The parts of the state a type analysis leaves alone.\<close>

definition frame :: "cg_state \<Rightarrow> gctx \<times> (ptr \<rightharpoonup> string) \<times> (size_t \<Rightarrow> size_t set) \<times> size_t set" where
  "frame st = (cgCtx st, TypeToTNameMap st, typeTransitMap st, typeEscapeSet st)"

fun slotsFrom :: "llvm \<Rightarrow> (nat \<Rightarrow> size_t) \<Rightarrow> nat \<Rightarrow> ptr list \<Rightarrow> size_t \<Rightarrow> func_set" where
  "slotsFrom ir slot k [] h = {}"
| "slotsFrom ir slot k (Op # Ops) h =
     (if isa ir FunctionValue Op \<and> h = slot k then {Op} else {}) \<union> slotsFrom ir slot (Suc k) Ops h"

lemma slotsFrom_iff:
  "F \<in> slotsFrom ir slot k Ops h \<longleftrightarrow>
     (\<exists>i < length Ops. Ops ! i = F \<and> isa ir FunctionValue F \<and> h = slot (k + i))"
proof (induction Ops arbitrary: k)
  case (Cons Op Ops)
  have "(\<exists>i < length (Op # Ops). (Op # Ops) ! i = F \<and> isa ir FunctionValue F \<and> h = slot (k + i)) \<longleftrightarrow>
      (Op = F \<and> isa ir FunctionValue F \<and> h = slot k) \<or>
      (\<exists>i < length Ops. Ops ! i = F \<and> isa ir FunctionValue F \<and> h = slot (Suc k + i))"
    by (simp only: length_Cons Ex_less_Suc2 nth_Cons_0 nth_Cons_Suc add_0_right add_Suc_right add_Suc)
  then show ?case using Cons.IH [of "Suc k"] by auto
qed simp

abbreviation queued :: "llvm \<Rightarrow> ptr list \<Rightarrow> ptr list" where
  "queued ir Ops \<equiv> map (\<lambda>Op. if isa ir UserClass Op then Op else NULL)
     (filter (\<lambda>Op. \<not> isa ir FunctionValue Op \<and> isCompositeType ir (typeOf ir Op)) Ops)"

lemma confineOperand_foldM:
  "\<exists>st'. foldM (confineOperand ir U) (enumerate k Ops) (LU, st) = Inr (LU @ queued ir Ops, st') \<and>
    frame st' = frame st \<and>
    (\<forall>h. typeFuncsMap st' h = typeFuncsMap st h \<union>
       slotsFrom ir (\<lambda>n. typeIdxHash ir (TypeToTNameMap st) (typeOf ir U) (of_nat n)) k Ops h)"
proof (induction Ops arbitrary: k LU st)
  case (Cons Op Ops)
  obtain st1 where step: "confineOperand ir U (k, Op) (LU, st) = Inr (LU @ queued ir [Op], st1)"
    and f1: "frame st1 = frame st"
    and t1: "\<And>h. typeFuncsMap st1 h = typeFuncsMap st h \<union>
      (if isa ir FunctionValue Op \<and> h = typeIdxHash ir (TypeToTNameMap st) (typeOf ir U) (of_nat k) then {Op} else {})"
    by (cases "isa ir FunctionValue Op"; cases "isCompositeType ir (typeOf ir Op)")
       (simp_all add: confineOperand_def Let_def insertAt_def frame_def)
  have names: "TypeToTNameMap st1 = TypeToTNameMap st" using f1 by (simp add: frame_def)
  obtain st' where "foldM (confineOperand ir U) (enumerate (Suc k) Ops) (LU @ queued ir [Op], st1) =
      Inr ((LU @ queued ir [Op]) @ queued ir Ops, st')" and f': "frame st' = frame st1"
    and t': "\<And>h. typeFuncsMap st' h = typeFuncsMap st1 h \<union>
      slotsFrom ir (\<lambda>n. typeIdxHash ir (TypeToTNameMap st1) (typeOf ir U) (of_nat n)) (Suc k) Ops h"
    using Cons.IH [of "Suc k" "LU @ queued ir [Op]" st1] by blast
  then have "foldM (confineOperand ir U) (enumerate k (Op # Ops)) (LU, st) = Inr (LU @ queued ir (Op # Ops), st')"
    by (simp only: enumerate_simps foldM.simps step rbind.simps append_assoc) simp
  moreover have "typeFuncsMap st' h = typeFuncsMap st h \<union>
      slotsFrom ir (\<lambda>n. typeIdxHash ir (TypeToTNameMap st) (typeOf ir U) (of_nat n)) k (Op # Ops) h" for h
    by (simp only: t' t1 names slotsFrom.simps Un_assoc)
  ultimately show ?case using f' f1 by (intro exI [of _ st']) (simp only: simp_thms)
qed simp

lemma slotFuncs_eq: "slotsFrom ir (\<lambda>n. typeIdxHash ir names (typeOf ir U) (of_nat n)) 0 (operands ir U) h = slotFuncs ir names U h"
  unfolding slotFuncs_def by (rule set_eqI) (simp only: slotsFrom_iff mem_Collect_eq add_0)

text \<open>
  The queue shrinks in the multiset order: every initializer is replaced by finitely many nested
  ones.
\<close>

definition nestingOrder :: "llvm \<Rightarrow> (ptr \<times> ptr) set" where
  "nestingOrder ir = {(Op, U). U \<in> set (heap ir) \<and> Op \<in> nestedInitializers ir U}"

lemma wf_nestingOrder:
  assumes "wf_initializers ir"
  shows "wf (nestingOrder ir)"
proof (rule finite_acyclic_wf)
  have "nestingOrder ir \<subseteq> set (heap ir) \<times> set (heap ir)"
    using assms by (auto simp: nestingOrder_def wf_initializers_def)
  then show "finite (nestingOrder ir)" by (rule finite_subset) simp
  have "(nestingOrder ir)\<inverse> = {(U, Op). U \<in> set (heap ir) \<and> Op \<in> nestedInitializers ir U}"
    by (auto simp: nestingOrder_def)
  then show "acyclic (nestingOrder ir)"
    using assms acyclic_converse [of "nestingOrder ir"] by (simp add: wf_initializers_def)
qed

lemma queued_nested:
  assumes "wf_initializers ir" "U \<in> set (heap ir)"
  shows "set (queued ir (operands ir U)) = nestedInitializers ir U" "nestedInitializers ir U \<subseteq> set (heap ir)"
proof -
  have "isa ir UserClass Op" if "Op \<in> nestedInitializers ir U" for Op
    using assms that by (auto simp: wf_initializers_def)
  then show "set (queued ir (operands ir U)) = nestedInitializers ir U"
    by (force simp: nestedInitializers_def)
  show "nestedInitializers ir U \<subseteq> set (heap ir)" using assms by (auto simp: wf_initializers_def)
qed

lemma confineInitializers_run:
  assumes wf: "wf_initializers ir" and LU: "set LU \<subseteq> set (heap ir)"
  shows "\<exists>st'. repeatWhile (\<lambda>c. c) (confineInitializers ir) (LU \<noteq> []) (LU, st) = Inr ([], st') \<and>
    frame st' = frame st \<and>
    (\<forall>h. typeFuncsMap st' h = typeFuncsMap st h \<union>
       (\<Union>U \<in> reach_set (nestedInitializers ir) (set LU). slotFuncs ir (TypeToTNameMap st) U h))"
  using wf_mult [OF wf_nestingOrder [OF wf]] LU
proof (induction "mset LU" arbitrary: LU st rule: wf_induct_rule)
  case less
  show ?case
  proof (cases LU)
    case Nil
    then show ?thesis by (subst repeatWhile_unfold) (simp add: reach_set_def)
  next
    case (Cons U LU1)
    have U: "U \<in> set (heap ir)" and LU1: "set LU1 \<subseteq> set (heap ir)" using less.prems by (simp_all add: Cons)
    have null: "U \<noteq> NULL" using wf U by (metis wf_initializers_def)
    note q = queued_nested [OF wf U]
    obtain st1 where f: "foldM (confineOperand ir U) (enumerate 0 (operands ir U)) (LU1, st) =
        Inr (LU1 @ queued ir (operands ir U), st1)" and f1: "frame st1 = frame st"
      and t1: "\<And>h. typeFuncsMap st1 h = typeFuncsMap st h \<union> slotFuncs ir (TypeToTNameMap st) U h"
      using confineOperand_foldM [of ir U 0 "operands ir U" LU1 st] unfolding slotFuncs_eq by blast
    let ?LU = "LU1 @ queued ir (operands ir U)"
    have "(mset LU1 + mset (queued ir (operands ir U)), mset LU1 + {#U#}) \<in> mult (nestingOrder ir)"
      by (rule one_step_implies_mult) (use q(1) U in \<open>auto simp: nestingOrder_def\<close>)
    then have "(mset ?LU, mset LU) \<in> mult (nestingOrder ir)" by (simp add: Cons)
    from less.hyps [OF this, of st1]
    obtain st' where r: "repeatWhile (\<lambda>c. c) (confineInitializers ir) (?LU \<noteq> []) (?LU, st1) = Inr ([], st')"
      and f': "frame st' = frame st1"
      and t': "\<And>h. typeFuncsMap st' h = typeFuncsMap st1 h \<union>
        (\<Union>V \<in> reach_set (nestedInitializers ir) (set ?LU). slotFuncs ir (TypeToTNameMap st1) V h)"
      using LU1 q by auto
    have "repeatWhile (\<lambda>c. c) (confineInitializers ir) (LU \<noteq> []) (LU, st) = Inr ([], st')"
      by (subst repeatWhile_unfold) (simp only: Cons confineInitializers_def prod.case list.case f null
          rbind.simps if_False list.distinct not_False_eq_True if_True r [unfolded confineInitializers_def])
    moreover have "typeFuncsMap st' h = typeFuncsMap st h \<union>
        (\<Union>V \<in> reach_set (nestedInitializers ir) (set LU). slotFuncs ir (TypeToTNameMap st) V h)" for h
    proof -
      have "TypeToTNameMap st1 = TypeToTNameMap st" using f1 by (simp add: frame_def)
      moreover have "reach_set (nestedInitializers ir) (set LU) =
          insert U (reach_set (nestedInitializers ir) (set ?LU))"
        unfolding Cons list.set reach_set_insert set_append q(1) by (simp only: Un_commute)
      ultimately show ?thesis by (simp only: t' t1 UN_insert Un_assoc)
    qed
    ultimately show ?thesis using f' f1 by (intro exI [of _ st']) (simp only: simp_thms)
  qed
qed

lemma typeConfineInInitializer_result:
  assumes wf: "wf_initializers ir" and Ini: "Ini \<in> set (heap ir)"
  shows "\<exists>st'. typeConfineInInitializer ir Ini st = Inr (True, st') \<and> frame st' = frame st \<and>
    (\<forall>h. typeFuncsMap st' h = typeFuncsMap st h \<union>
       (\<Union>U \<in> reach_set (nestedInitializers ir) {Ini}. slotFuncs ir (TypeToTNameMap st) U h))"
  using confineInitializers_run [OF wf, of "[Ini]" st] Ini
  by (auto simp: typeConfineInInitializer_def)

section \<open>Layers of a called pointer\<close>

text \<open>
  The values the layer search moves on to. What LLVM documents: they exist, and outside
  unreachable code following operands of loads, casts and address computations never comes back
  to a value (a definition dominates its uses; without a \<open>phi\<close> there is no cycle). In unreachable
  code, where an instruction may use itself, the search of the program need not end.
\<close>

definition layerStep :: "llvm \<Rightarrow> ptr \<Rightarrow> ptr set" where
  "layerStep ir V =
     (if isa ir GEPOperator V then
        (if isCompositeType ir (elementType ir (typeOf ir (pointerOperand ir V))) \<and> allConstantIndices ir V
         then {pointerOperand ir V} else {})
      else if isa ir LoadInst V \<or> isa ir UnaryInstruction V then {operands ir V ! 0}
      else {})"

definition wf_layers :: "llvm \<Rightarrow> bool" where
  "wf_layers ir \<longleftrightarrow>
     (\<forall>V \<in> set (heap ir). layerStep ir V \<subseteq> set (heap ir) \<and>
        (isa ir LoadInst V \<or> isa ir UnaryInstruction V \<longrightarrow> operands ir V \<noteq> [])) \<and>
     acyclic {(a, b). b \<in> layerStep ir a}"

lemma layer_reach_heap: "wf_layers ir \<Longrightarrow> V \<in> set (heap ir) \<Longrightarrow> reach_set (layerStep ir) {V} \<subseteq> set (heap ir)"
  by (rule reach_set_least) (auto simp: wf_layers_def)

lemma layer_reach_finite: "wf_layers ir \<Longrightarrow> V \<in> set (heap ir) \<Longrightarrow> finite (reach_set (layerStep ir) {V})"
  by (rule finite_subset [OF layer_reach_heap]) simp_all

text \<open>A layer lies strictly below the value it was found from.\<close>

definition below :: "llvm \<Rightarrow> ptr \<Rightarrow> ptr \<Rightarrow> bool" where
  "below ir V B \<longleftrightarrow> B \<in> set (heap ir) \<and> reach_set (layerStep ir) {B} \<subset> reach_set (layerStep ir) {V}"

lemma nextLayerBaseTypeF_returns:
  assumes wf: "wf_layers ir"
  shows "V \<in> set (heap ir) \<Longrightarrow> card (reach_set (layerStep ir) {V}) \<le> n \<Longrightarrow>
    returns (nextLayerBaseTypeF ir n V) (\<lambda>layer. \<forall>B Ty Idx. layer = Some (B, Ty, Idx) \<longrightarrow> below ir V B)"
proof (induction n arbitrary: V)
  case 0
  then show ?case using reach_card_pos [OF layer_reach_finite [OF wf 0(1)]] by simp
next
  case (Suc n)
  have ac: "acyclic {(a, b). b \<in> layerStep ir a}" using wf by (simp add: wf_layers_def)
  have h: "layerStep ir V \<subseteq> set (heap ir)" using wf Suc.prems(1) by (simp add: wf_layers_def)
  have step: "below ir V B" if "B \<in> layerStep ir V" for B
    using reach_set_shrinks [OF ac that] h that by (auto simp: below_def)
  have unary: "returns (nextLayerBaseTypeF ir n (operands ir V ! 0))
      (\<lambda>layer. \<forall>B Ty Idx. layer = Some (B, Ty, Idx) \<longrightarrow> below ir V B) \<and> operands ir V \<noteq> []"
    if "\<not> isa ir GEPOperator V" "isa ir LoadInst V \<or> isa ir UnaryInstruction V"
  proof
    have o: "operands ir V ! 0 \<in> layerStep ir V" using that by (simp add: layerStep_def)
    have "card (reach_set (layerStep ir) {operands ir V ! 0}) \<le> n"
      by (rule reach_fuel_step(1) [OF ac layer_reach_finite [OF wf Suc.prems(1)] Suc.prems(2) o])
    from Suc.IH [OF subsetD [OF h o] this]
    show "returns (nextLayerBaseTypeF ir n (operands ir V ! 0))
        (\<lambda>layer. \<forall>B Ty Idx. layer = Some (B, Ty, Idx) \<longrightarrow> below ir V B)"
      using step [OF o] by (elim returns_mono) (auto simp: below_def)
    show "operands ir V \<noteq> []" using wf Suc.prems(1) that(2) by (auto simp: wf_layers_def)
  qed
  show ?case
  proof (cases "isa ir GEPOperator V")
    case True
    then show ?thesis using step by (simp add: layerStep_def Let_def)
  next
    case False
    then show ?thesis using unary [OF False] by simp
  qed
qed

lemma nextLayerBaseType_returns:
  assumes wf: "wf_layers ir" and V: "V \<in> set (heap ir)"
  shows "returns (nextLayerBaseType ir V) (\<lambda>layer. \<forall>B Ty Idx. layer = Some (B, Ty, Idx) \<longrightarrow> below ir V B)"
proof -
  have "card (reach_set (layerStep ir) {V}) \<le> search_fuel ir"
    using card_mono [OF _ layer_reach_heap [OF wf V]] by (simp add: search_fuel_def)
  then show ?thesis unfolding nextLayerBaseType_def by (rule nextLayerBaseTypeF_returns [OF wf V])
qed

section \<open>Narrowing\<close>

text \<open>One set narrows another when it is a subset and keeps a target if there was one.\<close>

definition narrows :: "func_set \<Rightarrow> func_set \<Rightarrow> bool" where
  "narrows FS FS1 \<longleftrightarrow> FS \<subseteq> FS1 \<and> (FS1 \<noteq> {} \<longrightarrow> FS \<noteq> {})"

lemma narrows_refl [simp]: "narrows FS FS"
  by (simp add: narrows_def)

lemma narrows_trans: "narrows A B \<Longrightarrow> narrows B C \<Longrightarrow> narrows A C"
  unfolding narrows_def by blast

lemma transitted_narrows:
  assumes "transitted ir st i CT (FS1, FST) = (FS1', FST')" "FST \<subseteq> FS1"
  shows "narrows FS1' FS1 \<and> FST' \<subseteq> FS1 \<and> (FST' \<subseteq> FS1' \<or> FS1' = FS1)"
proof -
  have "narrows FS1' FS1 \<and> FST' \<subseteq> FS1 \<and> (FST' \<subseteq> FS1' \<or> FS1' = FS1)"
    if "fold (\<lambda>H (FS1, FST).
         let FST = funcSetIntersection FS1 (typeFuncsMap st (hashIdxHash ir H i))
         in (if FST \<noteq> {} then FST else FS1, FST)) Hs (FS1, FST) = (FS1', FST')" "FST \<subseteq> FS1" for Hs
    using that
  proof (induction Hs arbitrary: FS1 FST)
    case (Cons H Hs)
    let ?N = "funcSetIntersection FS1 (typeFuncsMap st (hashIdxHash ir H i))"
    have N: "?N \<subseteq> FS1" by (auto simp: funcSetIntersection_def)
    have n: "narrows (if ?N \<noteq> {} then ?N else FS1) FS1" using N by (simp add: narrows_def)
    have "narrows FS1' (if ?N \<noteq> {} then ?N else FS1) \<and> FST' \<subseteq> (if ?N \<noteq> {} then ?N else FS1) \<and>
        (FST' \<subseteq> FS1' \<or> FS1' = (if ?N \<noteq> {} then ?N else FS1))"
      using Cons.prems(1) N by (intro Cons.IH [of _ ?N]) (simp_all add: Let_def)
    then show ?case using n narrows_trans N unfolding narrows_def by (auto split: if_splits)
  qed simp
  then show ?thesis using assms by (simp add: transitted_def)
qed

text \<open>One narrowing step: the intersection, unless it is empty.\<close>

definition narrow :: "func_set \<Rightarrow> func_set \<Rightarrow> func_set" where
  "narrow FS FS1 = (if FS1 \<inter> FS = {} then FS1 else FS1 \<inter> FS)"

lemma fold_narrow:
  assumes "\<And>H A B. g H (A, B) = (narrow (N H) A, A \<inter> N H)"
  shows "fst (fold g Hs (A, B)) = fold (\<lambda>H. narrow (N H)) Hs A"
    and "Hs \<noteq> [] \<Longrightarrow> snd (fold g Hs (A, B)) = {} \<or> snd (fold g Hs (A, B)) = fold (\<lambda>H. narrow (N H)) Hs A"
proof -
  show "fst (fold g Hs (A, B)) = fold (\<lambda>H. narrow (N H)) Hs A"
    by (induction Hs arbitrary: A B) (simp_all add: assms)
  show "snd (fold g Hs (A, B)) = {} \<or> snd (fold g Hs (A, B)) = fold (\<lambda>H. narrow (N H)) Hs A" if "Hs \<noteq> []"
    using that
  proof (induction Hs arbitrary: A B)
    case (Cons H Hs)
    then show ?case by (cases "Hs = []") (auto simp: assms narrow_def)
  qed simp
qed

lemma layerFuncs_result:
  "layerFuncs ir st Ty Idx FS1 =
     (let Hs = sorted_list_of_set (typeTransitMap st (take_bit 32 (typeHash ir (TypeToTNameMap st) Ty)))
      in if Hs = [] then narrow (typeFuncsMap st (typeIdxHash ir (TypeToTNameMap st) Ty Idx)) FS1
         else fold (\<lambda>H. narrow (typeFuncsMap st (hashIdxHash ir H Idx))) Hs FS1)"
proof -
  let ?g = "\<lambda>H (FS1, FST).
    let FST = funcSetIntersection FS1 (typeFuncsMap st (hashIdxHash ir H Idx)) in (if FST \<noteq> {} then FST else FS1, FST)"
  let ?N = "\<lambda>H. typeFuncsMap st (hashIdxHash ir H Idx)"
  let ?Hs = "sorted_list_of_set (typeTransitMap st (take_bit 32 (typeHash ir (TypeToTNameMap st) Ty)))"
  let ?FST = "FS1 \<inter> typeFuncsMap st (typeIdxHash ir (TypeToTNameMap st) Ty Idx)"
  have i: "funcSetIntersection A B = A \<inter> B" for A B by (auto simp: funcSetIntersection_def)
  have step: "?g H (A, B) = (narrow (?N H) A, A \<inter> ?N H)" for H A B
    by (simp add: i narrow_def Let_def)
  have k: "(ucast (ucast h :: uint32) :: size_t) = take_bit 32 h" for h :: size_t
    by (rule bit_word_eqI) (auto simp: bit_simps)
  have l: "layerFuncs ir st Ty Idx FS1 =
      (let (A, B) = fold ?g ?Hs (FS1, ?FST) in if B \<noteq> {} then B else A)"
    by (simp only: layerFuncs_def transitted_def Let_def k i)
  obtain A B where f: "fold ?g ?Hs (FS1, ?FST) = (A, B)" by fastforce
  have A: "A = fold (\<lambda>H. narrow (?N H)) ?Hs FS1" using fold_narrow(1) [of ?g, OF step, of ?Hs FS1 ?FST] unfolding f by simp
  show ?thesis
  proof (cases "?Hs = []")
    case True
    then show ?thesis unfolding l by (simp add: narrow_def)
  next
    case False
    from fold_narrow(2) [of ?g, OF step False, of FS1 ?FST] have "B = {} \<or> B = A" unfolding f A by simp
    then show ?thesis unfolding l f using False A by auto
  qed
qed

lemma layerFuncs_narrows: "narrows (layerFuncs ir st Ty i FS1) FS1"
proof -
  let ?F = "funcSetIntersection FS1 (typeFuncsMap st (typeIdxHash ir (TypeToTNameMap st) Ty i))"
  obtain A B where t: "transitted ir st i (ucast (typeHash ir (TypeToTNameMap st) Ty)) (FS1, ?F) = (A, B)"
    by (metis surj_pair)
  have "?F \<subseteq> FS1" by (auto simp: funcSetIntersection_def)
  from transitted_narrows [OF t this] show ?thesis
    by (auto simp: layerFuncs_def Let_def t narrows_def)
qed

lemma mltaLayersF_returns:
  assumes wf: "wf_layers ir"
  shows "(\<And>B Ty Idx. layer = Some (B, Ty, Idx) \<Longrightarrow> B \<in> set (heap ir) \<and> card (reach_set (layerStep ir) {B}) < n) \<Longrightarrow>
    0 < n \<Longrightarrow> returns (mltaLayersF ir st n layer FS1) (\<lambda>FS. narrows FS FS1)"
proof (induction n arbitrary: layer FS1)
  case (Suc n)
  show ?case
  proof (cases layer)
    case (Some l)
    obtain B Ty Idx where l: "layer = Some (B, Ty, Idx)" using Some by (cases l) simp
    have B: "B \<in> set (heap ir)" and c: "card (reach_set (layerStep ir) {B}) \<le> n"
      using Suc.prems(1) [OF l] by simp_all
    obtain layer' where nl: "nextLayerBaseType ir B = Inr layer'"
      and b: "\<And>B' Ty' Idx'. layer' = Some (B', Ty', Idx') \<Longrightarrow> below ir B B'"
      using nextLayerBaseType_returns [OF wf B] by (elim returnsE) blast
    have fin: "finite (reach_set (layerStep ir) {B})" by (rule layer_reach_finite [OF wf B])
    have "returns (mltaLayersF ir st n layer' (layerFuncs ir st Ty Idx FS1))
        (\<lambda>FS. narrows FS (layerFuncs ir st Ty Idx FS1))"
    proof (rule Suc.IH)
      show "0 < n" using c reach_card_pos [OF fin] by simp
      show "B' \<in> set (heap ir) \<and> card (reach_set (layerStep ir) {B'}) < n" if "layer' = Some (B', Ty', Idx')" for B' Ty' Idx'
      proof
        have "reach_set (layerStep ir) {B'} \<subset> reach_set (layerStep ir) {B}"
          using b [OF that] unfolding below_def by (rule conjunct2)
        then show "card (reach_set (layerStep ir) {B'}) < n"
          using psubset_card_mono [OF fin] c by (metis le_less_trans less_le_trans)
      qed (use b [OF that] in \<open>simp only: below_def simp_thms\<close>)
    qed
    then have "returns (mltaLayersF ir st n layer' (layerFuncs ir st Ty Idx FS1)) (\<lambda>FS. narrows FS FS1)"
      by (rule returns_mono) (rule narrows_trans [OF _ layerFuncs_narrows])
    then show ?thesis by (simp add: l nl)
  qed simp
qed simp

lemma findCalleesWithMLTA_narrows:
  assumes wf: "wf_layers ir" and V: "calledValue ir CI \<in> set (heap ir)"
  shows "returns (findCalleesWithMLTA ir st CI {}) (\<lambda>(found, FS).
    found = (sigFuncsMap (cgCtx st) (callHash ir CI) \<noteq> {}) \<and>
    narrows FS (sigFuncsMap (cgCtx st) (callHash ir CI)))"
proof (cases "sigFuncsMap (cgCtx st) (callHash ir CI) = {}")
  case False
  obtain layer where l: "nextLayerBaseType ir (calledValue ir CI) = Inr layer"
    and b: "\<And>B Ty Idx. layer = Some (B, Ty, Idx) \<Longrightarrow> below ir (calledValue ir CI) B"
    using nextLayerBaseType_returns [OF wf V] by (elim returnsE) blast
  have "returns (mltaLayersF ir st (Suc (search_fuel ir)) layer (sigFuncsMap (cgCtx st) (callHash ir CI)))
      (\<lambda>FS. narrows FS (sigFuncsMap (cgCtx st) (callHash ir CI)))"
  proof (rule mltaLayersF_returns [OF wf])
    fix B Ty Idx assume "layer = Some (B, Ty, Idx)"
    then have B: "B \<in> set (heap ir)" using b by (simp add: below_def)
    moreover have "card (reach_set (layerStep ir) {B}) \<le> card (set (heap ir))"
      by (rule card_mono [OF _ layer_reach_heap [OF wf B]]) simp
    ultimately show "B \<in> set (heap ir) \<and> card (reach_set (layerStep ir) {B}) < Suc (search_fuel ir)"
      by (simp add: search_fuel_def)
  qed simp
  then show ?thesis using False
    by (auto simp: findCalleesWithMLTA_def Let_def l elim!: returnsE)
qed (simp add: findCalleesWithMLTA_def)

section \<open>Well-formed modules\<close>

definition wf_graph :: "llvm \<Rightarrow> bool" where
  "wf_graph ir \<longleftrightarrow> wf_initializers ir \<and> wf_layers ir \<and>
     (\<forall>I \<in> set (heap ir). (isa ir StoreInst I \<longrightarrow> pointerOperand ir I \<in> set (heap ir)) \<and>
        (isa ir CastInst I \<longrightarrow> operands ir I \<noteq> []) \<and>
        (isa ir CallInst I \<longrightarrow> calledValue ir I \<in> set (heap ir))) \<and>
     (\<forall>S. finite S \<longrightarrow> set (smallSetOrder ir S) = S)"

lemma wf_graphD:
  assumes "wf_graph ir"
  shows "wf_initializers ir" "wf_layers ir" "finite S \<Longrightarrow> set (smallSetOrder ir S) = S"
    and "I \<in> set (heap ir) \<Longrightarrow> isa ir StoreInst I \<Longrightarrow> pointerOperand ir I \<in> set (heap ir)"
    and "I \<in> set (heap ir) \<Longrightarrow> isa ir CastInst I \<Longrightarrow> operands ir I \<noteq> []"
    and "I \<in> set (heap ir) \<Longrightarrow> isa ir CallInst I \<Longrightarrow> calledValue ir I \<in> set (heap ir)"
  using assms unfolding wf_graph_def by blast+

definition wf_module :: "llvm \<Rightarrow> ptr \<Rightarrow> bool" where
  "wf_module ir M \<longleftrightarrow>
     (\<forall>GV \<in> set (moduleGlobals ir M). hasInitializer ir GV \<and> isa ir ConstantAggregate (initializer ir GV) \<longrightarrow>
        initializer ir GV \<in> set (heap ir)) \<and>
     (\<forall>F \<in> set (moduleFunctions ir M). F \<noteq> NULL \<and> set (instructions ir F) \<subseteq> set (heap ir))"

section \<open>Type analysis leaves the context alone\<close>

lemma typeConfineInStore_returns:
  assumes "wf_graph ir" "SI \<in> set (heap ir)" "isa ir StoreInst SI"
  shows "returns (typeConfineInStore ir SI st) (\<lambda>(b, st'). cgCtx st' = cgCtx st)"
proof -
  obtain layer where l: "nextLayerBaseType ir (pointerOperand ir SI) = Inr layer"
    using nextLayerBaseType_returns [OF wf_graphD(2) [OF assms(1)] wf_graphD(4) [OF assms]] by (elim returnsE)
  show ?thesis
    by (cases layer) (auto simp: typeConfineInStore_def Let_def l escapeType_def)
qed

lemma typeConfineInCast_returns:
  assumes "operands ir I \<noteq> []"
  shows "returns (typeConfineInCast ir I st) (\<lambda>(b, st'). cgCtx st' = cgCtx st)"
  using assms by (simp add: typeConfineInCast_def Let_def transitType_def)

lemma confineInst_returns:
  assumes "wf_graph ir" "I \<in> set (heap ir)"
  shows "returns (confineInst ir I st) (\<lambda>st'. cgCtx st' = cgCtx st)"
proof -
  have "returns (rbind (typeConfineInStore ir I st) (\<lambda>(b, st). Inr st)) (\<lambda>st'. cgCtx st' = cgCtx st)"
    if "isa ir StoreInst I"
    by (rule returns_rbind [OF typeConfineInStore_returns [OF assms that]]) auto
  moreover have "returns (rbind (typeConfineInCast ir I st) (\<lambda>(b, st). Inr st)) (\<lambda>st'. cgCtx st' = cgCtx st)"
    if "isa ir CastInst I"
    by (rule returns_rbind [OF typeConfineInCast_returns [OF wf_graphD(5) [OF assms that]]]) auto
  ultimately show ?thesis by (simp add: confineInst_def)
qed

lemma initGlobal_returns:
  assumes "wf_graph ir"
    and "hasInitializer ir GV \<and> isa ir ConstantAggregate (initializer ir GV) \<longrightarrow> initializer ir GV \<in> set (heap ir)"
  shows "returns (initGlobal ir GV st) (\<lambda>st'. cgCtx st' = cgCtx st)"
proof (cases "hasInitializer ir GV \<and> isa ir ConstantAggregate (initializer ir GV)")
  case True
  obtain st' where "typeConfineInInitializer ir (initializer ir GV) st = Inr (True, st')" "frame st' = frame st"
    using typeConfineInInitializer_result [OF wf_graphD(1) [OF assms(1)]] assms(2) True by blast
  then show ?thesis using True by (simp add: initGlobal_def frame_def)
qed (auto simp: initGlobal_def)

text \<open>The context without the fields of the call graph: what the pass does not touch.\<close>

definition outsideGraph :: "gctx \<Rightarrow> gctx" where
  "outsideGraph ctx = ctx\<lparr>GlobalFuncs := Map.empty, AddressTakenFuncs := {}, Callees := (\<lambda>_. {}),
     Callers := (\<lambda>_. {}), IndirectCallInsts := [], UnifiedFuncMap := Map.empty, UnifiedFuncSet := {},
     sigFuncsMap := (\<lambda>_. {})\<rparr>"

section \<open>Unified functions\<close>

text \<open>
  Every hash has at most one unified function. \<open>operator[]\<close> on a hash without one enters a null
  pointer, so the map may hold null pointers once calls are resolved (\<open>unresolved\<close>).
\<close>

definition unified_ok :: "llvm \<Rightarrow> gctx \<Rightarrow> bool" where
  "unified_ok ir ctx \<longleftrightarrow> NULL \<notin> UnifiedFuncSet ctx \<and>
     (\<forall>F \<in> UnifiedFuncSet ctx. UnifiedFuncMap ctx (funcHash ir F True) = Some F) \<and>
     (\<forall>h F. UnifiedFuncMap ctx h = Some F \<longrightarrow> F \<noteq> NULL \<longrightarrow> F \<in> UnifiedFuncSet ctx \<and> funcHash ir F True = h)"

lemma unified_okD:
  assumes "unified_ok ir ctx"
  shows "F \<in> UnifiedFuncSet ctx \<Longrightarrow> F \<noteq> NULL"
    and "F \<in> UnifiedFuncSet ctx \<Longrightarrow> UnifiedFuncMap ctx (funcHash ir F True) = Some F"
    and "UnifiedFuncMap ctx h = Some F \<Longrightarrow> F \<noteq> NULL \<Longrightarrow> F \<in> UnifiedFuncSet ctx"
    and "UnifiedFuncMap ctx h = Some F \<Longrightarrow> F \<noteq> NULL \<Longrightarrow> funcHash ir F True = h"
proof -
  have "NULL \<notin> UnifiedFuncSet ctx" using assms unfolding unified_ok_def by (elim conjE)
  then show "F \<in> UnifiedFuncSet ctx \<Longrightarrow> F \<noteq> NULL" by metis
qed (use assms in \<open>auto simp: unified_ok_def\<close>)

lemma unified_ok_Callees: "unified_ok ir (ctx\<lparr>Callees := C\<rparr>) = unified_ok ir ctx"
  by (simp add: unified_ok_def)

definition unresolved :: "gctx \<Rightarrow> bool" where
  "unresolved ctx \<longleftrightarrow> (\<forall>h. UnifiedFuncMap ctx h \<noteq> Some NULL)"

text \<open>What initialization does to the context for one function with a body.\<close>

abbreviation enterFunction :: "llvm \<Rightarrow> ptr \<Rightarrow> gctx \<Rightarrow> gctx" where
  "enterFunction ir F ctx \<equiv> unify ir F (nameGlobal ir F (takeAddress ir F ctx))"

lemma enterFunction_fields:
  "UnifiedFuncMap (enterFunction ir F ctx) =
    (if UnifiedFuncMap ctx (funcHash ir F True) = None
     then (UnifiedFuncMap ctx)(funcHash ir F True \<mapsto> F) else UnifiedFuncMap ctx)"
  "UnifiedFuncSet (enterFunction ir F ctx) =
    (if UnifiedFuncMap ctx (funcHash ir F True) = None then insert F (UnifiedFuncSet ctx) else UnifiedFuncSet ctx)"
  "Callers (enterFunction ir F ctx) = Callers ctx" "Callees (enterFunction ir F ctx) = Callees ctx"
  "\<forall>h. finite (sigFuncsMap ctx h) \<Longrightarrow> finite (sigFuncsMap (enterFunction ir F ctx) h)"
  "sigFuncsMap (enterFunction ir F ctx) h =
    sigFuncsMap ctx h \<union> (if hasAddressTaken ir F \<and> funcHash ir F False = h then {F} else {})"
  "outsideGraph (enterFunction ir F ctx) = outsideGraph ctx"
  by (cases "UnifiedFuncMap ctx (funcHash ir F True)";
      auto simp: unify_def nameGlobal_def takeAddress_def Let_def insertAt_def outsideGraph_def)+

lemma enterFunction_ok:
  assumes ok: "unified_ok ir ctx" and un: "unresolved ctx" and F: "F \<noteq> NULL"
  shows "unified_ok ir (enterFunction ir F ctx)" "unresolved (enterFunction ir F ctx)"
    and "\<exists>U \<in> UnifiedFuncSet (enterFunction ir F ctx). funcHash ir U True = funcHash ir F True"
proof -
  let ?c = "enterFunction ir F ctx" and ?h = "funcHash ir F True"
  have "unified_ok ir ?c \<and> unresolved ?c \<and> (\<exists>U \<in> UnifiedFuncSet ?c. funcHash ir U True = ?h)"
  proof (cases "UnifiedFuncMap ctx ?h")
    case None
    have "G \<in> UnifiedFuncSet ctx \<Longrightarrow> funcHash ir G True \<noteq> ?h" for G
      using unified_okD(2) [OF ok, of G] None by auto
    then show ?thesis using ok un F None by (auto simp: unified_ok_def unresolved_def enterFunction_fields)
  next
    case (Some U)
    then have "U \<noteq> NULL" using un unfolding unresolved_def by metis
    with unified_okD(3,4) [OF ok Some]
    have "\<exists>U \<in> UnifiedFuncSet ctx. funcHash ir U True = ?h" by blast
    then show ?thesis using ok un by (simp add: unified_ok_def unresolved_def enterFunction_fields Some)
  qed
  then show "unified_ok ir ?c" "unresolved ?c" "\<exists>U \<in> UnifiedFuncSet ?c. funcHash ir U True = ?h" by simp_all
qed

lemma initFunction_returns:
  assumes "wf_graph ir" "set (instructions ir F) \<subseteq> set (heap ir)"
  shows "returns (initFunction ir F st) (\<lambda>st'. cgCtx st' =
    (if isDeclaration ir F then cgCtx st else enterFunction ir F (cgCtx st)))"
proof (cases "isDeclaration ir F")
  case False
  have "returns (foldM (confineInst ir) (instructions ir F) st) (\<lambda>st'. cgCtx st' = cgCtx st)"
  proof (rule returns_foldM)
    fix I and s :: cg_state
    assume "I \<in> set (instructions ir F)" and s: "cgCtx s = cgCtx st"
    then have "I \<in> set (heap ir)" using assms(2) by blast
    from confineInst_returns [OF assms(1) this, of s] show "returns (confineInst ir I s) (\<lambda>st'. cgCtx st' = cgCtx st)"
      by (simp only: s)
  qed simp
  then show ?thesis using False by (auto simp: initFunction_def elim!: returnsE)
qed (simp add: initFunction_def)

text \<open>
  The functions an indirect call of a type can reach: the address-taken ones with a body whose
  type has the hash of that type.
\<close>

definition typeCandidates :: "llvm \<Rightarrow> ptr set \<Rightarrow> size_t \<Rightarrow> func_set" where
  "typeCandidates ir Fs h = {F \<in> Fs. \<not> isDeclaration ir F \<and> hasAddressTaken ir F \<and> funcHash ir F False = h}"

text \<open>
  The context after the functions \<open>Fs\<close> were initialized: the unified functions are among them,
  every one with a body has a unified copy, the functions entered under a type hash are the
  candidates of that type, no call is resolved yet, and the rest of the context is that of \<open>base\<close>.
\<close>

definition initialized :: "llvm \<Rightarrow> gctx \<Rightarrow> ptr set \<Rightarrow> gctx \<Rightarrow> bool" where
  "initialized ir base Fs ctx \<longleftrightarrow> unified_ok ir ctx \<and> unresolved ctx \<and>
     UnifiedFuncSet ctx \<subseteq> {F \<in> Fs. \<not> isDeclaration ir F} \<and>
     (\<forall>F \<in> Fs. \<not> isDeclaration ir F \<longrightarrow> (\<exists>U \<in> UnifiedFuncSet ctx. funcHash ir U True = funcHash ir F True)) \<and>
     Callers ctx = (\<lambda>_. {}) \<and> Callees ctx = (\<lambda>_. {}) \<and>
     (\<forall>h. finite (sigFuncsMap ctx h) \<and> sigFuncsMap ctx h = typeCandidates ir Fs h) \<and> outsideGraph ctx = outsideGraph base"

lemma initialized_step:
  assumes s: "initialized ir base Fs ctx" and F: "F \<noteq> NULL"
  shows "initialized ir base (insert F Fs) (if isDeclaration ir F then ctx else enterFunction ir F ctx)"
proof (cases "isDeclaration ir F")
  case False
  let ?c = "enterFunction ir F ctx"
  have ok: "unified_ok ir ctx" "unresolved ctx" using s by (simp_all add: initialized_def)
  have "\<exists>U \<in> UnifiedFuncSet ?c. funcHash ir U True = funcHash ir G True"
    if G: "G \<in> insert F Fs" "\<not> isDeclaration ir G" for G
  proof (cases "G = F")
    case False
    then obtain U where "U \<in> UnifiedFuncSet ctx" "funcHash ir U True = funcHash ir G True"
      using s G unfolding initialized_def by blast
    then show ?thesis by (auto simp: enterFunction_fields)
  qed (simp only: enterFunction_ok(3) [OF ok F])
  moreover have "UnifiedFuncSet ?c \<subseteq> {G \<in> insert F Fs. \<not> isDeclaration ir G}"
    using s False by (auto simp: initialized_def enterFunction_fields)
  moreover have "\<forall>h. finite (sigFuncsMap ?c h) \<and> sigFuncsMap ?c h = typeCandidates ir (insert F Fs) h"
  proof
    fix h
    have "finite (sigFuncsMap ctx h)" using s unfolding initialized_def by blast
    then have "finite (sigFuncsMap ?c h)" by (simp add: enterFunction_fields(6))
    moreover have "sigFuncsMap ctx h = typeCandidates ir Fs h" using s by (simp add: initialized_def)
    ultimately show "finite (sigFuncsMap ?c h) \<and> sigFuncsMap ?c h = typeCandidates ir (insert F Fs) h"
      using False by (auto simp: enterFunction_fields(6) typeCandidates_def)
  qed
  moreover have "Callers ?c = (\<lambda>_. {})" "Callees ?c = (\<lambda>_. {})" "outsideGraph ?c = outsideGraph base"
    using s by (simp_all add: initialized_def enterFunction_fields)
  ultimately show ?thesis
    using enterFunction_ok(1,2) [OF ok F] unfolding initialized_def if_not_P [OF False] by (intro conjI) blast+
next
  case True
  then have "typeCandidates ir (insert F Fs) h = typeCandidates ir Fs h" for h by (auto simp: typeCandidates_def)
  with s True show ?thesis unfolding initialized_def if_P [OF True] by (intro conjI) (blast | simp)+
qed

definition initModule :: "llvm \<Rightarrow> ptr \<Rightarrow> cg_state \<Rightarrow> cg_state res" where
  "initModule ir M st = rbind (foldM (initGlobal ir) (moduleGlobals ir M) st) (foldM (initFunction ir) (moduleFunctions ir M))"

lemma initModule_returns:
  assumes "wf_graph ir" "wf_module ir M" "initialized ir base Fs (cgCtx st)"
  shows "returns (initModule ir M st) (\<lambda>st'. initialized ir base (Fs \<union> set (moduleFunctions ir M)) (cgCtx st'))"
proof -
  have g: "returns (foldM (initGlobal ir) (moduleGlobals ir M) st) (\<lambda>st'. cgCtx st' = cgCtx st)"
  proof (rule returns_foldM)
    fix GV and s :: cg_state
    assume GV: "GV \<in> set (moduleGlobals ir M)" and s: "cgCtx s = cgCtx st"
    have "returns (initGlobal ir GV s) (\<lambda>st'. cgCtx st' = cgCtx s)"
      by (rule initGlobal_returns [OF assms(1)]) (use assms(2) GV in \<open>simp add: wf_module_def\<close>)
    then show "returns (initGlobal ir GV s) (\<lambda>st'. cgCtx st' = cgCtx st)" by (simp only: s)
  qed simp
  obtain st1 where st1: "foldM (initGlobal ir) (moduleGlobals ir M) st = Inr st1" "cgCtx st1 = cgCtx st"
    using g by (elim returnsE)
  have "returns (foldM (initFunction ir) (moduleFunctions ir M) st1)
      (\<lambda>st'. initialized ir base (Fs \<union> set (moduleFunctions ir M)) (cgCtx st'))"
  proof (rule returns_foldM_seen [where Q = "\<lambda>S s. initialized ir base (Fs \<union> S) (cgCtx s)"])
    show "initialized ir base (Fs \<union> {}) (cgCtx st1)" using assms(3) by (simp add: st1)
  next
    fix Gs F Hs and s :: cg_state
    assume M: "moduleFunctions ir M = Gs @ F # Hs" and s: "initialized ir base (Fs \<union> set Gs) (cgCtx s)"
    have F: "F \<in> set (moduleFunctions ir M)" by (simp add: M)
    then have "set (instructions ir F) \<subseteq> set (heap ir)" "F \<noteq> NULL" using assms(2) unfolding wf_module_def by metis+
    from initFunction_returns [OF assms(1) this(1)]
    show "returns (initFunction ir F s) (\<lambda>st'. initialized ir base (Fs \<union> insert F (set Gs)) (cgCtx st'))"
    proof (rule returns_mono)
      fix st' assume c: "cgCtx st' = (if isDeclaration ir F then cgCtx s else enterFunction ir F (cgCtx s))"
      show "initialized ir base (Fs \<union> insert F (set Gs)) (cgCtx st')"
        unfolding c Un_insert_right by (rule initialized_step [OF s \<open>F \<noteq> NULL\<close>])
    qed
  qed
  then show ?thesis by (simp add: initModule_def st1(1))
qed

section \<open>Direct calls\<close>

text \<open>The function a direct call names: for one without a body the definition of that name.\<close>

definition namedTarget :: "llvm \<Rightarrow> gctx \<Rightarrow> ptr \<Rightarrow> ptr" where
  "namedTarget ir ctx CF =
     (if blocks ir CF \<noteq> [] then CF
      else case GlobalFuncs ctx (syscallName (nameOf ir CF)) of
             Some GF \<Rightarrow> if GF \<noteq> NULL then GF else CF | None \<Rightarrow> CF)"

lemma externalTarget_eq:
  "\<exists>G. externalTarget ir CF ctx = (namedTarget ir ctx CF, ctx\<lparr>GlobalFuncs := G\<rparr>) \<and>
     (\<forall>n. G n = GlobalFuncs ctx n \<or> GlobalFuncs ctx n = None \<and> G n = Some NULL)"
proof -
  have same: "ctx = ctx\<lparr>GlobalFuncs := GlobalFuncs ctx\<rparr>" by simp
  show ?thesis
  proof (cases "blocks ir CF \<noteq> [] \<or> GlobalFuncs ctx (syscallName (nameOf ir CF)) \<noteq> None")
    case True
    then have "externalTarget ir CF ctx = (namedTarget ir ctx CF, ctx)"
      by (auto simp: externalTarget_def namedTarget_def Let_def)
    then show ?thesis using same by (intro exI [of _ "GlobalFuncs ctx"]) simp
  next
    case False
    then have "externalTarget ir CF ctx =
        (namedTarget ir ctx CF, ctx\<lparr>GlobalFuncs := (GlobalFuncs ctx)(syscallName (nameOf ir CF) \<mapsto> NULL)\<rparr>)"
      by (simp add: externalTarget_def namedTarget_def Let_def)
    moreover have "\<forall>n. ((GlobalFuncs ctx)(syscallName (nameOf ir CF) \<mapsto> NULL)) n = GlobalFuncs ctx n \<or>
        GlobalFuncs ctx n = None \<and> ((GlobalFuncs ctx)(syscallName (nameOf ir CF) \<mapsto> NULL)) n = Some NULL"
      using False by simp
    ultimately show ?thesis by blast
  qed
qed

lemma namedTarget_cong:
  assumes "\<forall>n. G n = GlobalFuncs ctx n \<or> GlobalFuncs ctx n = None \<and> G n = Some NULL" "GlobalFuncs ctx' = G"
  shows "namedTarget ir ctx' = namedTarget ir ctx"
proof
  fix CF
  show "namedTarget ir ctx' CF = namedTarget ir ctx CF"
    using spec [OF assms(1), of "syscallName (nameOf ir CF)"] by (auto simp: namedTarget_def assms(2))
qed

lemma unifiedTarget_eq:
  assumes ok: "unified_ok ir ctx"
  shows "\<exists>T U. unifiedTarget ir CF ctx = (T, ctx\<lparr>UnifiedFuncMap := U\<rparr>) \<and>
    unified_ok ir (ctx\<lparr>UnifiedFuncMap := U\<rparr>) \<and>
    (if T = NULL then {} else {T}) = {U \<in> UnifiedFuncSet ctx. funcHash ir U True = funcHash ir CF True}"
proof (cases "UnifiedFuncMap ctx (funcHash ir CF True)")
  case None
  then have n: "funcHash ir U True \<noteq> funcHash ir CF True" if "U \<in> UnifiedFuncSet ctx" for U
    using unified_okD(2) [OF ok that] by auto
  have "unified_ok ir (ctx\<lparr>UnifiedFuncMap := (UnifiedFuncMap ctx)(funcHash ir CF True \<mapsto> NULL)\<rparr>)"
    using ok n by (auto simp: unified_ok_def)
  moreover have "unifiedTarget ir CF ctx = (NULL, ctx\<lparr>UnifiedFuncMap := (UnifiedFuncMap ctx)(funcHash ir CF True \<mapsto> NULL)\<rparr>)"
    by (simp add: unifiedTarget_def None Let_def)
  moreover have "(if NULL = NULL then {} else {NULL}) = {U \<in> UnifiedFuncSet ctx. funcHash ir U True = funcHash ir CF True}"
    using n by simp
  ultimately show ?thesis by blast
next
  case (Some T)
  have r: "unifiedTarget ir CF ctx = (T, ctx\<lparr>UnifiedFuncMap := UnifiedFuncMap ctx\<rparr>)"
    by (simp add: unifiedTarget_def Some)
  have ok': "unified_ok ir (ctx\<lparr>UnifiedFuncMap := UnifiedFuncMap ctx\<rparr>)" using ok by simp
  have one: "U = T" if "U \<in> UnifiedFuncSet ctx" "funcHash ir U True = funcHash ir CF True" for U
    using unified_okD(2) [OF ok that(1)] that(2) Some by simp
  have "(if T = NULL then {} else {T}) = {U \<in> UnifiedFuncSet ctx. funcHash ir U True = funcHash ir CF True}"
  proof (cases "T = NULL")
    case True
    then have "\<not> (U \<in> UnifiedFuncSet ctx \<and> funcHash ir U True = funcHash ir CF True)" for U
      using one unified_okD(1) [OF ok] by blast
    then show ?thesis using True by simp
  next
    case False
    have "{T} = {U \<in> UnifiedFuncSet ctx. funcHash ir U True = funcHash ir CF True}"
      using one unified_okD(3,4) [OF ok Some False] by blast
    then show ?thesis by (simp only: False if_False)
  qed
  with r ok' show ?thesis by blast
qed

text \<open>The unified functions a direct call resolves to.\<close>

definition directTargets :: "llvm \<Rightarrow> gctx \<Rightarrow> ptr \<Rightarrow> func_set" where
  "directTargets ir ctx CI =
     (if calledFunction ir CI = NULL then {}
      else {U \<in> UnifiedFuncSet ctx.
        funcHash ir U True = funcHash ir (namedTarget ir ctx (calledFunction ir CI)) True})"

section \<open>Recording the targets of a call\<close>

text \<open>
  One call is recorded: its targets learn of the call; names and unified functions are looked up
  with the same results as before.
\<close>

definition records :: "llvm \<Rightarrow> ptr \<Rightarrow> func_set \<Rightarrow> gctx \<Rightarrow> gctx \<Rightarrow> bool" where
  "records ir CI FS ctx ctx' \<longleftrightarrow>
     (\<forall>F. Callers ctx' F = (if F \<in> FS then insert CI (Callers ctx F) else Callers ctx F)) \<and>
     Callees ctx' = Callees ctx \<and> sigFuncsMap ctx' = sigFuncsMap ctx \<and>
     UnifiedFuncSet ctx' = UnifiedFuncSet ctx \<and> unified_ok ir ctx' \<and> namedTarget ir ctx' = namedTarget ir ctx \<and>
     outsideGraph ctx' = outsideGraph ctx"

lemma fold_addCaller:
  "Callers (fold (addCaller CI) Fs ctx) F = (if F \<in> set Fs then insert CI (Callers ctx F) else Callers ctx F)"
  "Callees (fold (addCaller CI) Fs ctx) = Callees ctx"
  "sigFuncsMap (fold (addCaller CI) Fs ctx) = sigFuncsMap ctx"
  "UnifiedFuncSet (fold (addCaller CI) Fs ctx) = UnifiedFuncSet ctx"
  "UnifiedFuncMap (fold (addCaller CI) Fs ctx) = UnifiedFuncMap ctx"
  "GlobalFuncs (fold (addCaller CI) Fs ctx) = GlobalFuncs ctx"
  "outsideGraph (fold (addCaller CI) Fs ctx) = outsideGraph ctx"
  by (induction Fs arbitrary: ctx) (simp_all add: addCaller_def insertAt_def outsideGraph_def)

lemma directCall_records:
  assumes ok: "unified_ok ir ctx"
  shows "\<exists>ctx'. directCall ir CI ctx = (directTargets ir ctx CI, ctx') \<and> records ir CI (directTargets ir ctx CI) ctx ctx'"
proof (cases "calledFunction ir CI = NULL")
  case True
  then show ?thesis using ok by (auto simp: directCall_def directTargets_def records_def)
next
  case False
  let ?T = "namedTarget ir ctx (calledFunction ir CI)"
  obtain G where e: "externalTarget ir (calledFunction ir CI) ctx = (?T, ctx\<lparr>GlobalFuncs := G\<rparr>)"
    and G: "\<forall>n. G n = GlobalFuncs ctx n \<or> GlobalFuncs ctx n = None \<and> G n = Some NULL"
    using externalTarget_eq by blast
  have ok1: "unified_ok ir (ctx\<lparr>GlobalFuncs := G\<rparr>)" using ok by (simp add: unified_ok_def)
  obtain T U where u: "unifiedTarget ir ?T (ctx\<lparr>GlobalFuncs := G\<rparr>) = (T, ctx\<lparr>GlobalFuncs := G, UnifiedFuncMap := U\<rparr>)"
    and ok2: "unified_ok ir (ctx\<lparr>GlobalFuncs := G, UnifiedFuncMap := U\<rparr>)"
    and T: "(if T = NULL then {} else {T}) = directTargets ir ctx CI"
    using unifiedTarget_eq [OF ok1, of ?T] False unfolding directTargets_def by auto
  let ?c = "ctx\<lparr>GlobalFuncs := G, UnifiedFuncMap := U\<rparr>"
  let ?c' = "if T = NULL then ?c else addCaller CI T ?c"
  have "directCall ir CI ctx = (directTargets ir ctx CI, ?c')"
    unfolding T [symmetric] using False by (simp add: directCall_def e u Let_def)
  moreover have "namedTarget ir ?c' = namedTarget ir ctx"
    by (rule namedTarget_cong [OF G]) (simp add: addCaller_def)
  then have "records ir CI (directTargets ir ctx CI) ctx ?c'"
    unfolding T [symmetric] records_def using ok2 by (auto simp: addCaller_def insertAt_def unified_ok_def outsideGraph_def)
  ultimately show ?thesis by blast
qed

lemma indirectCall_records:
  assumes "wf_graph ir" "unified_ok ir (cgCtx st)" "\<forall>h. finite (sigFuncsMap (cgCtx st) h)"
    and "CI \<in> set (heap ir)" "isa ir CallInst CI"
  shows "\<exists>found FS ctx'. findCalleesWithMLTA ir st CI {} = Inr (found, FS) \<and>
    narrows FS (sigFuncsMap (cgCtx st) (callHash ir CI)) \<and>
    indirectCall ir CI st = Inr (FS, ctx') \<and> records ir CI FS (cgCtx st) ctx'"
proof -
  from findCalleesWithMLTA_narrows [OF wf_graphD(2) [OF assms(1)] wf_graphD(6) [OF assms(1,4,5)], of st]
  obtain found FS where m: "findCalleesWithMLTA ir st CI {} = Inr (found, FS)"
    and n: "narrows FS (sigFuncsMap (cgCtx st) (callHash ir CI))"
    by (elim returnsE2 conjE)
  have "finite FS" using n assms(3) by (auto simp: narrows_def intro: finite_subset)
  note FS = wf_graphD(3) [OF assms(1) this]
  let ?c = "fold (addCaller CI) (smallSetOrder ir FS) (cgCtx st)"
  let ?c' = "?c\<lparr>IndirectCallInsts := IndirectCallInsts ?c @ [CI]\<rparr>"
  have "namedTarget ir ?c' = namedTarget ir (cgCtx st)"
    by (simp add: fun_eq_iff namedTarget_def fold_addCaller)
  moreover have "unified_ok ir ?c'" using assms(2) by (simp add: unified_ok_def fold_addCaller)
  moreover have "outsideGraph ?c' = outsideGraph (cgCtx st)"
    using fold_addCaller(7) [of CI "smallSetOrder ir FS" "cgCtx st"] by (simp add: outsideGraph_def)
  ultimately have "records ir CI FS (cgCtx st) ?c'" by (simp add: records_def fold_addCaller FS)
  moreover have "indirectCall ir CI st = Inr (FS, ?c')" by (simp add: indirectCall_def m Let_def)
  ultimately show ?thesis using m n by blast
qed

end
