(* ===== verification/CallGraphRun.thy ===== *)
theory CallGraphRun
  imports CallGraphTheorems
begin

text \<open>
  The call graph pass under the driver: every module is initialized, then every call of the
  unified functions is resolved. The resulting maps are exact: the callees of a call are its
  targets, and the callers of a function are the calls that have it as a callee.
\<close>

section \<open>The targets of a call do not depend on the calls resolved before\<close>

definition targets :: "llvm \<Rightarrow> cg_state \<Rightarrow> ptr \<Rightarrow> func_set" where
  "targets ir st CI =
     (if isIndirectCall ir CI
      then (case findCalleesWithMLTA ir st CI {} of Inr (found, FS) \<Rightarrow> FS | Inl e \<Rightarrow> {})
      else directTargets ir (cgCtx st) CI)"

definition same_lookups :: "llvm \<Rightarrow> cg_state \<Rightarrow> cg_state \<Rightarrow> bool" where
  "same_lookups ir st0 st \<longleftrightarrow> st = st0\<lparr>cgCtx := cgCtx st\<rparr> \<and>
     sigFuncsMap (cgCtx st) = sigFuncsMap (cgCtx st0) \<and> UnifiedFuncSet (cgCtx st) = UnifiedFuncSet (cgCtx st0) \<and>
     namedTarget ir (cgCtx st) = namedTarget ir (cgCtx st0) \<and> outsideGraph (cgCtx st) = outsideGraph (cgCtx st0)"

lemma mltaLayersF_ctx: "mltaLayersF ir (st\<lparr>cgCtx := c\<rparr>) n layer FS1 = mltaLayersF ir st n layer FS1"
proof (induction n arbitrary: layer FS1)
  case (Suc n)
  have "hasEscaped ir (st\<lparr>cgCtx := c\<rparr>) = hasEscaped ir st" "layerFuncs ir (st\<lparr>cgCtx := c\<rparr>) = layerFuncs ir st"
    by (simp_all add: fun_eq_iff hasEscaped_def layerFuncs_def transitted_def)
  then show ?case by (simp only: mltaLayersF.simps Suc.IH)
qed simp

lemma same_lookups_targets:
  assumes "same_lookups ir st0 st"
  shows "findCalleesWithMLTA ir st CI FS = findCalleesWithMLTA ir st0 CI FS"
    and "targets ir st = targets ir st0"
proof -
  have s: "st = st0\<lparr>cgCtx := cgCtx st\<rparr>" and f: "sigFuncsMap (cgCtx st) = sigFuncsMap (cgCtx st0)"
    "UnifiedFuncSet (cgCtx st) = UnifiedFuncSet (cgCtx st0)" "namedTarget ir (cgCtx st) = namedTarget ir (cgCtx st0)"
    using assms unfolding same_lookups_def by simp_all
  have m: "findCalleesWithMLTA ir st CI FS = findCalleesWithMLTA ir st0 CI FS" for CI FS
    using mltaLayersF_ctx [where st = st0 and c = "cgCtx st"] unfolding s [symmetric]
    by (simp only: findCalleesWithMLTA_def Let_def f)
  then show "findCalleesWithMLTA ir st CI FS = findCalleesWithMLTA ir st0 CI FS" .
  show "targets ir st = targets ir st0"
    by (simp add: fun_eq_iff targets_def m directTargets_def f)
qed

section \<open>Resolving the calls\<close>

text \<open>
  The state after the instructions \<open>S\<close> were resolved from \<open>st0\<close>.
\<close>

definition resolved :: "llvm \<Rightarrow> cg_state \<Rightarrow> ptr set \<Rightarrow> cg_state \<Rightarrow> bool" where
  "resolved ir st0 S st \<longleftrightarrow> same_lookups ir st0 st \<and> unified_ok ir (cgCtx st) \<and>
     (\<forall>CI F. CI \<in> Callers (cgCtx st) F \<longleftrightarrow> F \<in> Callees (cgCtx st) CI) \<and>
     (\<forall>CI. Callees (cgCtx st) CI = (if CI \<in> S \<and> isa ir CallInst CI then targets ir st0 CI else {}))"

lemma callees_step:
  assumes "\<forall>I. C I = (if I \<in> S \<and> P I then T I else {})" "P CI" "FS = T CI"
  shows "\<forall>I. (C(CI := FS)) I = (if I \<in> insert CI S \<and> P I then T I else {})"
  using assms by simp

lemma callers_step:
  assumes "\<forall>I F. I \<in> R F \<longleftrightarrow> F \<in> C I" "\<forall>F. R' F = (if F \<in> FS then insert CI (R F) else R F)" "C CI \<subseteq> FS"
  shows "\<forall>I F. I \<in> R' F \<longleftrightarrow> F \<in> (C(CI := FS)) I"
  using assms by auto

lemma record_step:
  assumes st: "resolved ir st0 S st" and CI: "isa ir CallInst CI"
    and FS: "FS = targets ir st0 CI" and r: "records ir CI FS (cgCtx st) ctx'"
  shows "resolved ir st0 (insert CI S) (st\<lparr>cgCtx := ctx'\<lparr>Callees := (Callees ctx')(CI := FS)\<rparr>\<rparr>)"
    (is "resolved ir st0 _ ?st")
proof -
  note s = st [unfolded resolved_def] and r = r [unfolded records_def]
  have c: "Callees ctx' = Callees (cgCtx st)" using r by blast
  have "same_lookups ir st0 ?st"
  proof -
    have "st = st0\<lparr>cgCtx := cgCtx st\<rparr>" using s unfolding same_lookups_def by blast
    then have "?st = st0\<lparr>cgCtx := cgCtx ?st\<rparr>" by (cases st, cases st0) simp
    moreover have "namedTarget ir (ctx'\<lparr>Callees := (Callees ctx')(CI := FS)\<rparr>) = namedTarget ir ctx'"
      by (simp add: fun_eq_iff namedTarget_def)
    moreover have "outsideGraph (ctx'\<lparr>Callees := (Callees ctx')(CI := FS)\<rparr>) = outsideGraph ctx'"
      by (simp add: outsideGraph_def)
    ultimately show ?thesis using s r unfolding same_lookups_def by simp
  qed
  moreover have "unified_ok ir (cgCtx ?st)" using r by (simp add: unified_ok_Callees)
  moreover have "\<forall>I. Callees (cgCtx ?st) I = (if I \<in> insert CI S \<and> isa ir CallInst I then targets ir st0 I else {})"
    using callees_step [of "Callees (cgCtx st)" S "isa ir CallInst" "targets ir st0" CI FS] s CI FS
    by (simp add: c)
  moreover have "\<forall>I F. I \<in> Callers (cgCtx ?st) F \<longleftrightarrow> F \<in> Callees (cgCtx ?st) I"
  proof -
    have "Callees (cgCtx st) CI \<subseteq> FS" using s FS by simp
    then show ?thesis
      using callers_step [of "Callers (cgCtx st)" "Callees (cgCtx st)" "Callers ctx'" FS CI] s r by (simp add: c)
  qed
  ultimately show ?thesis unfolding resolved_def by blast
qed

lemma resolveCall_step:
  assumes wf: "wf_graph ir" "CI \<in> set (heap ir)" and fin: "\<forall>h. finite (sigFuncsMap (cgCtx st0) h)"
    and st: "resolved ir st0 S st"
  shows "returns (resolveCall ir CI st) (resolved ir st0 (insert CI S))"
proof (cases "isa ir CallInst CI")
  case False
  have "resolved ir st0 (insert CI S) st" using st False unfolding resolved_def by (auto split: if_splits)
  then show ?thesis using False by (simp add: resolveCall_def)
next
  case True
  have l: "same_lookups ir st0 st" and ok: "unified_ok ir (cgCtx st)" using st unfolding resolved_def by blast+
  have fin': "\<forall>h. finite (sigFuncsMap (cgCtx st) h)" using l fin by (simp add: same_lookups_def)
  obtain FS ctx' where
    r: "(if isIndirectCall ir CI then indirectCall ir CI st else Inr (directCall ir CI (cgCtx st))) = Inr (FS, ctx')"
    and c: "records ir CI FS (cgCtx st) ctx'" and FS: "FS = targets ir st CI"
  proof (cases "isIndirectCall ir CI")
    case True
    from indirectCall_records [OF wf(1) ok fin' wf(2) \<open>isa ir CallInst CI\<close>]
    obtain found FS ctx' where "findCalleesWithMLTA ir st CI {} = Inr (found, FS)"
      "indirectCall ir CI st = Inr (FS, ctx')" "records ir CI FS (cgCtx st) ctx'" by blast
    then show ?thesis by (intro that [of FS ctx']) (simp_all add: targets_def True)
  next
    case False
    obtain ctx' where "directCall ir CI (cgCtx st) = (directTargets ir (cgCtx st) CI, ctx')"
      "records ir CI (directTargets ir (cgCtx st) CI) (cgCtx st) ctx'"
      using directCall_records [OF ok] by blast
    then show ?thesis by (intro that [of "directTargets ir (cgCtx st) CI" ctx']) (simp_all add: targets_def False)
  qed
  have "resolveCall ir CI st = Inr (st\<lparr>cgCtx := ctx'\<lparr>Callees := (Callees ctx')(CI := FS)\<rparr>\<rparr>)"
    by (simp only: resolveCall_def True r rbind.simps prod.case if_False not_True_eq_False)
  moreover have "FS = targets ir st0 CI" using FS same_lookups_targets(2) [OF l] by simp
  ultimately show ?thesis using record_step [OF st True _ c] by simp
qed

section \<open>The run of the pass\<close>

definition resolveModule :: "llvm \<Rightarrow> ptr \<Rightarrow> cg_state \<Rightarrow> cg_state res" where
  "resolveModule ir M = foldM (\<lambda>F st. if F \<notin> UnifiedFuncSet (cgCtx st) then Inr st
     else foldM (resolveCall ir) (instructions ir F) st) (moduleFunctions ir M)"

text \<open>The instructions whose calls are resolved.\<close>

definition resolvedInsts :: "llvm \<Rightarrow> ptr set \<Rightarrow> ptr \<Rightarrow> ptr set" where
  "resolvedInsts ir U M = (\<Union>F \<in> set (moduleFunctions ir M) \<inter> U. set (instructions ir F))"

lemma resolveFunction_step:
  assumes wf: "wf_graph ir" "set (instructions ir F) \<subseteq> set (heap ir)"
    and fin: "\<forall>h. finite (sigFuncsMap (cgCtx st0) h)" and st: "resolved ir st0 S st"
  shows "returns (foldM (resolveCall ir) (instructions ir F) st) (resolved ir st0 (S \<union> set (instructions ir F)))"
proof (rule returns_foldM_seen [where Q = "\<lambda>T. resolved ir st0 (S \<union> T)"])
  fix Is CI Js and s :: cg_state
  assume F: "instructions ir F = Is @ CI # Js" and s: "resolved ir st0 (S \<union> set Is) s"
  have "CI \<in> set (heap ir)" using wf(2) by (simp add: F)
  from resolveCall_step [OF wf(1) this fin s]
  show "returns (resolveCall ir CI s) (resolved ir st0 (S \<union> insert CI (set Is)))" by simp
qed (use st in simp)

lemma resolveModule_step:
  assumes wf: "wf_graph ir" "wf_module ir M" and fin: "\<forall>h. finite (sigFuncsMap (cgCtx st0) h)"
    and st: "resolved ir st0 S st"
  shows "returns (resolveModule ir M st) (resolved ir st0 (S \<union> resolvedInsts ir (UnifiedFuncSet (cgCtx st0)) M))"
proof -
  let ?U = "UnifiedFuncSet (cgCtx st0)"
  let ?I = "\<lambda>Fs. \<Union>F \<in> Fs \<inter> ?U. set (instructions ir F)"
  have "returns (resolveModule ir M st) (resolved ir st0 (S \<union> ?I (set (moduleFunctions ir M))))"
    unfolding resolveModule_def
  proof (rule returns_foldM_seen [where Q = "\<lambda>Fs. resolved ir st0 (S \<union> ?I Fs)"])
    fix Fs F Gs and s :: cg_state
    assume M: "moduleFunctions ir M = Fs @ F # Gs" and s: "resolved ir st0 (S \<union> ?I (set Fs)) s"
    have i: "set (instructions ir F) \<subseteq> set (heap ir)" using wf(2) by (simp add: wf_module_def M)
    have U: "UnifiedFuncSet (cgCtx s) = ?U" using s by (simp add: resolved_def same_lookups_def)
    show "returns (if F \<notin> UnifiedFuncSet (cgCtx s) then Inr s else foldM (resolveCall ir) (instructions ir F) s)
        (resolved ir st0 (S \<union> ?I (insert F (set Fs))))"
    proof (cases "F \<in> ?U")
      case True
      then have "S \<union> ?I (insert F (set Fs)) = S \<union> ?I (set Fs) \<union> set (instructions ir F)" by auto
      then show ?thesis using resolveFunction_step [OF wf(1) i fin s] True by (simp only: U simp_thms if_False not_True_eq_False)
    qed (use s in \<open>simp add: U\<close>)
  qed (use st in simp)
  then show ?thesis by (simp only: resolvedInsts_def)
qed

lemma CallGraph_run_stages:
  "run (CallGraphPass ir) Ms st = rbind (foldM (initModule ir) Ms st) (foldM (resolveModule ir) Ms)"
proof -
  have "CallGraph_doInitialization ir = once (initModule ir)"
    by (intro ext) (simp add: CallGraph_doInitialization_def initModule_def rbind_assoc)
  moreover have "CallGraph_doModulePass ir = once (resolveModule ir)"
    by (intro ext) (simp only: CallGraph_doModulePass_def resolveModule_def)
  ultimately show ?thesis
    by (subst run_once [where i = "initModule ir" and m = "resolveModule ir" and f = "\<lambda>M. Inr"])
       (simp_all add: CallGraphPass_def)
qed

theorem CallGraph_run:
  assumes wf: "wf_graph ir" "\<forall>M \<in> set Ms. wf_module ir M" and ctx: "initialized ir ctx {} ctx"
  shows "returns (run (CallGraphPass ir) Ms (newCallGraph ctx names)) (\<lambda>st. \<exists>st0.
    initialized ir ctx (\<Union>M \<in> set Ms. set (moduleFunctions ir M)) (cgCtx st0) \<and>
    resolved ir st0 (\<Union>M \<in> set Ms. resolvedInsts ir (UnifiedFuncSet (cgCtx st0)) M) st)"
proof -
  have "returns (foldM (initModule ir) Ms (newCallGraph ctx names))
      (\<lambda>st. initialized ir ctx (\<Union>M \<in> set Ms. set (moduleFunctions ir M)) (cgCtx st))"
  proof (rule returns_foldM_seen [where Q = "\<lambda>Ms st. initialized ir ctx (\<Union>M \<in> Ms. set (moduleFunctions ir M)) (cgCtx st)"])
    fix Ns M Ks and s :: cg_state
    assume "Ms = Ns @ M # Ks" and s: "initialized ir ctx (\<Union>M \<in> set Ns. set (moduleFunctions ir M)) (cgCtx s)"
    then have "wf_module ir M" using wf(2) by simp
    from initModule_returns [OF wf(1) this s]
    show "returns (initModule ir M s) (\<lambda>st. initialized ir ctx (\<Union>M \<in> insert M (set Ns). set (moduleFunctions ir M)) (cgCtx st))"
      by (simp only: UN_insert Un_commute)
  qed (use ctx in \<open>simp add: newCallGraph_def\<close>)
  then obtain st0 where i: "foldM (initModule ir) Ms (newCallGraph ctx names) = Inr st0"
    and st0: "initialized ir ctx (\<Union>M \<in> set Ms. set (moduleFunctions ir M)) (cgCtx st0)" by (elim returnsE)
  have fin: "\<forall>h. finite (sigFuncsMap (cgCtx st0) h)" using st0 unfolding initialized_def by blast
  have "returns (foldM (resolveModule ir) Ms st0)
      (resolved ir st0 (\<Union>M \<in> set Ms. resolvedInsts ir (UnifiedFuncSet (cgCtx st0)) M))"
  proof (rule returns_foldM_seen [where Q = "\<lambda>Ms. resolved ir st0 (\<Union>M \<in> Ms. resolvedInsts ir (UnifiedFuncSet (cgCtx st0)) M)"])
    fix Ns M Ks and s :: cg_state
    assume "Ms = Ns @ M # Ks"
      and s: "resolved ir st0 (\<Union>M \<in> set Ns. resolvedInsts ir (UnifiedFuncSet (cgCtx st0)) M) s"
    then have "wf_module ir M" using wf(2) by simp
    from resolveModule_step [OF wf(1) this fin s]
    show "returns (resolveModule ir M s)
        (resolved ir st0 (\<Union>M \<in> insert M (set Ns). resolvedInsts ir (UnifiedFuncSet (cgCtx st0)) M))"
      by (simp only: UN_insert Un_commute)
  next
    show "resolved ir st0 (\<Union>M \<in> {}. resolvedInsts ir (UnifiedFuncSet (cgCtx st0)) M) st0"
      using st0 by (simp add: resolved_def same_lookups_def initialized_def)
  qed
  then show ?thesis
    unfolding CallGraph_run_stages i rbind.simps by (rule returns_mono) (use st0 in blast)
qed

section \<open>The call graph\<close>

text \<open>All functions of the modules, and the instructions of those that were kept as unified copies.\<close>

definition allFunctions :: "llvm \<Rightarrow> ptr list \<Rightarrow> ptr set" where
  "allFunctions ir Ms = (\<Union>M \<in> set Ms. set (moduleFunctions ir M))"

definition unifiedInsts :: "llvm \<Rightarrow> ptr list \<Rightarrow> gctx \<Rightarrow> ptr set" where
  "unifiedInsts ir Ms ctx = (\<Union>F \<in> allFunctions ir Ms \<inter> UnifiedFuncSet ctx. set (instructions ir F))"

lemma resolved_graph:
  assumes i: "initialized ir base (allFunctions ir Ms) (cgCtx st0)"
    and r: "resolved ir st0 (\<Union>M \<in> set Ms. resolvedInsts ir (UnifiedFuncSet (cgCtx st0)) M) st"
  shows "\<forall>F \<in> allFunctions ir Ms. \<not> isDeclaration ir F \<longrightarrow>
      (\<exists>!U. U \<in> UnifiedFuncSet (cgCtx st) \<and> funcHash ir U True = funcHash ir F True)"
    and "UnifiedFuncSet (cgCtx st) \<subseteq> {F \<in> allFunctions ir Ms. \<not> isDeclaration ir F}"
    and "\<forall>CI F. CI \<in> Callers (cgCtx st) F \<longleftrightarrow> F \<in> Callees (cgCtx st) CI"
    and "\<forall>CI. Callees (cgCtx st) CI =
      (if CI \<in> unifiedInsts ir Ms (cgCtx st) \<and> isa ir CallInst CI then targets ir st CI else {})"
    and "outsideGraph (cgCtx st) = outsideGraph base"
    and "\<forall>h. sigFuncsMap (cgCtx st) h = typeCandidates ir (allFunctions ir Ms) h"
proof -
  have l: "same_lookups ir st0 st" and ok: "unified_ok ir (cgCtx st)" using r unfolding resolved_def by blast+
  have U: "UnifiedFuncSet (cgCtx st) = UnifiedFuncSet (cgCtx st0)" and g: "sigFuncsMap (cgCtx st) = sigFuncsMap (cgCtx st0)"
    and o: "outsideGraph (cgCtx st) = outsideGraph (cgCtx st0)"
    using l unfolding same_lookups_def by simp_all
  have one: "U1 = U2" if "U1 \<in> UnifiedFuncSet (cgCtx st)" "U2 \<in> UnifiedFuncSet (cgCtx st)"
    "funcHash ir U1 True = h" "funcHash ir U2 True = h" for U1 U2 h
    using unified_okD(2) [OF ok that(1)] unified_okD(2) [OF ok that(2)] that(3,4) by simp
  show "\<forall>F \<in> allFunctions ir Ms. \<not> isDeclaration ir F \<longrightarrow>
      (\<exists>!U. U \<in> UnifiedFuncSet (cgCtx st) \<and> funcHash ir U True = funcHash ir F True)"
  proof (intro ballI impI)
    fix F assume "F \<in> allFunctions ir Ms" "\<not> isDeclaration ir F"
    then obtain U1 where "U1 \<in> UnifiedFuncSet (cgCtx st)" "funcHash ir U1 True = funcHash ir F True"
      using i unfolding initialized_def U by blast
    then show "\<exists>!U. U \<in> UnifiedFuncSet (cgCtx st) \<and> funcHash ir U True = funcHash ir F True"
      using one by (intro ex1I [of _ U1]) blast+
  qed
  show "UnifiedFuncSet (cgCtx st) \<subseteq> {F \<in> allFunctions ir Ms. \<not> isDeclaration ir F}"
    using i unfolding initialized_def U by blast
  show "\<forall>CI F. CI \<in> Callers (cgCtx st) F \<longleftrightarrow> F \<in> Callees (cgCtx st) CI" using r unfolding resolved_def by blast
  have "(\<Union>M \<in> set Ms. resolvedInsts ir (UnifiedFuncSet (cgCtx st0)) M) = unifiedInsts ir Ms (cgCtx st)"
    unfolding U unifiedInsts_def resolvedInsts_def allFunctions_def by blast
  then show "\<forall>CI. Callees (cgCtx st) CI =
      (if CI \<in> unifiedInsts ir Ms (cgCtx st) \<and> isa ir CallInst CI then targets ir st CI else {})"
    using r unfolding resolved_def same_lookups_targets(2) [OF l] by simp
  show "outsideGraph (cgCtx st) = outsideGraph base" using i o by (simp add: initialized_def)
  show "\<forall>h. sigFuncsMap (cgCtx st) h = typeCandidates ir (allFunctions ir Ms) h" using i by (simp add: g initialized_def)
qed

text \<open>The targets of an indirect call are chosen among the functions of its type.\<close>

lemma targets_narrow:
  assumes "wf_graph ir" "CI \<in> set (heap ir)" "isa ir CallInst CI" "isIndirectCall ir CI"
  shows "narrows (targets ir st CI) (sigFuncsMap (cgCtx st) (callHash ir CI))"
  using findCalleesWithMLTA_narrows [OF wf_graphD(2) [OF assms(1)] wf_graphD(6) [OF assms(1-3)], of st] assms(4)
  by (auto simp: targets_def elim!: returnsE)

lemma unifiedInsts_heap:
  assumes "\<forall>M \<in> set Ms. wf_module ir M"
  shows "unifiedInsts ir Ms ctx \<subseteq> set (heap ir)"
  using assms unfolding unifiedInsts_def allFunctions_def wf_module_def by blast

lemma targets_functions:
  assumes "wf_graph ir" "CI \<in> set (heap ir)" "isa ir CallInst CI"
    and "\<forall>h. sigFuncsMap (cgCtx st) h = typeCandidates ir Fs h" "UnifiedFuncSet (cgCtx st) \<subseteq> Fs"
  shows "targets ir st CI \<subseteq> Fs"
    and "isIndirectCall ir CI \<Longrightarrow> targets ir st CI \<subseteq> typeCandidates ir Fs (callHash ir CI)"
proof -
  show i: "targets ir st CI \<subseteq> typeCandidates ir Fs (callHash ir CI)" if "isIndirectCall ir CI"
    using targets_narrow [OF assms(1-3) that, of st] assms(4) unfolding narrows_def by simp
  moreover have "targets ir st CI \<subseteq> Fs" if "\<not> isIndirectCall ir CI"
    using that assms(5) by (auto simp: targets_def directTargets_def)
  moreover have "typeCandidates ir Fs (callHash ir CI) \<subseteq> Fs" by (auto simp: typeCandidates_def)
  ultimately show "targets ir st CI \<subseteq> Fs" by blast
qed

end
