(* ===== verification/PointerTheorems.thy ===== *)
theory PointerTheorems
  imports PointerAnalysis
begin

text \<open>
  The pointer analysis: the search for the source of a pointer follows a function of the pointer
  and returns its last value; the alias map of a function holds exactly the pairs the queries
  allow; the pass stores that map for every function with a body.
\<close>

section \<open>Sources of pointers\<close>

text \<open>The pointer a pointer is derived from by one instruction, if the search moves on to it.\<close>

definition pointerBase :: "llvm \<Rightarrow> ptr \<Rightarrow> ptr option" where
  "pointerBase ir P =
     (if isPointerSource ir P then None
      else if isa ir UnaryInstruction P then
        (if isPointerTy ir (typeOf ir (operands ir P ! 0)) \<and> isa ir Instruction (operands ir P ! 0)
         then Some (operands ir P ! 0) else None)
      else if isa ir GetElementPtrInst P then Some (pointerOperand ir P)
      else None)"

abbreviation derivation :: "llvm \<Rightarrow> (ptr \<times> ptr) set" where
  "derivation ir \<equiv> {(P, Q). pointerBase ir P = Some Q}"

text \<open>
  What LLVM documents: the operands exist, and outside unreachable code no pointer is derived
  from itself without a \<open>phi\<close>.
\<close>

definition wf_pointers :: "llvm \<Rightarrow> bool" where
  "wf_pointers ir \<longleftrightarrow>
     (\<forall>P \<in> set (heap ir). (isa ir UnaryInstruction P \<longrightarrow> operands ir P \<noteq> []) \<and>
        (\<forall>Q. pointerBase ir P = Some Q \<longrightarrow> Q \<in> set (heap ir))) \<and>
     acyclic (derivation ir)"

lemma wf_pointersD:
  assumes "wf_pointers ir" "P \<in> set (heap ir)"
  shows "isa ir UnaryInstruction P \<Longrightarrow> operands ir P \<noteq> []" "pointerBase ir P = Some Q \<Longrightarrow> Q \<in> set (heap ir)"
  using assms by (auto simp: wf_pointers_def)

lemma sourcePointerStep_base:
  assumes "isa ir UnaryInstruction P \<longrightarrow> operands ir P \<noteq> []"
  shows "sourcePointerStep ir ([P], P) =
    (case pointerBase ir P of Some Q \<Rightarrow> Inr (True, [Q], Q) | None \<Rightarrow> Inr (False, [], P))"
  using assms by (cases "operands ir P") (simp_all add: sourcePointerStep_def pointerBase_def)

lemma getSourcePointer_unfold:
  assumes "isa ir UnaryInstruction P \<longrightarrow> operands ir P \<noteq> []"
  shows "getSourcePointer ir P = (case pointerBase ir P of Some Q \<Rightarrow> getSourcePointer ir Q | None \<Rightarrow> Inr P)"
proof (cases "pointerBase ir P")
  case None
  then show ?thesis
    unfolding getSourcePointer_def
    by (subst repeatWhile_unfold, subst sourcePointerStep_base [OF assms]) (simp, subst repeatWhile_unfold, simp)
next
  case (Some Q)
  then show ?thesis
    unfolding getSourcePointer_def
    by (subst repeatWhile_unfold, subst sourcePointerStep_base [OF assms]) simp
qed

lemma wf_derivation:
  assumes "wf_pointers ir"
  shows "wf {(Q, P). P \<in> set (heap ir) \<and> pointerBase ir P = Some Q}" (is "wf ?R")
proof (rule finite_acyclic_wf)
  have "?R \<subseteq> set (heap ir) \<times> set (heap ir)" using wf_pointersD(2) [OF assms] by auto
  then show "finite ?R" by (rule finite_subset) simp
  have "acyclic (derivation ir)" using assms by (simp add: wf_pointers_def)
  then have "acyclic ((derivation ir)\<inverse>)" by simp
  then show "acyclic ?R" by (rule acyclic_subset) auto
qed

lemma getSourcePointer_end:
  assumes wf: "wf_pointers ir" and P: "P \<in> set (heap ir)"
  shows "\<exists>S. getSourcePointer ir P = Inr S \<and> (P, S) \<in> (derivation ir)\<^sup>* \<and> pointerBase ir S = None"
  using wf_derivation [OF wf] P
proof (induction P rule: wf_induct_rule)
  case (less P)
  note u = getSourcePointer_unfold [of ir P, OF impI [OF wf_pointersD(1) [OF wf less.prems]]]
  show ?case
  proof (cases "pointerBase ir P")
    case (Some Q)
    then have "(Q, P) \<in> {(Q, P). P \<in> set (heap ir) \<and> pointerBase ir P = Some Q}" using less.prems by simp
    from less.IH [OF this wf_pointersD(2) [OF wf less.prems Some]]
    obtain S where "getSourcePointer ir Q = Inr S" "(Q, S) \<in> (derivation ir)\<^sup>*" "pointerBase ir S = None"
      by (elim exE conjE)
    then show ?thesis using Some by (auto simp: u intro: converse_rtrancl_into_rtrancl)
  qed (simp add: u)
qed

section \<open>The alias map of a function\<close>

definition addresses :: "llvm \<Rightarrow> ptr \<Rightarrow> ptr set" where
  "addresses ir F = (\<Union>I \<in> set (instructions ir F).
     if isa ir LoadInst I \<or> isa ir StoreInst I then {pointerOperand ir I}
     else if isa ir CallInst I then {Arg \<in> set (argOperands ir I). isPointerTy ir (typeOf ir Arg)}
     else {})"

text \<open>The verdict on two addresses.\<close>

definition aliases :: "llvm \<Rightarrow> ptr \<Rightarrow> ptr \<Rightarrow> bool" where
  "aliases ir A B \<longleftrightarrow>
     (case aliasQuery ir A B of
        MustAlias \<Rightarrow> True | PartialAlias \<Rightarrow> True | NoAlias \<Rightarrow> False
      | MayAlias \<Rightarrow> getSourcePointer ir A = getSourcePointer ir B)"

definition aliasSet :: "llvm \<Rightarrow> ptr \<Rightarrow> ptr \<Rightarrow> ptr set" where
  "aliasSet ir F A = {B \<in> addresses ir F. B \<noteq> A \<and> aliases ir A B}"

definition aliasMap :: "llvm \<Rightarrow> ptr \<Rightarrow> ptr \<rightharpoonup> ptr set" where
  "aliasMap ir F A =
     (if card (addresses ir F) \<le> 1000 \<and> A \<in> addresses ir F \<and> aliasSet ir F A \<noteq> {}
      then Some (aliasSet ir F A) else None)"

lemma fold_pointerArgs:
  "fold (\<lambda>Arg S. if \<not> isPointerTy ir (typeOf ir Arg) then S else insert Arg S) Args S =
     S \<union> {Arg \<in> set Args. isPointerTy ir (typeOf ir Arg)}"
  by (induction Args arbitrary: S) auto

lemma fold_collectAddress:
  "fold (collectAddress ir) Is S = S \<union> (\<Union>I \<in> set Is.
     if isa ir LoadInst I \<or> isa ir StoreInst I then {pointerOperand ir I}
     else if isa ir CallInst I then {Arg \<in> set (argOperands ir I). isPointerTy ir (typeOf ir Arg)}
     else {})"
proof (induction Is arbitrary: S)
  case (Cons I Is)
  have "collectAddress ir I S = S \<union>
     (if isa ir LoadInst I \<or> isa ir StoreInst I then {pointerOperand ir I}
      else if isa ir CallInst I then {Arg \<in> set (argOperands ir I). isPointerTy ir (typeOf ir Arg)}
      else {})"
    by (simp add: collectAddress_def fold_pointerArgs)
  then show ?case by (simp only: fold_simps Cons.IH UN_insert list.set Un_assoc)
qed simp

lemma collected_addresses: "fold (collectAddress ir) (instructions ir F) {} = addresses ir F"
  by (simp only: fold_collectAddress addresses_def Un_empty_left)

lemma finite_addresses: "finite (addresses ir F)"
  by (auto simp: addresses_def intro: finite_subset [OF _ finite_set])

definition wf_addresses :: "llvm \<Rightarrow> ptr \<Rightarrow> bool" where
  "wf_addresses ir F \<longleftrightarrow> addresses ir F \<subseteq> set (heap ir)"

lemma notAliased_result:
  assumes "wf_pointers ir" "A \<in> set (heap ir)" "B \<in> set (heap ir)"
  shows "notAliased ir A B = Inr (\<not> aliases ir A B)"
proof -
  obtain S T where "getSourcePointer ir A = Inr S" "getSourcePointer ir B = Inr T"
    using getSourcePointer_end [OF assms(1)] assms(2,3) by metis
  then show ?thesis by (simp add: notAliased_def aliases_def split: alias_result.splits)
qed

text \<open>Adding a set of aliases to an entry.\<close>

definition withAliases :: "ptr \<Rightarrow> ptr set \<Rightarrow> (ptr \<rightharpoonup> ptr set) \<Rightarrow> (ptr \<rightharpoonup> ptr set)" where
  "withAliases A S m = (if S = {} then m else m(A \<mapsto> (case m A of None \<Rightarrow> {} | Some T \<Rightarrow> T) \<union> S))"

lemma addAlias_with: "addAlias A B m = withAliases A {B} m"
  by (cases "m A") (simp_all add: addAlias_def withAliases_def)

lemma withAliases_Un: "withAliases A S (withAliases A T m) = withAliases A (T \<union> S) m"
  by (simp add: withAliases_def Un_assoc)

lemma aliasPair_run:
  assumes "wf_pointers ir" "A \<in> set (heap ir)" "set Bs \<subseteq> set (heap ir)"
  shows "foldM (aliasPair ir A) Bs m = Inr (withAliases A {B \<in> set Bs. B \<noteq> A \<and> aliases ir A B} m)"
  using assms(3)
proof (induction Bs arbitrary: m)
  case Nil
  then show ?case by (simp add: withAliases_def)
next
  case (Cons B Bs)
  have "aliasPair ir A B m = Inr (withAliases A (if B \<noteq> A \<and> aliases ir A B then {B} else {}) m)"
    using notAliased_result [OF assms(1,2), of B] Cons.prems
    by (auto simp: aliasPair_def addAlias_with) (auto simp: withAliases_def)
  moreover have "(if B \<noteq> A \<and> aliases ir A B then {B} else {}) \<union> {B \<in> set Bs. B \<noteq> A \<and> aliases ir A B} =
      {C \<in> set (B # Bs). C \<noteq> A \<and> aliases ir A C}" by auto
  moreover have "set Bs \<subseteq> set (heap ir)" using Cons.prems by simp
  ultimately show ?case by (simp only: foldM.simps rbind.simps Cons.IH withAliases_Un)
qed

lemma detectAliasPointers_result:
  assumes "wf_pointers ir" "wf_addresses ir F"
  shows "detectAliasPointers ir F Map.empty = Inr (aliasMap ir F)"
proof (cases "card (addresses ir F) > 1000")
  case True
  then have "aliasMap ir F = Map.empty" by (simp add: aliasMap_def fun_eq_iff)
  then show ?thesis using True by (simp add: detectAliasPointers_def collected_addresses)
next
  case False
  let ?xs = "sorted_list_of_set (addresses ir F)"
  have X: "set ?xs = addresses ir F" "distinct ?xs" by (simp_all add: finite_addresses)
  have "foldM (\<lambda>A. foldM (aliasPair ir A) ?xs) As Map.empty =
      Inr (\<lambda>A. if A \<in> set As \<and> aliasSet ir F A \<noteq> {} then Some (aliasSet ir F A) else None)"
    if "set As \<subseteq> addresses ir F" "distinct As" for As
    using that
  proof (induction As rule: rev_induct)
    case (snoc A As)
    have "A \<in> set (heap ir)" "set ?xs \<subseteq> set (heap ir)"
      using snoc.prems(1) assms(2) X by (auto simp: wf_addresses_def)
    from aliasPair_run [OF assms(1) this] have r: "foldM (aliasPair ir A) ?xs m = Inr (withAliases A (aliasSet ir F A) m)" for m
      by (simp only: aliasSet_def X(1))
    show ?case
      using snoc by (auto simp: foldM_append r withAliases_def fun_eq_iff)
  qed simp
  from this [of ?xs] show ?thesis
    using False by (simp add: detectAliasPointers_def collected_addresses X aliasMap_def fun_eq_iff)
qed

section \<open>The pass\<close>

definition wf_aliasing :: "llvm \<Rightarrow> ptr list \<Rightarrow> bool" where
  "wf_aliasing ir Ms \<longleftrightarrow> wf_pointers ir \<and>
     (\<forall>M \<in> set Ms. \<forall>F \<in> set (moduleFunctions ir M). wf_addresses ir F)"

definition aliasMapsOver :: "llvm \<Rightarrow> ptr set \<Rightarrow> (ptr \<Rightarrow> ptr \<rightharpoonup> ptr set) \<Rightarrow> ptr \<Rightarrow> ptr \<rightharpoonup> ptr set" where
  "aliasMapsOver ir Fs PA = (\<lambda>F. if F \<in> Fs \<and> blocks ir F \<noteq> [] then aliasMap ir F else PA F)"

definition withAliasMaps :: "llvm \<Rightarrow> ptr set \<Rightarrow> gctx \<Rightarrow> gctx" where
  "withAliasMaps ir Fs ctx = ctx\<lparr>FuncPAResults := aliasMapsOver ir Fs (FuncPAResults ctx)\<rparr>"

text \<open>The handle of a module, for functions of it.\<close>

definition withHandles :: "llvm \<Rightarrow> ptr \<Rightarrow> ptr set \<Rightarrow> gctx \<Rightarrow> gctx" where
  "withHandles ir M Fs ctx = ctx\<lparr>FuncAAResults :=
     (\<lambda>F. if F \<in> Fs \<and> blocks ir F \<noteq> [] then Some (aliasResults ir M) else FuncAAResults ctx F)\<rparr>"

lemma aliasMapsOver_simps:
  "aliasMapsOver ir {} PA = PA"
  "aliasMapsOver ir Fs (aliasMapsOver ir Gs PA) = aliasMapsOver ir (Gs \<union> Fs) PA"
  "aliasMapsOver ir {F} PA = (if blocks ir F = [] then PA else PA(F := aliasMap ir F))"
  by (auto simp: aliasMapsOver_def fun_eq_iff)

lemma withAliasMaps_simps:
  "withAliasMaps ir {} ctx = ctx"
  "withAliasMaps ir Fs (withAliasMaps ir Gs ctx) = withAliasMaps ir (Gs \<union> Fs) ctx"
  by (simp_all add: withAliasMaps_def aliasMapsOver_simps)

lemma withHandles_simps:
  "withHandles ir M {} ctx = ctx"
  "withHandles ir M Fs (withHandles ir M Gs ctx) = withHandles ir M (Gs \<union> Fs) ctx"
  "withHandles ir M Fs (withAliasMaps ir Gs ctx) = withAliasMaps ir Gs (withHandles ir M Fs ctx)"
proof -
  have "(\<lambda>F. if F \<in> Fs \<and> blocks ir F \<noteq> [] then x else if F \<in> Gs \<and> blocks ir F \<noteq> [] then x else AA F) =
      (\<lambda>F. if F \<in> Gs \<union> Fs \<and> blocks ir F \<noteq> [] then x else AA F)" for x :: "ptr option" and AA
    by auto
  then show "withHandles ir M Fs (withHandles ir M Gs ctx) = withHandles ir M (Gs \<union> Fs) ctx"
    by (simp add: withHandles_def cong: if_cong)
qed (simp_all add: withHandles_def withAliasMaps_def cong: if_cong)

lemma aliasFunction_result:
  assumes "wf_pointers ir" "wf_addresses ir F"
  shows "aliasFunction ir M F ctx = Inr (withAliasMaps ir {F} (withHandles ir M {F} ctx))"
  by (simp add: aliasFunction_def withAliasMaps_def withHandles_def detectAliasPointers_result [OF assms] aliasMapsOver_simps)
     (auto simp: fun_eq_iff)

text \<open>A loop whose steps add to a set that determines the state.\<close>

lemma foldM_collect:
  assumes "\<And>x s. x \<in> set xs \<Longrightarrow> f x s = Inr (g (h x) s)"
    and "\<And>A B s. g A (g B s) = g (B \<union> A) s" and "\<And>s. g {} s = s"
  shows "foldM f xs s = Inr (g (\<Union>x \<in> set xs. h x) s)"
  using assms(1) by (induction xs arbitrary: s) (simp_all add: assms(2,3))

lemma aliasFunctions_result:
  assumes "wf_pointers ir" "\<And>F. F \<in> set Fs \<Longrightarrow> wf_addresses ir F"
  shows "foldM (aliasFunction ir M) Fs ctx = Inr (withAliasMaps ir (set Fs) (withHandles ir M (set Fs) ctx))"
  using foldM_collect [where f = "aliasFunction ir M" and xs = Fs and h = "\<lambda>F. {F}"
      and g = "\<lambda>A s. withAliasMaps ir A (withHandles ir M A s)", OF aliasFunction_result [OF assms]]
  by (simp add: withAliasMaps_simps withHandles_simps)

text \<open>Every function of a loaded module has the handle of a module it lies in.\<close>

definition handles_of :: "llvm \<Rightarrow> ptr list \<Rightarrow> (ptr \<rightharpoonup> ptr) \<Rightarrow> (ptr \<rightharpoonup> ptr) \<Rightarrow> bool" where
  "handles_of ir Ms AA AA' \<longleftrightarrow> (\<forall>F.
     if blocks ir F \<noteq> [] \<and> (\<exists>M \<in> set Ms. F \<in> set (moduleFunctions ir M))
     then \<exists>M \<in> set Ms. F \<in> set (moduleFunctions ir M) \<and> AA' F = Some (aliasResults ir M)
     else AA' F = AA F)"

lemma aliasModules_result:
  assumes "wf_aliasing ir Ms"
  shows "\<exists>H. foldM (\<lambda>M. foldM (aliasFunction ir M) (moduleFunctions ir M)) Ms ctx =
      Inr (withAliasMaps ir (\<Union>M \<in> set Ms. set (moduleFunctions ir M)) (ctx\<lparr>FuncAAResults := H\<rparr>)) \<and>
    handles_of ir Ms (FuncAAResults ctx) H"
  using assms
proof (induction Ms rule: rev_induct)
  case Nil
  show ?case
    by (rule exI [of _ "FuncAAResults ctx"]) (simp add: withAliasMaps_simps handles_of_def)
next
  case (snoc M Ms)
  have "wf_aliasing ir Ms" using snoc.prems by (simp add: wf_aliasing_def)
  from snoc.IH [OF this] obtain H where r: "foldM (\<lambda>M. foldM (aliasFunction ir M) (moduleFunctions ir M)) Ms ctx =
      Inr (withAliasMaps ir (\<Union>M \<in> set Ms. set (moduleFunctions ir M)) (ctx\<lparr>FuncAAResults := H\<rparr>))"
    and H: "handles_of ir Ms (FuncAAResults ctx) H" by blast
  let ?H = "\<lambda>F. if F \<in> set (moduleFunctions ir M) \<and> blocks ir F \<noteq> [] then Some (aliasResults ir M) else H F"
  have "foldM (aliasFunction ir M) (moduleFunctions ir M) s =
      Inr (withAliasMaps ir (set (moduleFunctions ir M)) (withHandles ir M (set (moduleFunctions ir M)) s))" for s
    by (rule aliasFunctions_result) (use snoc.prems in \<open>auto simp: wf_aliasing_def\<close>)
  then have "foldM (\<lambda>M. foldM (aliasFunction ir M) (moduleFunctions ir M)) (Ms @ [M]) ctx =
      Inr (withAliasMaps ir (\<Union>M \<in> set (Ms @ [M]). set (moduleFunctions ir M)) (ctx\<lparr>FuncAAResults := ?H\<rparr>))"
    by (simp add: foldM_append r withHandles_simps withAliasMaps_simps Un_commute) (simp add: withHandles_def cong: if_cong)
  moreover have "handles_of ir (Ms @ [M]) (FuncAAResults ctx) ?H"
    unfolding handles_of_def
  proof
    fix F
    from H have "if blocks ir F \<noteq> [] \<and> (\<exists>M \<in> set Ms. F \<in> set (moduleFunctions ir M))
      then \<exists>M \<in> set Ms. F \<in> set (moduleFunctions ir M) \<and> H F = Some (aliasResults ir M)
      else H F = FuncAAResults ctx F" unfolding handles_of_def by blast
    then show "if blocks ir F \<noteq> [] \<and> (\<exists>M \<in> set (Ms @ [M]). F \<in> set (moduleFunctions ir M))
      then \<exists>M' \<in> set (Ms @ [M]). F \<in> set (moduleFunctions ir M') \<and> ?H F = Some (aliasResults ir M')
      else ?H F = FuncAAResults ctx F" by (auto split: if_splits)
  qed
  ultimately show ?case by blast
qed

lemma PointerAnalysis_run:
  assumes "wf_aliasing ir Ms"
  shows "\<exists>H. run (PointerAnalysisPass ir) Ms ctx =
      Inr (withAliasMaps ir (\<Union>M \<in> set Ms. set (moduleFunctions ir M)) (ctx\<lparr>FuncAAResults := H\<rparr>)) \<and>
    handles_of ir Ms (FuncAAResults ctx) H"
proof -
  have "run (PointerAnalysisPass ir) Ms ctx =
      foldM (\<lambda>M. foldM (aliasFunction ir M) (moduleFunctions ir M)) Ms ctx"
    by (subst run_once [where i = "\<lambda>M. Inr" and f = "\<lambda>M. Inr"
          and m = "\<lambda>M. foldM (aliasFunction ir M) (moduleFunctions ir M)"])
       (simp_all add: PointerAnalysisPass_def PointerAnalysis_doModulePass_def fun_eq_iff)
  then show ?thesis using aliasModules_result [OF assms] by simp
qed

lemma aliasMap_symmetric:
  assumes "\<And>A B. aliasQuery ir A B = aliasQuery ir B A" "aliasMap ir F A = Some S" "B \<in> S"
  shows "\<exists>T. aliasMap ir F B = Some T \<and> A \<in> T \<and> A \<noteq> B"
proof -
  have "aliases ir A B = aliases ir B A" for A B
    using assms(1) [of A B] by (auto simp: aliases_def split: alias_result.splits)
  then show ?thesis using assms(2,3) by (auto simp: aliasMap_def aliasSet_def split: if_splits)
qed

section \<open>Augmented aliases\<close>

definition mustAliasNext :: "llvm \<Rightarrow> ptr \<Rightarrow> ptr set" where
  "mustAliasNext ir V =
     (if isa ir GetElementPtrInst V then {pointerOperand ir V}
      else if isa ir CastInst V then {operands ir V ! 0}
      else if isa ir AllocaInst V then {V} else {})"

definition wf_mustAlias :: "llvm \<Rightarrow> bool" where
  "wf_mustAlias ir \<longleftrightarrow> (\<forall>V \<in> set (heap ir). mustAliasNext ir V \<subseteq> set (heap ir) \<and>
     (isa ir CastInst V \<longrightarrow> operands ir V \<noteq> []))"

lemma mustAliasTodo_result:
  assumes "wf_mustAlias ir" "V \<in> set (heap ir)"
  shows "\<exists>new. mustAliasTodo ir V u = Inr (new, u) \<and> set new = mustAliasNext ir V"
proof -
  have "isa ir CastInst V \<Longrightarrow> operands ir V \<noteq> []" using assms by (simp add: wf_mustAlias_def)
  then show ?thesis
    by (cases "operands ir V") (auto simp: mustAliasTodo_def mustAliasNext_def)
qed

lemma wf_mustAlias_search:
  assumes "wf_mustAlias ir"
  shows "worklist_search (mustAliasTodo ir) (set (heap ir)) (\<lambda>V. V \<in> set (heap ir)) (\<lambda>P u. True) (mustAliasNext ir)"
proof unfold_locales
  fix V P u assume V: "V \<in> set (heap ir)"
  have n: "mustAliasNext ir V \<subseteq> set (heap ir)" using assms V by (simp add: wf_mustAlias_def)
  obtain new where r: "mustAliasTodo ir V u = Inr (new, u)" "set new = mustAliasNext ir V"
    using mustAliasTodo_result [OF assms V] by blast
  show "returns (mustAliasTodo ir V u) (\<lambda>(new, s'). (\<forall>y \<in> set new. y \<in> set (heap ir)) \<and> True)"
    using n r by auto
  show "set new' = mustAliasNext ir V" if "mustAliasTodo ir V u = Inr (new', s')" for new' s'
    using r that by simp
qed simp_all

text \<open>The values that stand for the same object, with the address computations and casts on them.\<close>

definition mustAliases :: "llvm \<Rightarrow> ptr \<Rightarrow> ptr set" where
  "mustAliases ir P = (\<Union>V \<in> reach_set (mustAliasNext ir) {P}.
     insert V {U \<in> set (users ir V). isa ir GetElementPtrInst U \<or> isa ir CastInst U})"

lemma fold_aliasUsers:
  "fold (\<lambda>U S. if isa ir GetElementPtrInst U then insert U S else if isa ir CastInst U then insert U S else S) Us S =
     S \<union> {U \<in> set Us. isa ir GetElementPtrInst U \<or> isa ir CastInst U}"
  by (induction Us arbitrary: S) auto

lemma augmentMustAlias_result:
  assumes "wf_mustAlias ir" "P \<in> set (heap ir)"
  shows "augmentMustAlias ir P ASet = Inr (ASet \<union> mustAliases ir P)"
proof -
  let ?R = "reach_set (mustAliasNext ir) {P}"
  have "returns (worklist never_stop (\<lambda>x. x) (mustAliasTodo ir) [P] ()) (\<lambda>(PV, u). PV = reach_set (mustAliasNext ir) (set [P]) \<and> True)"
    by (rule worklist_search.loop_reaches [OF wf_mustAlias_search [OF assms(1)]]) (simp_all add: assms(2))
  then obtain u where w: "worklist never_stop (\<lambda>x. x) (mustAliasTodo ir) [P] () = Inr (?R, u)"
    by (auto elim: returnsE)
  have "?R \<subseteq> set (heap ir)"
    by (rule reach_set_least) (use assms in \<open>auto simp: wf_mustAlias_def\<close>)
  then have R: "set (sorted_list_of_set ?R) = ?R" by (simp add: finite_subset)
  have "fold (\<lambda>V ASet. fold (\<lambda>U S. if isa ir GetElementPtrInst U then insert U S else if isa ir CastInst U then insert U S else S)
      (users ir V) (insert V ASet)) Vs S =
    S \<union> (\<Union>V \<in> set Vs. insert V {U \<in> set (users ir V). isa ir GetElementPtrInst U \<or> isa ir CastInst U})" for Vs S
    by (induction Vs arbitrary: S) (simp_all add: fold_aliasUsers Un_assoc)
  from this [of "sorted_list_of_set ?R" ASet] show ?thesis
    by (simp add: augmentMustAlias_def w R mustAliases_def)
qed

lemma collectPointers_result:
  "collectPointers ir F S = S \<union> {I \<in> set (instructions ir F). isPointerTy ir (typeOf ir I) \<and>
     (isa ir LoadInst I \<or> isa ir GetElementPtrInst I \<or> isa ir CastInst I)}"
proof -
  have "fold (\<lambda>I PSet. if \<not> isPointerTy ir (typeOf ir I) then PSet
         else if isa ir LoadInst I \<or> isa ir GetElementPtrInst I \<or> isa ir CastInst I
         then insert I PSet else PSet) Is S = S \<union> {I \<in> set Is. isPointerTy ir (typeOf ir I) \<and>
     (isa ir LoadInst I \<or> isa ir GetElementPtrInst I \<or> isa ir CastInst I)}" for Is
    by (induction Is arbitrary: S) auto
  then show ?thesis by (simp add: collectPointers_def)
qed

end
