(* ===== verification/TypeTheorems.thy ===== *)
theory TypeTheorems
  imports TypeInitializer
begin

text \<open>
  The type initializer: the two maps it collects hold the first entry of every key, and the
  names it gives to types are the composition of the maps.
\<close>

section \<open>Insertion without overwriting\<close>

lemma mapInsert_add: "mapInsert k v M = [k \<mapsto> v] ++ M"
  by (cases "M k") (auto simp: mapInsert_def map_add_def fun_eq_iff split: option.splits)

lemma map_of_upd: "map_of ((k, v) # es) = (map_of es)(k \<mapsto> v)"
  by (rule ext) simp

lemma map_of_Cons_add: "map_of es ++ ([k \<mapsto> v] ++ M) = map_of ((k, v) # es) ++ M"
  by (simp add: map_of_upd del: map_of.simps)

lemma fold_step: "fold f (x # xs) s = fold f xs (f x s)"
  by simp

section \<open>Pointers stripped off a type\<close>

text \<open>LLVM's types are finite terms below a structure: pointers nest finitely.\<close>

abbreviation strips :: "llvm \<Rightarrow> ptr \<Rightarrow> bool" where
  "strips ir T \<equiv> T \<noteq> NULL \<and> isPointerTy ir T"

definition wf_pointerTypes :: "llvm \<Rightarrow> bool" where
  "wf_pointerTypes ir \<longleftrightarrow> wf {(elementType ir T, T) |T. strips ir T}"

lemma stripPointers_unfold:
  "stripPointers ir T = (if strips ir T then stripPointers ir (elementType ir T) else Inr T)"
  unfolding stripPointers_def by (subst repeatWhile_unfold) (simp add: Let_def)

lemma stripPointers_returns:
  assumes "wf_pointerTypes ir"
  shows "\<exists>S. stripPointers ir T = Inr S \<and> \<not> strips ir S"
  using assms unfolding wf_pointerTypes_def
proof (induction T rule: wf_induct_rule)
  case (less T)
  show ?case
  proof (cases "strips ir T")
    case True
    then have "(elementType ir T, T) \<in> {(elementType ir T, T) |T. strips ir T}" by blast
    from less.IH [OF this] show ?thesis by (subst stripPointers_unfold) (simp add: True)
  next
    case False
    then have "stripPointers ir T = Inr T" by (subst stripPointers_unfold) (simp only: if_False)
    then show ?thesis using False by (intro exI conjI)
  qed
qed

definition pointee :: "llvm \<Rightarrow> ptr \<Rightarrow> ptr" where
  "pointee ir T = (case stripPointers ir T of Inr S \<Rightarrow> S | Inl _ \<Rightarrow> NULL)"

lemma stripPointers_pointee: "wf_pointerTypes ir \<Longrightarrow> stripPointers ir T = Inr (pointee ir T)"
  using stripPointers_returns [of ir T] by (auto simp: pointee_def)

section \<open>What a module contributes\<close>

definition globalEntries :: "llvm \<Rightarrow> ptr \<Rightarrow> (ptr \<times> string) list" where
  "globalEntries ir M =
     map (\<lambda>GV. (valueType ir GV, nameOf ir GV))
       (filter (\<lambda>GV. hasName ir GV \<and> isStructTy ir (valueType ir GV) \<and> \<not> structHasName ir (valueType ir GV))
         (moduleGlobals ir M))"

definition operandEntries :: "llvm \<Rightarrow> ptr \<Rightarrow> (string \<times> string) list" where
  "operandEntries ir I =
     map (\<lambda>VI. (nameOf ir VI, structName ir (pointee ir (typeOf ir VI))))
       (filter (\<lambda>VI. VI \<noteq> NULL \<and> hasName ir VI \<and> pointee ir (typeOf ir VI) \<noteq> NULL \<and>
            isStructTy ir (pointee ir (typeOf ir VI)) \<and> structHasName ir (pointee ir (typeOf ir VI)))
         (operands ir I))"

definition valueEntries :: "llvm \<Rightarrow> ptr \<Rightarrow> (string \<times> string) list" where
  "valueEntries ir M =
     concat (map (\<lambda>F. concat (map (operandEntries ir) (instructions ir F)))
       (filter (\<lambda>F. \<not> isIntrinsic ir F) (moduleFunctions ir M)))"

text \<open>Entries added to the two maps.\<close>

definition withEntries :: "(ptr \<times> string) list \<Rightarrow> (string \<times> string) list \<Rightarrow> ti_state \<Rightarrow> ti_state" where
  "withEntries gs vs st = st\<lparr>TypeValueMap := map_of gs ++ TypeValueMap st,
     VnameToTypenameMap := map_of vs ++ VnameToTypenameMap st\<rparr>"

lemma withEntries_simps:
  "withEntries [] [] st = st"
  "withEntries gs vs (withEntries gs' vs' st) = withEntries (gs' @ gs) (vs' @ vs) st"
  by (simp_all add: withEntries_def map_add_assoc)

lemma nameGlobalType_entry:
  "nameGlobalType ir GV st = withEntries
     (if hasName ir GV \<and> isStructTy ir (valueType ir GV) \<and> \<not> structHasName ir (valueType ir GV)
      then [(valueType ir GV, nameOf ir GV)] else []) [] st"
  by (simp add: nameGlobalType_def Let_def withEntries_def mapInsert_add)

lemma nameGlobals: "fold (nameGlobalType ir) (moduleGlobals ir M) st = withEntries (globalEntries ir M) [] st"
proof -
  have "fold (nameGlobalType ir) GVs st = withEntries
      (map (\<lambda>GV. (valueType ir GV, nameOf ir GV))
        (filter (\<lambda>GV. hasName ir GV \<and> isStructTy ir (valueType ir GV) \<and> \<not> structHasName ir (valueType ir GV)) GVs)) [] st" for GVs
    by (induction GVs arbitrary: st) (simp_all add: nameGlobalType_entry withEntries_simps del: map_of.simps)
  then show ?thesis by (simp add: globalEntries_def)
qed

text \<open>A loop whose steps append to lists that determine the state.\<close>

lemma foldM_entries:
  assumes "\<And>x s. f x s = Inr (withEntries (g x) (h x) s)"
  shows "foldM f xs s = Inr (withEntries (concat (map g xs)) (concat (map h xs)) s)"
  by (induction xs arbitrary: s) (simp_all add: assms withEntries_simps)

lemma concat_Nils [simp]: "concat (map (\<lambda>x. []) xs) = []"
  by (induction xs) simp_all

lemma nameOperandType_entry:
  assumes "wf_pointerTypes ir"
  shows "nameOperandType ir VI st = Inr (withEntries [] (if VI \<noteq> NULL \<and> hasName ir VI \<and> pointee ir (typeOf ir VI) \<noteq> NULL \<and>
            isStructTy ir (pointee ir (typeOf ir VI)) \<and> structHasName ir (pointee ir (typeOf ir VI))
     then [(nameOf ir VI, structName ir (pointee ir (typeOf ir VI)))] else []) st)"
  by (simp add: nameOperandType_def stripPointers_pointee [OF assms] withEntries_def mapInsert_add)

lemma concat_map_if: "concat (map (\<lambda>x. if P x then [f x] else []) xs) = map f (filter P xs)"
  by (induction xs) simp_all

lemma nameOperands:
  assumes "wf_pointerTypes ir"
  shows "foldM (nameOperandType ir) (operands ir I) st = Inr (withEntries [] (operandEntries ir I) st)"
  by (subst foldM_entries [OF nameOperandType_entry [OF assms]]) (simp only: concat_Nils concat_map_if operandEntries_def)

lemma nameFunctionTypes_entries:
  assumes "wf_pointerTypes ir"
  shows "nameFunctionTypes ir F st = Inr (withEntries []
    (if isIntrinsic ir F then [] else concat (map (operandEntries ir) (instructions ir F))) st)"
  using foldM_entries [OF nameOperands [OF assms], where xs = "instructions ir F" and s = st]
  by (simp add: nameFunctionTypes_def withEntries_simps)

lemma concat_map_filter: "concat (map (\<lambda>x. if P x then [] else f x) xs) = concat (map f (filter (\<lambda>x. \<not> P x) xs))"
  by (induction xs) simp_all

lemma TypeInitializer_doInitialization_entries:
  assumes "wf_pointerTypes ir"
  shows "foldM (nameFunctionTypes ir) (moduleFunctions ir M) (fold (nameGlobalType ir) (moduleGlobals ir M) st) =
    Inr (withEntries (globalEntries ir M) (valueEntries ir M) st)"
  by (subst foldM_entries [OF nameFunctionTypes_entries [OF assms]])
     (simp add: nameGlobals withEntries_simps concat_map_filter valueEntries_def)

lemma TypeInitializer_run:
  assumes "wf_pointerTypes ir"
  shows "run (TypeInitializerPass ir) Ms st =
    Inr (withEntries (concat (map (globalEntries ir) Ms)) (concat (map (valueEntries ir) Ms)) st)"
proof -
  let ?i = "\<lambda>M st. foldM (nameFunctionTypes ir) (moduleFunctions ir M) (fold (nameGlobalType ir) (moduleGlobals ir M) st)"
  have "run (TypeInitializerPass ir) Ms st = foldM ?i Ms st"
    by (subst run_once [where i = ?i and m = "\<lambda>M. Inr" and f = "\<lambda>M. Inr"])
       (simp_all add: TypeInitializerPass_def TypeInitializer_doInitialization_def fun_eq_iff)
  then show ?thesis
    by (simp only: foldM_entries [OF TypeInitializer_doInitialization_entries [OF assms]])
qed

section \<open>Joining the maps\<close>

lemma joinEntry_Some: "names v = Some n \<Longrightarrow> joinEntry names (T, v) types = [T \<mapsto> n] ++ types"
  by (simp add: joinEntry_def mapInsert_add)

lemma joinEntry_None: "names v = None \<Longrightarrow> joinEntry names (T, v) types = types"
  by (simp add: joinEntry_def)

lemma fold_joinEntry:
  "fold (joinEntry names) es types = map_of (map (\<lambda>(T, v). (T, the (names v))) (filter (\<lambda>(T, v). names v \<noteq> None) es)) ++ types"
proof (induction es arbitrary: types)
  case (Cons e es)
  obtain T v where e: "e = (T, v)" by (cases e)
  show ?case
  proof (cases "names v")
    case (Some n)
    then have "fold (joinEntry names) (e # es) types =
        map_of (map (\<lambda>(T, v). (T, the (names v))) (filter (\<lambda>(T, v). names v \<noteq> None) es)) ++ ([T \<mapsto> n] ++ types)"
      by (simp only: e fold_step joinEntry_Some Cons.IH)
    also have "\<dots> = map_of ((T, n) # map (\<lambda>(T, v). (T, the (names v))) (filter (\<lambda>(T, v). names v \<noteq> None) es)) ++ types"
      by (rule map_of_Cons_add)
    finally show ?thesis by (simp only: e filter.simps prod.case Some option.distinct not_False_eq_True if_True list.map option.sel)
  qed (simp add: e joinEntry_None Cons.IH)
qed simp

lemma BuildTypeStructMap_compose:
  assumes "finite (dom (TypeValueMap st))"
  shows "BuildTypeStructMap st =
    (let types = (VnameToTypenameMap st \<circ>\<^sub>m TypeValueMap st) ++ GlobalTypes (tiCtx st)
     in st\<lparr>tiCtx := (tiCtx st)\<lparr>GlobalTypes := types\<rparr>, tiTypeToTNameMap := types\<rparr>)"
proof -
  let ?V = "TypeValueMap st" and ?N = "VnameToTypenameMap st"
  let ?es = "map (\<lambda>T. (T, the (?V T))) (sorted_list_of_set (dom ?V))"
  let ?fs = "map (\<lambda>(T, v). (T, the (?N v))) (filter (\<lambda>(T, v). ?N v \<noteq> None) ?es)"
  have fs: "?fs = map (\<lambda>T. (T, the (?N (the (?V T)))))
      (filter (\<lambda>T. ?N (the (?V T)) \<noteq> None) (sorted_list_of_set (dom ?V)))"
    by (simp add: filter_map comp_def)
  have "map_of ?fs T = (?N \<circ>\<^sub>m ?V) T" for T
    unfolding fs map_of_map_restrict using assms
    by (cases "?V T") (auto simp: restrict_map_def map_comp_def domIff)
  then have "map_of ?fs = ?N \<circ>\<^sub>m ?V" by (simp add: fun_eq_iff)
  then show ?thesis by (simp only: BuildTypeStructMap_def fold_joinEntry)
qed

end
