(* ===== verification/WorkflowTheorems.thy ===== *)
theory WorkflowTheorems
  imports Workflow CallGraphRun PointerTheorems TypeTheorems CheckTheorems MissingRun MissingTheorems
begin

text \<open>
  The passes composed: from hypotheses on the program alone the call graph is built and the
  security checks are found, and every later pass starts in a context that satisfies what its
  theorems assume.
\<close>

section \<open>Programs\<close>

text \<open>
  What is assumed of the loaded modules: the facts LLVM documents, for every function, and
  nothing about the context.
\<close>

definition program_ok :: "llvm \<Rightarrow> ptr list \<Rightarrow> bool" where
  "program_ok ir Ms \<longleftrightarrow> wf_graph ir \<and> wf_pointerTypes ir \<and> wf_flow ir newGlobalContext \<and>
     (\<forall>M \<in> set Ms. wf_module ir M) \<and> allFunctions ir Ms \<subseteq> set (heap ir) \<and>
     (\<forall>F \<in> allFunctions ir Ms. wf_cfg ir F \<and> wf_calls ir F)"

lemma program_okD:
  assumes "program_ok ir Ms"
  shows "wf_graph ir" "wf_pointerTypes ir" "wf_flow ir newGlobalContext" "\<forall>M \<in> set Ms. wf_module ir M"
    and "allFunctions ir Ms \<subseteq> set (heap ir)" "F \<in> allFunctions ir Ms \<Longrightarrow> wf_cfg ir F" "F \<in> allFunctions ir Ms \<Longrightarrow> wf_calls ir F"
  using assms unfolding program_ok_def by blast+

definition startContext :: "ptr list \<Rightarrow> (ptr \<rightharpoonup> string) \<Rightarrow> gctx" where
  "startContext Ms names = newGlobalContext\<lparr>Modules := Ms, ModuleMaps := names\<rparr>"

text \<open>The modules of the files that can be read, in the order of the command line.\<close>

definition loaded :: "(string \<Rightarrow> ptr) \<Rightarrow> string list \<Rightarrow> ptr list" where
  "loaded parse inputs = filter (\<lambda>M. M \<noteq> NULL) (map parse inputs)"

lemma loadModule_start:
  "loadModule parse fname (startContext Ms names) =
     (if parse fname = NULL then startContext Ms names
      else startContext (Ms @ [parse fname]) (names(parse fname \<mapsto> fname)))"
  by (simp add: loadModule_def startContext_def Let_def)

lemma loadModule_fold:
  "\<exists>names'. fold (loadModule parse) inputs (startContext Ms names) = startContext (Ms @ loaded parse inputs) names'"
proof (induction inputs arbitrary: Ms names)
  case (Cons fname inputs)
  show ?case
  proof (cases "parse fname = NULL")
    case True
    then show ?thesis using Cons [of Ms names] by (simp add: loadModule_start loaded_def)
  next
    case False
    then obtain n where "loadModule parse fname (startContext Ms names) = startContext (Ms @ [parse fname]) n"
      using loadModule_start by simp
    then show ?thesis using Cons [of "Ms @ [parse fname]" n] False by (simp add: loaded_def)
  qed
qed (auto simp: loaded_def)

lemma analyzerMain_workflow:
  "\<exists>names. analyzerMain ir files errfile parse SC MC inputs =
     mainWorkflow ir files errfile SC MC (startContext (loaded parse inputs) names)"
proof -
  have "newGlobalContext = startContext [] Map.empty" by (simp add: startContext_def newGlobalContext_def)
  then show ?thesis using loadModule_fold [of parse inputs "[]" Map.empty] by (auto simp: analyzerMain_def)
qed

section \<open>The context after the call graph\<close>

definition graph_built :: "llvm \<Rightarrow> ptr list \<Rightarrow> gctx \<Rightarrow> bool" where
  "graph_built ir Ms ctx \<longleftrightarrow>
     (\<forall>CI F. CI \<in> Callers ctx F \<longleftrightarrow> F \<in> Callees ctx CI) \<and>
     (\<forall>CI. Callees ctx CI \<subseteq> allFunctions ir Ms) \<and>
     (\<forall>CI. Callees ctx CI \<noteq> {} \<longrightarrow> CI \<in> set (heap ir) \<and> isa ir CallInst CI) \<and>
     (\<forall>CI. isIndirectCall ir CI \<longrightarrow> Callees ctx CI \<subseteq> typeCandidates ir (allFunctions ir Ms) (callHash ir CI)) \<and>
     UnifiedFuncSet ctx \<subseteq> allFunctions ir Ms"

lemma initialized_new:
  assumes "Callers ctx = (\<lambda>_. {})" "Callees ctx = (\<lambda>_. {})" "UnifiedFuncMap ctx = Map.empty"
    "UnifiedFuncSet ctx = {}" "sigFuncsMap ctx = (\<lambda>_. {})"
  shows "initialized ir ctx {} ctx"
  using assms by (simp add: initialized_def unified_ok_def unresolved_def typeCandidates_def)

lemma CallGraph_builds:
  assumes "wf_graph ir" "\<forall>M \<in> set Ms. wf_module ir M" "initialized ir ctx {} ctx"
  shows "returns (run (CallGraphPass ir) Ms (newCallGraph ctx names)) (\<lambda>st.
    graph_built ir Ms (cgCtx st) \<and> outsideGraph (cgCtx st) = outsideGraph ctx)"
proof (rule returns_mono [OF CallGraph_run [OF assms]])
  fix st assume "\<exists>st0. initialized ir ctx (\<Union>M \<in> set Ms. set (moduleFunctions ir M)) (cgCtx st0) \<and>
    resolved ir st0 (\<Union>M \<in> set Ms. resolvedInsts ir (UnifiedFuncSet (cgCtx st0)) M) st"
  then obtain st0 where "initialized ir ctx (allFunctions ir Ms) (cgCtx st0)"
    "resolved ir st0 (\<Union>M \<in> set Ms. resolvedInsts ir (UnifiedFuncSet (cgCtx st0)) M) st"
    unfolding allFunctions_def by blast
  note g = resolved_graph [OF this]
  have U: "UnifiedFuncSet (cgCtx st) \<subseteq> allFunctions ir Ms" using g(2) by blast
  have c: "Callees (cgCtx st) CI \<noteq> {} \<Longrightarrow> CI \<in> set (heap ir) \<and> isa ir CallInst CI" for CI
    using g(4) unifiedInsts_heap [OF assms(2), of "cgCtx st"] by (auto split: if_splits)
  moreover have "Callees (cgCtx st) CI \<subseteq> allFunctions ir Ms \<and>
      (isIndirectCall ir CI \<longrightarrow> Callees (cgCtx st) CI \<subseteq> typeCandidates ir (allFunctions ir Ms) (callHash ir CI))" for CI
  proof (cases "Callees (cgCtx st) CI = {}")
    case False
    then have "Callees (cgCtx st) CI = targets ir st CI" using g(4) by (simp split: if_splits)
    then show ?thesis using targets_functions [OF assms(1) _ _ g(6) U] c [OF False] by simp
  qed simp
  ultimately show "graph_built ir Ms (cgCtx st) \<and> outsideGraph (cgCtx st) = outsideGraph ctx"
    using g(3,5) U unfolding graph_built_def by blast
qed

lemma outsideGraph_same:
  "Modules (outsideGraph ctx) = Modules ctx" "CopyFuncs (outsideGraph ctx) = CopyFuncs ctx"
  "SecurityCheckSets (outsideGraph ctx) = SecurityCheckSets ctx" "CheckInstSets (outsideGraph ctx) = CheckInstSets ctx"
  "FuncPAResults (outsideGraph ctx) = FuncPAResults ctx"
  by (simp_all add: outsideGraph_def)

lemma outsideGraph_fields:
  assumes "outsideGraph ctx = outsideGraph ctx'"
  shows "Modules ctx = Modules ctx'" "CopyFuncs ctx = CopyFuncs ctx'" "SecurityCheckSets ctx = SecurityCheckSets ctx'"
    "CheckInstSets ctx = CheckInstSets ctx'" "FuncPAResults ctx = FuncPAResults ctx'"
  using assms outsideGraph_same [of ctx] outsideGraph_same [of ctx'] by simp_all

text \<open>The context with which the checks are searched.\<close>

definition graph_context :: "llvm \<Rightarrow> ptr list \<Rightarrow> gctx \<Rightarrow> bool" where
  "graph_context ir Ms ctx \<longleftrightarrow> graph_built ir Ms ctx \<and> Modules ctx = Ms \<and>
     CopyFuncs ctx = SetCopyFuncs Map.empty \<and> SecurityCheckSets ctx = (\<lambda>_. []) \<and>
     CheckInstSets ctx = (\<lambda>_. {}) \<and> FuncPAResults ctx = (\<lambda>_. Map.empty)"

lemma buildGraph_result:
  assumes ok: "program_ok ir Ms"
  shows "returns (buildGraph ir errfile (startContext Ms names)) (graph_context ir Ms)"
proof -
  let ?c = "LoadStaticData errfile (startContext Ms names)"
  obtain ti where t: "run (TypeInitializerPass ir) (Modules ?c) (newTypeInitializer ?c) = Inr ti"
    and c: "tiCtx ti = ?c"
    unfolding TypeInitializer_run [OF program_okD(2) [OF ok]] by (simp add: withEntries_def newTypeInitializer_def)
  let ?b = "BuildTypeStructMap ti"
  have b: "\<exists>G. tiCtx ?b = ?c\<lparr>GlobalTypes := G\<rparr>" by (simp add: BuildTypeStructMap_def Let_def c) blast
  then obtain G where b: "tiCtx ?b = ?c\<lparr>GlobalTypes := G\<rparr>" by blast
  let ?g = "?c\<lparr>GlobalTypes := G\<rparr>"
  have M: "Modules ?c = Ms" by (simp add: LoadStaticData_def startContext_def)
  have f: "Modules ?g = Ms" "CopyFuncs ?g = SetCopyFuncs Map.empty" "SecurityCheckSets ?g = (\<lambda>_. [])"
    "CheckInstSets ?g = (\<lambda>_. {})" "FuncPAResults ?g = (\<lambda>_. Map.empty)"
    by (simp_all add: LoadStaticData_def startContext_def newGlobalContext_def)
  have "initialized ir ?g {} ?g"
    by (rule initialized_new) (simp_all add: LoadStaticData_def startContext_def newGlobalContext_def)
  from CallGraph_builds [OF program_okD(1,4) [OF ok] this, of "tiTypeToTNameMap ?b"]
  obtain cg where g: "run (CallGraphPass ir) Ms (newCallGraph ?g (tiTypeToTNameMap ?b)) = Inr cg"
    and gb: "graph_built ir Ms (cgCtx cg)" and o: "outsideGraph (cgCtx cg) = outsideGraph ?g"
    by (elim returnsE) blast
  have "graph_context ir Ms (cgCtx cg)"
    using gb outsideGraph_fields [OF o] f unfolding graph_context_def by simp
  moreover have "buildGraph ir errfile (startContext Ms names) = Inr (cgCtx cg)"
    by (simp only: buildGraph_def Let_def t [unfolded M] rbind.simps b M g)
  ultimately show ?thesis by simp
qed

section \<open>What the later passes assume\<close>

lemma firstCallee_cases: "firstCallee ir ctx I = NULL \<or> firstCallee ir ctx I \<in> set (smallSetOrder ir (Callees ctx I))"
  by (cases "smallSetOrder ir (Callees ctx I)") (simp_all add: firstCallee_def)

lemma copyFuncs_dest: "SetCopyFuncs Map.empty f = Some (s, d, z) \<Longrightarrow> d \<noteq> -1"
  by (auto simp: SetCopyFuncs_def copy_func_names_def split: if_splits)

lemma graph_wf_flow:
  assumes ok: "program_ok ir Ms" and g: "graph_context ir Ms ctx"
  shows "wf_flow ir ctx"
proof -
  note gb = g [unfolded graph_context_def graph_built_def]
  have "firstCallee ir ctx I \<in> insert NULL (set (heap ir))" for I
  proof -
    have c: "Callees ctx I \<subseteq> set (heap ir)" using gb program_okD(5) [OF ok] by blast
    then have "set (smallSetOrder ir (Callees ctx I)) = Callees ctx I"
      by (intro wf_graphD(3) [OF program_okD(1) [OF ok]]) (rule finite_subset, assumption, simp)
    then show ?thesis using c firstCallee_cases [of ir ctx I] by blast
  qed
  moreover have "\<forall>f s d z. CopyFuncs ctx f = Some (s, d, z) \<longrightarrow> d \<noteq> -1"
    using gb copyFuncs_dest by simp
  ultimately show ?thesis using program_okD(3) [OF ok] unfolding wf_flow_def wf_functions_def by blast
qed

lemma graph_wf_callers:
  assumes ok: "program_ok ir Ms" and g: "graph_built ir Ms ctx"
  shows "wf_callers ir ctx"
proof -
  have "CI \<in> set (heap ir) \<and> isa ir CallInst CI" if "CI \<in> Callers ctx F" for CI F
    using g that unfolding graph_built_def by blast
  moreover have "set (smallSetOrder ir (Callers ctx F)) = Callers ctx F" for F
  proof (rule wf_graphD(3) [OF program_okD(1) [OF ok]])
    show "finite (Callers ctx F)"
      by (rule finite_subset [of _ "set (heap ir)"]) (use calculation in auto)
  qed
  ultimately show ?thesis unfolding wf_callers_def by blast
qed

section \<open>The search for security checks\<close>

text \<open>The handling conditions of the analysed ones among \<open>Fs\<close> are recorded.\<close>

definition found :: "llvm \<Rightarrow> (string \<Rightarrow> string) \<Rightarrow> gctx \<Rightarrow> ptr set \<Rightarrow> gctx \<Rightarrow> bool" where
  "found ir files ctx Fs ctx' \<longleftrightarrow> (\<forall>F \<in> Fs. analysed ir ctx F \<longrightarrow>
     handlingConditions ir files ctx F \<subseteq> SCheck ` set (SecurityCheckSets ctx' F))"

lemma found_insert:
  assumes "found ir files ctx Fs c"
    and "\<forall>G. SCheck ` set (SecurityCheckSets c G) \<subseteq> SCheck ` set (SecurityCheckSets c' G)"
    and "analysed ir ctx F \<longrightarrow> handlingConditions ir files ctx F \<subseteq> SCheck ` set (SecurityCheckSets c' F)"
  shows "found ir files ctx (insert F Fs) c'"
  unfolding found_def
proof (intro ballI impI)
  fix G assume "G \<in> insert F Fs" "analysed ir ctx G"
  then consider "G = F" | "handlingConditions ir files ctx G \<subseteq> SCheck ` set (SecurityCheckSets c G)"
    using assms(1) unfolding found_def by blast
  then show "handlingConditions ir files ctx G \<subseteq> SCheck ` set (SecurityCheckSets c' G)"
    using assms(2,3) \<open>analysed ir ctx G\<close> by cases (simp, blast)
qed

lemma SecurityChecks_run:
  assumes wf: "\<forall>F \<in> allFunctions ir Ms. analysed ir ctx F \<longrightarrow> wf_function ir ctx F" and ok: "recorded_ok ctx"
  shows "returns (run (SecurityChecksPass ir files) Ms (ctx, Sel))
    (\<lambda>st. pass_ok ir ctx st \<and> found ir files ctx (allFunctions ir Ms) (fst st))"
proof -
  let ?m = "\<lambda>M. foldM (passFunction ir files) (moduleFunctions ir M)"
  let ?Q = "\<lambda>Fs st. pass_ok ir ctx st \<and> found ir files ctx Fs (fst st)"
  have "run (SecurityChecksPass ir files) Ms (ctx, Sel) = foldM ?m Ms (ctx, Sel)"
    by (subst run_once [where i = "\<lambda>M. Inr" and m = ?m and f = "\<lambda>M. Inr"])
       (simp_all add: SecurityChecksPass_def SecurityChecks_doModulePass_def fun_eq_iff)
  moreover have "returns (foldM ?m Ms (ctx, Sel)) (?Q (\<Union>M \<in> set Ms. set (moduleFunctions ir M)))"
  proof (rule returns_foldM_seen [where Q = "\<lambda>Ms. ?Q (\<Union>M \<in> Ms. set (moduleFunctions ir M))"])
    fix Ns M Ks and st :: sc_state
    assume M: "Ms = Ns @ M # Ks" and st: "?Q (\<Union>M \<in> set Ns. set (moduleFunctions ir M)) st"
    let ?A = "\<Union>M \<in> set Ns. set (moduleFunctions ir M)"
    have "returns (?m M st) (?Q (?A \<union> set (moduleFunctions ir M)))"
    proof (rule returns_foldM_seen [where Q = "\<lambda>Fs. ?Q (?A \<union> Fs)"])
      fix Gs F Hs and t :: sc_state
      assume F: "moduleFunctions ir M = Gs @ F # Hs" and t: "?Q (?A \<union> set Gs) t"
      have "F \<in> allFunctions ir Ms" by (simp add: allFunctions_def M F)
      then have "analysed ir ctx F \<longrightarrow> wf_function ir ctx F" using wf by blast
      from passFunction_returns [OF this conjunct1 [OF t], of files]
      show "returns (passFunction ir files F t) (?Q (?A \<union> insert F (set Gs)))"
      proof (rule returns_mono, elim conjE, intro conjI)
        fix u :: sc_state
        assume "\<forall>G. SCheck ` set (SecurityCheckSets (fst t) G) \<subseteq> SCheck ` set (SecurityCheckSets (fst u) G)"
          "analysed ir ctx F \<longrightarrow> handlingConditions ir files ctx F \<subseteq> SCheck ` set (SecurityCheckSets (fst u) F)"
        from found_insert [OF conjunct2 [OF t] this]
        show "found ir files ctx (?A \<union> insert F (set Gs)) (fst u)" by (simp only: Un_insert_right)
      qed
    qed (use st in simp)
    then show "returns (?m M st) (?Q (\<Union>M \<in> insert M (set Ns). set (moduleFunctions ir M)))"
      by (simp only: UN_insert Un_commute)
  qed (use ok in \<open>simp add: found_def\<close>)
  ultimately show ?thesis by (simp only: allFunctions_def)
qed

lemma same_graph_built: "same_graph ctx ctx' \<Longrightarrow> graph_built ir Ms ctx' = graph_built ir Ms ctx"
  by (simp add: graph_built_def same_graph_def)

lemma graph_wf_functions:
  assumes "program_ok ir Ms" "graph_context ir Ms ctx"
  shows "\<forall>F \<in> allFunctions ir Ms. analysed ir ctx F \<longrightarrow> wf_function ir ctx F"
  using graph_wf_flow [OF assms] program_okD(5-7) [OF assms(1)] by blast

lemma analysed_cong: "UnifiedFuncSet ctx' = UnifiedFuncSet ctx \<Longrightarrow> analysed ir ctx' = analysed ir ctx"
  by (simp add: analysed_def fun_eq_iff)

text \<open>The checks of a fresh context after the pass are conditions of their functions.\<close>

lemma recorded_conditions:
  assumes "pass_ok ir ctx0 st" "SecurityCheckSets ctx0 = (\<lambda>_. [])"
  shows "\<forall>F. CheckInstSets (fst st) F \<subseteq> conditionsOf ir F"
  using assms by (auto simp: recorded_ok_def)

lemma recorded_handling:
  assumes p: "pass_ok ir ctx0 st" and f: "found ir files ctx0 Fs (fst st)"
  shows "\<forall>F \<in> Fs. analysed ir (fst st) F \<longrightarrow> handlingConditions ir files (fst st) F \<subseteq> CheckInstSets (fst st) F"
proof -
  have g: "same_graph ctx0 (fst st)" and r: "recorded_ok (fst st)" using p by - (elim conjE, assumption)+
  have "analysed ir (fst st) = analysed ir ctx0" using g by (intro analysed_cong) (simp add: same_graph_def)
  moreover have "CheckInstSets (fst st) F = SCheck ` set (SecurityCheckSets (fst st) F)" for F
    using r by (simp add: recorded_ok_def)
  ultimately show ?thesis using f by (simp add: found_def handlingConditions_same [OF g])
qed

section \<open>The two modes\<close>

lemma mainWorkflow_sc:
  assumes ok: "program_ok ir Ms"
  shows "returns (mainWorkflow ir files errfile True False (startContext Ms names)) (\<lambda>(ctx, reports).
    graph_built ir Ms ctx \<and> recorded_ok ctx \<and> reports = [] \<and> (\<forall>F. CheckInstSets ctx F \<subseteq> conditionsOf ir F) \<and>
    (\<forall>F \<in> allFunctions ir Ms. analysed ir ctx F \<longrightarrow> handlingConditions ir files ctx F \<subseteq> CheckInstSets ctx F) \<and>
    (\<forall>F. \<not> analysed ir ctx F \<longrightarrow> SecurityCheckSets ctx F = []))"
proof -
  obtain ctx where b: "buildGraph ir errfile (startContext Ms names) = Inr ctx" and g: "graph_context ir Ms ctx"
    using buildGraph_result [OF ok, of errfile names] by (elim returnsE)
  note f = g [unfolded graph_context_def]
  have r: "recorded_ok ctx" using f by (simp add: recorded_ok_def)
  obtain st where s: "run (SecurityChecksPass ir files) Ms (ctx, {}) = Inr st" and p: "pass_ok ir ctx st"
    and fo: "found ir files ctx (allFunctions ir Ms) (fst st)"
    using SecurityChecks_run [OF graph_wf_functions [OF ok g] r, of files "{}"] by (elim returnsE) (erule conjE)
  obtain ctx' Sel where st: "st = (ctx', Sel)" by fastforce
  have sg: "same_graph ctx ctx'" "recorded_ok ctx'"
    and n: "\<forall>F. \<not> analysed ir ctx F \<longrightarrow> SecurityCheckSets ctx' F = SecurityCheckSets ctx F"
    using p unfolding st fst_conv by - (elim conjE, assumption)+
  have M: "Modules ctx = Ms" and e: "SecurityCheckSets ctx = (\<lambda>_. [])" and "graph_built ir Ms ctx" using f by blast+
  then have gb: "graph_built ir Ms ctx'" by (simp only: same_graph_built [OF sg(1)])
  have "analysed ir ctx' = analysed ir ctx" using sg(1) by (intro analysed_cong) (simp add: same_graph_def)
  then have "\<forall>F. \<not> analysed ir ctx' F \<longrightarrow> SecurityCheckSets ctx' F = []" using n by (simp only: e simp_thms)
  moreover have "mainWorkflow ir files errfile True False (startContext Ms names) = Inr (ctx', [])"
    by (simp add: mainWorkflow_def b M s st)
  ultimately show ?thesis using gb sg(2) recorded_conditions [OF p e] recorded_handling [OF p fo] by (simp add: st)
qed

lemma mainWorkflow_mc:
  assumes ok: "program_ok ir Ms" and al: "wf_aliasing ir Ms" and wf: "wf_values ir newGlobalContext"
    and Ms: "Ms \<noteq> []" "length Ms < 2 ^ 31"
  shows "\<exists>ctx. mainWorkflow ir files errfile False True (startContext Ms names) =
      rbind (twoStages ir ctx newMissingChecks) (\<lambda>st. Inr (ctx, processResults ir st)) \<and>
    graph_built ir Ms ctx \<and> recorded_ok ctx \<and> (\<forall>F. CheckInstSets ctx F \<subseteq> conditionsOf ir F) \<and>
    (\<forall>F \<in> allFunctions ir Ms. analysed ir ctx F \<longrightarrow> handlingConditions ir files ctx F \<subseteq> CheckInstSets ctx F) \<and>
    wf_values ir ctx \<and> wf_callers ir ctx \<and> Modules ctx = Ms \<and>
    FuncPAResults ctx = aliasMapsOver ir (allFunctions ir Ms) (\<lambda>_. Map.empty)"
proof -
  obtain ctx where b: "buildGraph ir errfile (startContext Ms names) = Inr ctx" and g: "graph_context ir Ms ctx"
    using buildGraph_result [OF ok, of errfile names] by (elim returnsE)
  have M: "Modules ctx = Ms" and f: "FuncPAResults ctx = (\<lambda>_. Map.empty)" "SecurityCheckSets ctx = (\<lambda>_. [])"
    "CheckInstSets ctx = (\<lambda>_. {})" using g unfolding graph_context_def by blast+
  obtain H where a: "run (PointerAnalysisPass ir) Ms ctx =
      Inr (withAliasMaps ir (allFunctions ir Ms) (ctx\<lparr>FuncAAResults := H\<rparr>))"
    using PointerAnalysis_run [OF al, folded allFunctions_def] by blast
  let ?c = "withAliasMaps ir (allFunctions ir Ms) (ctx\<lparr>FuncAAResults := H\<rparr>)"
  have c: "Modules ?c = Ms" "UnifiedFuncSet ?c = UnifiedFuncSet ctx" "wf_flow ir ?c = wf_flow ir ctx"
    "graph_built ir Ms ?c = graph_built ir Ms ctx" "recorded_ok ?c" "SecurityCheckSets ?c = (\<lambda>_. [])"
    "FuncPAResults ?c = aliasMapsOver ir (allFunctions ir Ms) (\<lambda>_. Map.empty)"
    using f by (simp_all add: withAliasMaps_def M wf_flow_def wf_functions_def firstCallee_def graph_built_def recorded_ok_def)
  have "\<forall>F \<in> allFunctions ir Ms. analysed ir ?c F \<longrightarrow> wf_function ir ?c F"
    using graph_wf_functions [OF ok g] by (simp only: c(3) analysed_cong [OF c(2)])
  from SecurityChecks_run [OF this c(5), of files "{}"]
  obtain st where s: "run (SecurityChecksPass ir files) Ms (?c, {}) = Inr st" and p: "pass_ok ir ?c st"
    and fo: "found ir files ?c (allFunctions ir Ms) (fst st)"
    by (elim returnsE) (erule conjE)
  obtain ctx' Sel where st: "st = (ctx', Sel)" by fastforce
  have sg: "same_graph ?c ctx'" "recorded_ok ctx'" using p unfolding st fst_conv by - (elim conjE, assumption)+
  have m: "Modules ctx' = Ms" "FuncPAResults ctx' = FuncPAResults ?c" using sg(1) c(1) by (simp_all add: same_graph_def)
  have gb: "graph_built ir Ms ctx'" using g unfolding same_graph_built [OF sg(1)] c(4) graph_context_def by (elim conjE)
  have "run (MissingChecksPass ir ctx') Ms newMissingChecks = twoStages ir ctx' newMissingChecks"
    using run_twoStages [of ctx' newMissingChecks ir] Ms by (simp add: m newMissingChecks_def)
  then have "mainWorkflow ir files errfile False True (startContext Ms names) =
      rbind (twoStages ir ctx' newMissingChecks) (\<lambda>st. Inr (ctx', processResults ir st))"
    using a s by (simp add: mainWorkflow_def missingWorkflow_def b M c(1) m(1) st)
  moreover have "wf_values ir ctx'"
  proof -
    have "S \<subseteq> set (heap ir)" if "FuncPAResults ctx' F p = Some S" for F p S
    proof -
      have "F \<in> allFunctions ir Ms \<and> aliasMap ir F p = Some S"
        using that by (simp add: m(2) c(7) aliasMapsOver_def split: if_splits)
      then have "S \<subseteq> addresses ir F" "wf_addresses ir F"
        using al by (auto simp: aliasMap_def aliasSet_def wf_aliasing_def allFunctions_def split: if_splits)
      then show ?thesis by (auto simp: wf_addresses_def)
    qed
    then show ?thesis using wf unfolding wf_values_def by blast
  qed
  ultimately show ?thesis
    using gb sg(2) graph_wf_callers [OF ok gb] m c(7) recorded_conditions [OF p c(6)] recorded_handling [OF p fo]
    by (intro exI [of _ ctx']) (simp add: st)
qed

end
