(* ===== verification/MissingTotality.thy ===== *)
theory MissingTotality
  imports MissingCounts WorkflowTheorems
begin

text \<open>
  The missing-check pass is total and exact: both stages over all modules return, the first
  logs what \<open>MissingStages\<close> lists, the second counts what \<open>MissingCounts\<close> lists; and with the
  passes before it, so does \<open>main\<close> with \<open>-mc\<close>.
\<close>

section \<open>Stage 1 over all modules\<close>

text \<open>The comparisons among the security checks of a function, in the order of the set.\<close>

definition comparisons :: "llvm \<Rightarrow> gctx \<Rightarrow> ptr \<Rightarrow> ptr list" where
  "comparisons ir ctx F = filter (isa ir CmpInst) (sorted_list_of_set (CheckInstSets ctx F))"

definition recordedSources :: "llvm \<Rightarrow> gctx \<Rightarrow> ptr list \<Rightarrow> src_t list" where
  "recordedSources ir ctx Ms =
     concat (map (\<lambda>F. concat (map (checkSources ir ctx F) (comparisons ir ctx F)))
       (concat (map (analysedFunctions ir ctx) Ms)))"

definition recordedUses :: "llvm \<Rightarrow> gctx \<Rightarrow> ptr list \<Rightarrow> use_t list" where
  "recordedUses ir ctx Ms =
     concat (map (\<lambda>F. concat (map (checkUses ir ctx) (comparisons ir ctx F)))
       (concat (map (analysedFunctions ir ctx) Ms)))"

text \<open>The checks of the analysed functions are objects of the program.\<close>

definition checks_in_heap :: "llvm \<Rightarrow> gctx \<Rightarrow> ptr list \<Rightarrow> bool" where
  "checks_in_heap ir ctx Ms \<longleftrightarrow> (\<forall>M \<in> set Ms. \<forall>F \<in> set (moduleFunctions ir M). CheckInstSets ctx F \<subseteq> set (heap ir))"

lemma recordChecks_logs:
  assumes "wf_values ir ctx" "call_args_fit ir ctx" "CheckInstSets ctx F \<subseteq> set (heap ir)"
  shows "returns (recordChecks ir ctx F st) (logs
    (concat (map (checkSources ir ctx F) (comparisons ir ctx F))) (concat (map (checkUses ir ctx) (comparisons ir ctx F))) st)"
  unfolding recordChecks_def comparisons_def [symmetric]
proof (rule returns_foldM_logs, rule countSrcUseChecks_logs [OF assms(1,2)])
  fix SC assume SC: "SC \<in> set (comparisons ir ctx F)"
  have "finite (CheckInstSets ctx F)" using assms(3) by (rule finite_subset) simp
  then show "comparison ir SC" using SC assms(3) by (auto simp: comparisons_def comparison_def)
qed

text \<open>A step does not depend on the module index.\<close>

lemma check_step_MIdx: "check_step s t \<Longrightarrow> check_step (s\<lparr>MIdx := i\<rparr>) (t\<lparr>MIdx := i\<rparr>)"
proof (erule check_stepE)
  fix M Src assume "t = addSrcCheck Src M s" "mSrcUse M = fst Src"
  then have "t\<lparr>MIdx := i\<rparr> = addSrcCheck Src M (s\<lparr>MIdx := i\<rparr>)" by (simp add: addSrcCheck_def)
  then show ?thesis using check_step.src [OF \<open>mSrcUse M = fst Src\<close>] by simp
next
  fix M Use assume "t = addUseCheck Use M s" "mSrcUse M = fst Use"
  then have "t\<lparr>MIdx := i\<rparr> = addUseCheck Use M (s\<lparr>MIdx := i\<rparr>)" by (simp add: addUseCheck_def)
  then show ?thesis using check_step.use [OF \<open>mSrcUse M = fst Use\<close>] by simp
qed

lemma logs_MIdx: "logs S U s t \<Longrightarrow> logs S U (s\<lparr>MIdx := i\<rparr>) (t\<lparr>MIdx := i\<rparr>)"
proof -
  have "check_step\<^sup>*\<^sup>* (s\<lparr>MIdx := i\<rparr>) (t\<lparr>MIdx := i\<rparr>)" if "check_step\<^sup>*\<^sup>* s t"
    using that by (induction rule: rtranclp_induct) (auto dest: check_step_MIdx [of _ _ i])
  then show "logs S U s t \<Longrightarrow> logs S U (s\<lparr>MIdx := i\<rparr>) (t\<lparr>MIdx := i\<rparr>)" by (simp add: logs_def)
qed

text \<open>Recording over modules: the module index moves on as well.\<close>

definition logged :: "src_t list \<Rightarrow> use_t list \<Rightarrow> mc_state \<Rightarrow> mc_state \<Rightarrow> bool" where
  "logged S U st st' \<longleftrightarrow> logs S U (st\<lparr>MIdx := MIdx st'\<rparr>) st'"

lemma logged_trans:
  assumes "logged S U a b" "logged S' U' b c"
  shows "logged (S @ S') (U @ U') a c"
  using logs_trans [OF logs_MIdx [OF assms(1) [unfolded logged_def], of "MIdx c"] assms(2) [unfolded logged_def]]
  by (simp add: logged_def)

lemma overFunctions_logged:
  assumes wf: "wf_values ir ctx" "call_args_fit ir ctx" and M: "checks_in_heap ir ctx [M]"
  shows "returns (overFunctions (recordChecks ir ctx) ir ctx M st)
    (logged (recordedSources ir ctx [M]) (recordedUses ir ctx [M]) st)"
proof -
  have "returns (foldM (recordChecks ir ctx) (analysedFunctions ir ctx M) (st\<lparr>MIdx := MIdx st + 1\<rparr>))
    (logs (recordedSources ir ctx [M]) (recordedUses ir ctx [M]) (st\<lparr>MIdx := MIdx st + 1\<rparr>))"
    unfolding recordedSources_def recordedUses_def list.map concat.simps append_Nil2
    by (rule returns_foldM_logs, rule recordChecks_logs [OF wf])
       (use M in \<open>auto simp: analysedFunctions_def checks_in_heap_def\<close>)
  then show ?thesis
    unfolding overFunctions_def
  proof (rule returns_mono)
    fix t assume r: "logs (recordedSources ir ctx [M]) (recordedUses ir ctx [M]) (st\<lparr>MIdx := MIdx st + 1\<rparr>) t"
    then have "same_stage (st\<lparr>MIdx := MIdx st + 1\<rparr>) t" unfolding logs_def using check_steps_stage by blast
    then have "MIdx t = MIdx st + 1" by (simp add: same_stage_def)
    with r show "logged (recordedSources ir ctx [M]) (recordedUses ir ctx [M]) st t" by (simp add: logged_def)
  qed
qed

lemma sweep_logged:
  assumes wf: "wf_values ir ctx" "call_args_fit ir ctx" and Ms: "checks_in_heap ir ctx Ms"
  shows "returns (foldM (overFunctions (recordChecks ir ctx) ir ctx) Ms st)
    (logged (recordedSources ir ctx Ms) (recordedUses ir ctx Ms) st)"
  using Ms
proof (induction Ms arbitrary: st)
  case (Cons M Ms)
  have "returns (overFunctions (recordChecks ir ctx) ir ctx M st)
      (logged (recordedSources ir ctx [M]) (recordedUses ir ctx [M]) st)"
    by (rule overFunctions_logged [OF wf]) (use Cons.prems in \<open>simp add: checks_in_heap_def\<close>)
  then show ?case unfolding foldM.simps
  proof (rule returns_rbind)
    fix t assume t: "logged (recordedSources ir ctx [M]) (recordedUses ir ctx [M]) st t"
    have "returns (foldM (overFunctions (recordChecks ir ctx) ir ctx) Ms t)
        (logged (recordedSources ir ctx Ms) (recordedUses ir ctx Ms) t)"
      by (rule Cons.IH) (use Cons.prems in \<open>simp add: checks_in_heap_def\<close>)
    then show "returns (foldM (overFunctions (recordChecks ir ctx) ir ctx) Ms t)
        (logged (recordedSources ir ctx (M # Ms)) (recordedUses ir ctx (M # Ms)) st)"
      by (rule returns_mono) (use logged_trans [OF t] in \<open>simp add: recordedSources_def recordedUses_def\<close>)
  qed
qed (simp add: recordedSources_def recordedUses_def logged_def)

section \<open>Both stages\<close>

text \<open>What the results of the pass are, in terms of the program and the checks it recorded.\<close>

definition tallied :: "src_t list \<Rightarrow> use_t list \<Rightarrow> occurrence list \<Rightarrow> mc_state \<Rightarrow> bool" where
  "tallied S U xs st \<longleftrightarrow> CheckedSrcSet st = set S \<and> CheckedUseSet st = set U \<and>
     (\<forall>k. counter (SrcCheckCount st) k = of_nat (count_list S k) \<and>
        SrcTotalCount st k = of_nat (length (sourceVerdicts k xs)) \<and>
        counter (SrcUncheckCount st) k = of_nat (length (filter Not (sourceVerdicts k xs)))) \<and>
     (\<forall>k. counter (UseCheckCount st) k = of_nat (count_list U k) \<and>
        UseTotalCount st k = of_nat (length (useVerdicts k xs)) \<and>
        counter (UseUncheckCount st) k = of_nat (length (filter Not (useVerdicts k xs))))"

text \<open>Recording leaves the counters of stage 2 alone.\<close>

lemma check_steps_counts:
  "check_step\<^sup>*\<^sup>* s t \<Longrightarrow> SrcTotalCount t = SrcTotalCount s \<and> UseTotalCount t = UseTotalCount s \<and>
     SrcUncheckCount t = SrcUncheckCount s \<and> UseUncheckCount t = UseUncheckCount s"
  by (induction rule: rtranclp_induct) (auto elim!: check_stepE simp: addSrcCheck_def addUseCheck_def)

lemma callOccurrences_cong:
  assumes "same_db st s"
  shows "callOccurrences ir ctx s = callOccurrences ir ctx st"
proof -
  note c = checkedDownstream_cong [OF assms] isCheckedBackwardF_cong [OF assms]
  have d: "CheckedSrcSet s = CheckedSrcSet st" "CheckedUseSet s = CheckedUseSet st" using assms by (simp_all only: same_db_def)
  have "calleeOccurrence ir ctx s = calleeOccurrence ir ctx st"
    by (intro ext) (simp only: calleeOccurrence_def c)
  then have "indirectOccurrences ir ctx s = indirectOccurrences ir ctx st"
    by (intro ext) (simp only: indirectOccurrences_def d)
  moreover have "sourceOccurrence ir ctx s = sourceOccurrence ir ctx st"
    by (intro ext) (simp only: sourceOccurrence_def c d)
  moreover have "useOccurrence ir ctx s = useOccurrence ir ctx st"
    by (intro ext) (simp only: useOccurrence_def isCheckedBackward_def c d)
  ultimately show ?thesis by (intro ext) (simp only: callOccurrences_def)
qed

lemma moduleOccurrences_cong: "same_db st s \<Longrightarrow> moduleOccurrences ir ctx s = moduleOccurrences ir ctx st"
  by (intro ext) (simp only: moduleOccurrences_def functionOccurrences_def [abs_def] callOccurrences_cong)

lemma moduleOccurrences_ok: "x \<in> set (moduleOccurrences ir ctx st Ms) \<Longrightarrow> occ_ok st x"
  using functionOccurrences_ok by (auto simp: moduleOccurrences_def)

section \<open>One module, in any stage\<close>

text \<open>What a pass over modules adds to the data base: the checks it records and the occurrences it counts.\<close>

definition adds :: "src_t list \<Rightarrow> use_t list \<Rightarrow> occurrence list \<Rightarrow> mc_state \<Rightarrow> mc_state \<Rightarrow> bool" where
  "adds S U xs st st' \<longleftrightarrow>
     CheckedSrcSet st' = CheckedSrcSet st \<union> set S \<and> CheckedUseSet st' = CheckedUseSet st \<union> set U \<and>
     (\<forall>k. counter (SrcCheckCount st') k = counter (SrcCheckCount st) k + of_nat (count_list S k) \<and>
        SrcTotalCount st' k = SrcTotalCount st k + of_nat (length (sourceVerdicts k xs)) \<and>
        counter (SrcUncheckCount st') k =
          counter (SrcUncheckCount st) k + of_nat (length (filter Not (sourceVerdicts k xs)))) \<and>
     (\<forall>k. counter (UseCheckCount st') k = counter (UseCheckCount st) k + of_nat (count_list U k) \<and>
        UseTotalCount st' k = UseTotalCount st k + of_nat (length (useVerdicts k xs)) \<and>
        counter (UseUncheckCount st') k =
          counter (UseUncheckCount st) k + of_nat (length (filter Not (useVerdicts k xs))))"

lemma adds_record [simp]:
  "adds S U xs st (st'\<lparr>AnalysisStage := a\<rparr>) = adds S U xs st st'" "adds S U xs st (st'\<lparr>MIdx := i\<rparr>) = adds S U xs st st'"
  by (simp_all add: adds_def)

lemma no_verdicts [simp]: "sourceVerdicts k [] = []" "useVerdicts k [] = []"
  by (simp_all add: sourceVerdicts_def useVerdicts_def)

lemma adds_nothing [simp]: "adds [] [] [] st st"
  by (simp add: adds_def)

lemma logged_adds:
  assumes "logged S U st t"
  shows "adds S U [] st t"
proof -
  have "check_step\<^sup>*\<^sup>* (st\<lparr>MIdx := MIdx t\<rparr>) t" using assms unfolding logged_def logs_def by blast
  then show ?thesis
    using assms check_steps_counts [of "st\<lparr>MIdx := MIdx t\<rparr>" t] by (simp add: logged_def logs_def adds_def)
qed

lemma counting_adds:
  assumes "counting st (fold count_occ xs st)"
  shows "adds [] [] xs st (fold count_occ xs st)"
  using assms by (simp add: adds_def fold_count_totals same_db_def)

text \<open>The functions of a module, as the pass finds them.\<close>

definition wf_checked_module :: "llvm \<Rightarrow> gctx \<Rightarrow> ptr \<Rightarrow> bool" where
  "wf_checked_module ir ctx M \<longleftrightarrow> (\<forall>F \<in> set (moduleFunctions ir M).
     set (instructions ir F) \<subseteq> set (heap ir) \<and> CheckInstSets ctx F \<subseteq> set (heap ir))"

lemma missingFunctions_add:
  assumes wf: "wf_values ir ctx" "call_args_fit ir ctx" "wf_callers ir ctx" "wf_indirect ir ctx"
    and M: "wf_checked_module ir ctx M" and db: "db_ok st"
  shows "returns (foldM (missingFunction ir ctx) (moduleFunctions ir M) (st\<lparr>MIdx := MIdx st + 1\<rparr>)) (\<lambda>t. db_ok t \<and>
    adds (if AnalysisStage st = 1 then recordedSources ir ctx [M] else [])
      (if AnalysisStage st = 1 then recordedUses ir ctx [M] else [])
      (if AnalysisStage st = 2 then moduleOccurrences ir ctx st [M] else []) st t \<and>
    (AnalysisStage st \<noteq> 1 \<longrightarrow> SrcChecksMap t = SrcChecksMap st \<and> UseChecksMap t = UseChecksMap st))"
proof -
  consider (stage1) "AnalysisStage st = 1" | (stage2) "AnalysisStage st = 2"
    | (idle) "AnalysisStage st \<noteq> 1" "AnalysisStage st \<noteq> 2" by blast
  then show ?thesis
  proof cases
    case stage1
    have "checks_in_heap ir ctx [M]" using M by (simp add: wf_checked_module_def checks_in_heap_def)
    from overFunctions_logged [OF wf(1,2) this, of st]
    have "returns (overFunctions (recordChecks ir ctx) ir ctx M st)
      (\<lambda>t. db_ok t \<and> adds (recordedSources ir ctx [M]) (recordedUses ir ctx [M]) [] st t)"
    proof (rule returns_mono)
      fix t assume l: "logged (recordedSources ir ctx [M]) (recordedUses ir ctx [M]) st t"
      then have "check_step\<^sup>*\<^sup>* (st\<lparr>MIdx := MIdx t\<rparr>) t" unfolding logged_def logs_def by blast
      from check_steps_ok [OF this] db logged_adds [OF l]
      show "db_ok t \<and> adds (recordedSources ir ctx [M]) (recordedUses ir ctx [M]) [] st t" by simp
    qed
    moreover have "stageFunction ir ctx True = recordChecks ir ctx" by (simp add: stageFunction_def fun_eq_iff)
    ultimately show ?thesis using moduleStage [of st True ir ctx M] stage1 by simp
  next
    case stage2
    let ?xs = "moduleOccurrences ir ctx st [M]"
    have c: "counting st st" using db by (simp add: same_db_def)
    have "counting st (fold count_occ ?xs st)" by (rule fold_count_counting [OF moduleOccurrences_ok c])
    moreover have "overFunctions (countSrcUseUnchecks ir ctx) ir ctx M st = Inr ((fold count_occ ?xs st)\<lparr>MIdx := MIdx st + 1\<rparr>)"
      by (rule overFunctions_counts [OF wf(1,3,4) c]) (use M in \<open>simp add: wf_checked_module_def\<close>)
    moreover have "stageFunction ir ctx False = countSrcUseUnchecks ir ctx" by (simp add: stageFunction_def fun_eq_iff)
    ultimately show ?thesis
      using moduleStage [of st False ir ctx M] stage2 counting_adds by (simp add: same_db_def)
  next
    case idle
    have "foldM (missingFunction ir ctx) Fs s = Inr s" if "AnalysisStage s = AnalysisStage st" for Fs s
      using that idle by (induction Fs) (auto simp: missingFunction_def)
    then show ?thesis using idle db by simp
  qed
qed

lemma MissingChecks_module_adds:
  assumes wf: "wf_values ir ctx" "call_args_fit ir ctx" "wf_callers ir ctx" "wf_indirect ir ctx"
    and M: "wf_checked_module ir ctx M" and db: "db_ok st"
  shows "returns (MissingChecks_doModulePass ir ctx M st) (\<lambda>(again, st'). db_ok st' \<and>
    adds (if AnalysisStage st = 1 then recordedSources ir ctx [M] else [])
      (if AnalysisStage st = 1 then recordedUses ir ctx [M] else [])
      (if AnalysisStage st = 2 then moduleOccurrences ir ctx st [M] else []) st st' \<and>
    (AnalysisStage st \<noteq> 1 \<longrightarrow> SrcChecksMap st' = SrcChecksMap st \<and> UseChecksMap st' = UseChecksMap st))"
  unfolding MissingChecks_doModulePass_def
proof (rule returns_rbind [OF missingFunctions_add [OF assms]], elim conjE)
  fix t
  assume "db_ok t" "adds (if AnalysisStage st = 1 then recordedSources ir ctx [M] else [])
      (if AnalysisStage st = 1 then recordedUses ir ctx [M] else [])
      (if AnalysisStage st = 2 then moduleOccurrences ir ctx st [M] else []) st t"
    and "AnalysisStage st \<noteq> 1 \<longrightarrow> SrcChecksMap t = SrcChecksMap st \<and> UseChecksMap t = UseChecksMap st"
  then show "returns (Inr (endOfStage ctx t)) (\<lambda>(again, st'). db_ok st' \<and>
    adds (if AnalysisStage st = 1 then recordedSources ir ctx [M] else [])
      (if AnalysisStage st = 1 then recordedUses ir ctx [M] else [])
      (if AnalysisStage st = 2 then moduleOccurrences ir ctx st [M] else []) st st' \<and>
    (AnalysisStage st \<noteq> 1 \<longrightarrow> SrcChecksMap st' = SrcChecksMap st \<and> UseChecksMap st' = UseChecksMap st))"
    by (cases "endOfStage ctx t") (auto dest!: endOfStage_fields)
qed

section \<open>The run of the pass\<close>

lemma twoStages_tallies:
  assumes wf: "wf_values ir ctx" "call_args_fit ir ctx" "wf_callers ir ctx" "wf_indirect ir ctx"
    and Ms: "checks_in_heap ir ctx (Modules ctx)"
      "\<forall>M \<in> set (Modules ctx). \<forall>F \<in> set (moduleFunctions ir M). set (instructions ir F) \<subseteq> set (heap ir)"
  shows "returns (twoStages ir ctx newMissingChecks) (\<lambda>st. db_ok st \<and>
    tallied (recordedSources ir ctx (Modules ctx)) (recordedUses ir ctx (Modules ctx))
      (moduleOccurrences ir ctx st (Modules ctx)) st)"
proof -
  let ?S = "recordedSources ir ctx (Modules ctx)" and ?U = "recordedUses ir ctx (Modules ctx)"
  obtain t where t: "foldM (overFunctions (recordChecks ir ctx) ir ctx) (Modules ctx) newMissingChecks = Inr t"
    and l: "logs ?S ?U (newMissingChecks\<lparr>MIdx := MIdx t\<rparr>) t"
    using sweep_logged [OF wf(1,2) Ms(1), of newMissingChecks] unfolding logged_def by (elim returnsE)
  have steps: "check_step\<^sup>*\<^sup>* (newMissingChecks\<lparr>MIdx := MIdx t\<rparr>) t" using l unfolding logs_def by blast
  let ?t = "t\<lparr>AnalysisStage := 2, MIdx := 0\<rparr>"
  let ?xs = "moduleOccurrences ir ctx t (Modules ctx)"
  have ok: "db_ok ?t" using check_steps_ok [OF steps] db_ok_new by simp
  have c: "counting t ?t" using ok by (simp add: same_db_def)
  obtain i where i: "foldM (overFunctions (countSrcUseUnchecks ir ctx) ir ctx) (Modules ctx) ?t =
      Inr ((fold count_occ ?xs ?t)\<lparr>MIdx := i\<rparr>)"
    using sweep_counts [OF wf(1,3,4) c Ms(2)] by blast
  let ?u = "fold count_occ ?xs ?t"
  have u: "counting t ?u" by (rule fold_count_counting [OF moduleOccurrences_ok c])
  let ?st = "?u\<lparr>AnalysisStage := 3, MIdx := 0\<rparr>"
  have xs: "moduleOccurrences ir ctx ?st (Modules ctx) = ?xs"
    by (rule fun_cong [OF moduleOccurrences_cong]) (use u in \<open>simp add: same_db_def\<close>)
  have r: "twoStages ir ctx newMissingChecks = Inr ?st" by (simp add: twoStages_def t i)
  show ?thesis unfolding r returns_Inr xs
    using l u check_steps_counts [OF steps]
    by (simp add: tallied_def logs_def fold_count_totals same_db_def newMissingChecks_def counter_def [of Map.empty])
qed

section \<open>The workflow\<close>

text \<open>
  What the missing-check pass assumes of the program beyond the other passes: conditions,
  arguments and blocks are objects of it; a call that uses an aliased address has between 1 and 128
  arguments (\<open>call_args_fit\<close>, which reads no part of the context but the alias maps); and
  no function with a body that an indirect call can reach by its type has fewer parameters than
  the call passes arguments, as a variadic function would.
\<close>

definition wf_missing :: "llvm \<Rightarrow> ptr list \<Rightarrow> bool" where
  "wf_missing ir Ms \<longleftrightarrow>
     call_args_fit ir (newGlobalContext\<lparr>FuncPAResults := aliasMapsOver ir (allFunctions ir Ms) (\<lambda>_. Map.empty)\<rparr>) \<and>
     (\<forall>I \<in> set (heap ir). conditional ir I \<longrightarrow> condition ir I \<in> insert NULL (set (heap ir))) \<and>
     (\<forall>F \<in> allFunctions ir Ms. set (args ir F) \<subseteq> set (heap ir) \<and> set (blocks ir F) \<subseteq> set (heap ir)) \<and>
     (\<forall>CI \<in> set (heap ir). isa ir CallInst CI \<and> isIndirectCall ir CI \<longrightarrow>
        (\<forall>F \<in> typeCandidates ir (allFunctions ir Ms) (callHash ir CI). length (argOperands ir CI) \<le> length (args ir F)))"

lemma wf_missingD:
  assumes "wf_missing ir Ms"
  shows "call_args_fit ir (newGlobalContext\<lparr>FuncPAResults := aliasMapsOver ir (allFunctions ir Ms) (\<lambda>_. Map.empty)\<rparr>)"
    and "I \<in> set (heap ir) \<Longrightarrow> conditional ir I \<Longrightarrow> condition ir I \<in> insert NULL (set (heap ir))"
    and "F \<in> allFunctions ir Ms \<Longrightarrow> set (args ir F) \<subseteq> set (heap ir)"
    and "F \<in> allFunctions ir Ms \<Longrightarrow> set (blocks ir F) \<subseteq> set (heap ir)"
    and "CI \<in> set (heap ir) \<Longrightarrow> isa ir CallInst CI \<Longrightarrow> isIndirectCall ir CI \<Longrightarrow>
      F \<in> typeCandidates ir (allFunctions ir Ms) (callHash ir CI) \<Longrightarrow> length (argOperands ir CI) \<le> length (args ir F)"
  using assms unfolding wf_missing_def by blast+

lemma call_args_fit_cong: "FuncPAResults ctx = FuncPAResults ctx' \<Longrightarrow> call_args_fit ir ctx = call_args_fit ir ctx'"
  by (simp add: call_args_fit_def aliasList_def)

lemma graph_wf_indirect:
  assumes ok: "program_ok ir Ms" and m: "wf_missing ir Ms" and g: "graph_built ir Ms ctx"
  shows "wf_indirect ir ctx"
  unfolding wf_indirect_def
proof (intro ballI impI)
  fix CI Callee
  assume CI: "CI \<in> set (heap ir)" "isa ir CallInst CI \<and> isIndirectCall ir CI"
    and o: "Callee \<in> set (smallSetOrder ir (Callees ctx CI))" and b: "blocks ir Callee \<noteq> []"
  have c: "Callees ctx CI \<subseteq> allFunctions ir Ms" "Callees ctx CI \<subseteq> typeCandidates ir (allFunctions ir Ms) (callHash ir CI)"
    using g CI unfolding graph_built_def by blast+
  have "finite (Callees ctx CI)"
    by (rule finite_subset [OF order_trans [OF c(1) program_okD(5) [OF ok]]]) simp
  then have Callee: "Callee \<in> Callees ctx CI" using o wf_graphD(3) [OF program_okD(1) [OF ok]] by blast
  have "hd (blocks ir Callee) \<in> set (blocks ir Callee)" using b by (rule hd_in_set)
  then show "hd (blocks ir Callee) \<in> set (heap ir) \<and> set (args ir Callee) \<subseteq> set (heap ir) \<and>
      length (argOperands ir CI) \<le> length (args ir Callee)"
    using c Callee CI wf_missingD(3-5) [OF m] by blast
qed

lemma conditions_heap:
  assumes ok: "program_ok ir Ms" and m: "wf_missing ir Ms" and c: "\<forall>F. CheckInstSets ctx F \<subseteq> conditionsOf ir F"
  shows "checks_in_heap ir ctx Ms"
  unfolding checks_in_heap_def
proof (intro ballI subsetI)
  fix M F V assume F: "M \<in> set Ms" "F \<in> set (moduleFunctions ir M)" and V: "V \<in> CheckInstSets ctx F"
  have "set (instructions ir F) \<subseteq> set (heap ir)"
    using program_okD(4) [OF ok] F unfolding wf_module_def by blast
  moreover obtain I where "I \<in> set (instructions ir F)" "conditional ir I" "condition ir I \<noteq> NULL" "V = condition ir I"
    using V c unfolding conditionsOf_def by blast
  ultimately show "V \<in> set (heap ir)" using wf_missingD(2) [OF m, of I] by auto
qed

theorem mainWorkflow_mc_tallies:
  assumes ok: "program_ok ir Ms" and al: "wf_aliasing ir Ms" and wf: "wf_values ir newGlobalContext"
    and m: "wf_missing ir Ms" and Ms: "Ms \<noteq> []" "length Ms < 2 ^ 31"
  shows "returns (mainWorkflow ir files errfile False True (startContext Ms names)) (\<lambda>(ctx, reports).
    graph_built ir Ms ctx \<and> recorded_ok ctx \<and> Modules ctx = Ms \<and>
    (\<forall>F. CheckInstSets ctx F \<subseteq> conditionsOf ir F) \<and>
    (\<forall>F \<in> allFunctions ir Ms. analysed ir ctx F \<longrightarrow> handlingConditions ir files ctx F \<subseteq> CheckInstSets ctx F) \<and>
    FuncPAResults ctx = aliasMapsOver ir (allFunctions ir Ms) (\<lambda>_. Map.empty) \<and>
    (\<exists>st. reports = processResults ir st \<and> db_ok st \<and>
       tallied (recordedSources ir ctx Ms) (recordedUses ir ctx Ms) (moduleOccurrences ir ctx st Ms) st))"
proof -
  obtain ctx where r: "mainWorkflow ir files errfile False True (startContext Ms names) =
      rbind (twoStages ir ctx newMissingChecks) (\<lambda>st. Inr (ctx, processResults ir st))"
    and g: "graph_built ir Ms ctx" "recorded_ok ctx" "\<forall>F. CheckInstSets ctx F \<subseteq> conditionsOf ir F"
      "\<forall>F \<in> allFunctions ir Ms. analysed ir ctx F \<longrightarrow> handlingConditions ir files ctx F \<subseteq> CheckInstSets ctx F"
      "wf_values ir ctx" "wf_callers ir ctx" "Modules ctx = Ms"
      "FuncPAResults ctx = aliasMapsOver ir (allFunctions ir Ms) (\<lambda>_. Map.empty)"
    using mainWorkflow_mc [OF ok al wf Ms, of files errfile names] by (elim exE conjE)
  have "call_args_fit ir ctx"
    using wf_missingD(1) [OF m] by (rule iffD1 [OF call_args_fit_cong, rotated]) (simp add: g(8))
  moreover have "\<forall>M \<in> set (Modules ctx). \<forall>F \<in> set (moduleFunctions ir M). set (instructions ir F) \<subseteq> set (heap ir)"
    using program_okD(4) [OF ok] unfolding g(7) wf_module_def by blast
  ultimately have "returns (twoStages ir ctx newMissingChecks) (\<lambda>st. db_ok st \<and>
      tallied (recordedSources ir ctx Ms) (recordedUses ir ctx Ms) (moduleOccurrences ir ctx st Ms) st)"
    using twoStages_tallies [OF g(5) _ g(6) graph_wf_indirect [OF ok m g(1)]] conditions_heap [OF ok m g(3)]
    by (simp add: g(7))
  then obtain st where "twoStages ir ctx newMissingChecks = Inr st" "db_ok st"
    "tallied (recordedSources ir ctx Ms) (recordedUses ir ctx Ms) (moduleOccurrences ir ctx st Ms) st"
    by (elim returnsE conjE)
  then show ?thesis using g by (auto simp: r)
qed

end
