(* ===== verification/BackwardTheorems.thy ===== *)
theory BackwardTheorems
  imports DataFlowTheorems
begin

text \<open>
  \<open>performBackwardAnalysis\<close> keeps no set of visited values: only loads are remembered. It returns
  where the operands it follows between two loads form no cycle, and never returns on a cycle.
\<close>

text \<open>The operands the analysis follows from a value, loads aside.\<close>

definition walkOperands :: "llvm \<Rightarrow> ptr \<Rightarrow> ptr set" where
  "walkOperands ir V =
     (if isa ir CallInst V \<or> isa ir Constant V \<or> isa ir Argument V \<or> isa ir LoadInst V then {}
      else case backwardOperands ir V of Inr ops \<Rightarrow> set ops | Inl e \<Rightarrow> {})"

lemma backwardOperands_returns:
  assumes wfv: "wf_values ir ctx" and V: "V \<in> set (heap ir)"
  shows "returns (backwardOperands ir V) (\<lambda>ops. set ops \<subseteq> set (heap ir))"
proof -
  note wf = wf_valuesD(1) [OF wfv] and cl = wf_valuesD(2) [OF wfv]
  note h = wf_heapD [OF wf V] and o = wf_operandsD [OF wfv V]
  have cmp: "isa ir CmpInst V" if "isa ir ICmpInst V \<or> isa ir FCmpInst V"
    using that spec [OF cl [unfolded wf_classes_def], of V] by blast
  have op: "operands ir V ! n \<in> set (heap ir)" if "n < length (operands ir V)" for n
    using h(2) that by (auto dest: nth_mem)
  have pair: "1 < length (operands ir V) \<and> 0 < length (operands ir V)"
    if "isa ir BinaryOperator V \<or> isa ir ICmpInst V \<or> isa ir FCmpInst V"
    using that o(2) cmp by force
  consider (un) "isa ir UnaryInstruction V"
    | (two) "\<not> isa ir UnaryInstruction V" "isa ir BinaryOperator V \<or> isa ir ICmpInst V \<or> isa ir FCmpInst V"
    | (other) "\<not> isa ir UnaryInstruction V" "\<not> (isa ir BinaryOperator V \<or> isa ir ICmpInst V \<or> isa ir FCmpInst V)"
    by blast
  then show ?thesis
  proof cases
    case un
    then have "0 < length (operands ir V)" using o(1) by blast
    then show ?thesis using un op by (simp add: backwardOperands_def getOperand_Inr)
  next
    case two
    then show ?thesis
      using op pair [OF two(2)]
      by (simp add: backwardOperands_def getOperand_Inr)
  next
    case other
    then show ?thesis using h by (simp add: backwardOperands_def)
  qed
qed

lemma storedValues_returns:
  assumes wfv: "wf_values ir ctx" and Is: "set (instructions ir F) \<subseteq> set (heap ir)"
    and ld: "isa ir LoadInst LI"
  shows "returns (storedValues ir F LI) (\<lambda>vs. set vs \<subseteq> set (heap ir))"
proof -
  note wf = wf_valuesD(1) [OF wfv] and cl = wf_valuesD(2) [OF wfv]
  have one: "returns (possibleUseStResult ir LI SI) (\<lambda>_. True)"
    if "isa ir StoreInst SI" "SI \<in> set (heap ir)" for SI
  proof -
    have "getParent ir SI \<in> set (heap ir)" using wf_heapD(7) [OF wf that(2)] wf_classesD(7) [OF cl that(1)] by blast
    moreover have "LI \<noteq> SI"
      using wf_valuesD_class [OF wfv that(1), of UnaryInstruction] wf_classesD(3) [OF cl ld]
      by (auto simp: value_classes_def)
    ultimately show ?thesis using possibleUseStResult_cases [OF wf] by (simp add: returns_iff)
  qed
  have "returns (concatM (\<lambda>SI.
       if \<not> isa ir StoreInst SI then Inr []
       else rbind (possibleUseStResult ir LI SI) (\<lambda>possible.
         if \<not> possible then Inr []
         else if pointerOperand ir SI \<noteq> pointerOperand ir LI then Inr []
         else Inr [valueOperand ir SI])) xs) (\<lambda>vs. set vs \<subseteq> set (heap ir))"
    if "set xs \<subseteq> set (heap ir)" for xs
    using that
  proof (induction xs)
    case (Cons SI xs)
    have SI: "SI \<in> set (heap ir)" using Cons.prems by simp
    show ?case
    proof (cases "isa ir StoreInst SI")
      case True
      then obtain b where "possibleUseStResult ir LI SI = Inr b" using one [OF True SI] by (elim returnsE)
      then show ?thesis
        using Cons wf_heapD(9) [OF wf SI True] by (auto simp: True returns_iff)
    qed (use Cons in \<open>auto simp: returns_iff\<close>)
  qed simp
  from this [OF Is] show ?thesis unfolding storedValues_def .
qed

text \<open>A walk over operands that form no cycle; the loads it passes are remembered.\<close>

definition wf_walk :: "llvm \<Rightarrow> gctx \<Rightarrow> ptr \<Rightarrow> bool" where
  "wf_walk ir ctx F \<longleftrightarrow> wf_values ir ctx \<and> set (instructions ir F) \<subseteq> set (heap ir) \<and>
     acyclic {(a, b). b \<in> walkOperands ir a}"

definition walked :: "llvm \<Rightarrow> backward_state \<Rightarrow> backward_state \<Rightarrow> bool" where
  "walked ir s s' \<longleftrightarrow> fst s \<subseteq> fst s' \<and> snd s \<subseteq> snd s' \<and> (\<forall>c \<in> snd s' - snd s. isa ir CallInst c)"

lemma walked_refl [simp]: "walked ir s s"
  by (simp add: walked_def)

lemma walked_trans: "walked ir s s' \<Longrightarrow> walked ir s' s'' \<Longrightarrow> walked ir s s''"
  unfolding walked_def by (elim conjE, intro conjI) blast+

lemma walkOperands_heap: "wf_values ir ctx \<Longrightarrow> V \<in> set (heap ir) \<Longrightarrow> walkOperands ir V \<subseteq> set (heap ir)"
  by (auto simp: walkOperands_def elim!: returnsE [OF backwardOperands_returns])

lemma walk_reach_heap:
  assumes "wf_values ir ctx" "V \<in> set (heap ir)"
  shows "reach_set (walkOperands ir) {V} \<subseteq> set (heap ir)"
  by (rule reach_set_least) (use assms walkOperands_heap [OF assms(1)] in simp_all)

lemma performBackward_operands:
  assumes "\<And>s. walked ir s0 s \<Longrightarrow> walked ir s0 s"
    and step: "\<And>op s. op \<in> set ops \<Longrightarrow> walked ir s0 s \<Longrightarrow> returns (f op s) (walked ir s)"
  shows "returns (foldM f ops s0) (walked ir s0)"
proof (rule returns_foldM)
  show "returns (f op s) (walked ir s0)" if "op \<in> set ops" "walked ir s0 s" for op s
    by (rule returns_mono [OF step [OF that]]) (rule walked_trans [OF that(2)])
qed simp

lemma one_less_budget: "a \<le> c - 1 \<Longrightarrow> 0 < c \<Longrightarrow> a * k + k \<le> c * (k :: nat)"
  using mult_le_mono1 [of "Suc a" c k] by (simp add: add.commute)

lemma performBackwardAnalysisF_returns:
  assumes wf: "wf_walk ir ctx F"
  shows "V \<in> set (heap ir) \<Longrightarrow>
    card (set (heap ir) - fst s) * search_fuel ir + card (reach_set (walkOperands ir) {V}) \<le> n \<Longrightarrow>
    returns (performBackwardAnalysisF ir F n V s) (walked ir s)"
proof (induction n arbitrary: V s)
  case 0
  have wfv: "wf_values ir ctx" using wf by (simp add: wf_walk_def)
  have "0 < card (reach_set (walkOperands ir) {V})"
    by (rule reach_card_pos) (rule finite_subset [OF walk_reach_heap [OF wfv 0(1)]], simp)
  with 0(2) show ?case by simp
next
  case (Suc n)
  have wfv: "wf_values ir ctx" and Is: "set (instructions ir F) \<subseteq> set (heap ir)"
    and ac: "acyclic {(a, b). b \<in> walkOperands ir a}"
    using wf by (simp_all add: wf_walk_def)
  note V = Suc.prems(1)
  have fin: "finite (reach_set (walkOperands ir) {W})" if "W \<in> set (heap ir)" for W
    by (rule finite_subset [OF walk_reach_heap [OF wfv that]]) simp
  have small: "card (reach_set (walkOperands ir) {W}) < search_fuel ir" if "W \<in> set (heap ir)" for W
    using card_mono [OF _ walk_reach_heap [OF wfv that]] heap_fuel [of ir] by simp
  obtain LPSet CISet where s: "s = (LPSet, CISet)" by (cases s)
  show ?case
  proof (cases "isa ir CallInst V \<or> isa ir Constant V \<or> isa ir Argument V")
    case True
    then show ?thesis by (auto simp: s walked_def)
  next
    case leaf: False
    show ?thesis
    proof (cases "isa ir LoadInst V")
      case ld: True
      let ?p = "pointerOperand ir V"
      have p: "?p \<in> set (heap ir)" using wf_heapD(8) [OF wf_valuesD(1) [OF wfv] V] ld by simp
      show ?thesis
      proof (cases "?p \<in> LPSet")
        case True
        then show ?thesis using leaf ld by (simp add: s)
      next
        case False
        have c: "card (set (heap ir) - insert ?p LPSet) = card (set (heap ir) - LPSet) - 1"
          by (rule card_Diff_insert [OF p False])
        have pos: "0 < card (set (heap ir) - LPSet)"
          using DiffI [OF p False] by (auto simp only: card_gt_0_iff finite_Diff finite_set)
        have K: "card (set (heap ir) - LPSet) * search_fuel ir \<le> n"
          using Suc.prems(2) reach_card_pos [OF fin [OF V]] by (simp add: s)
        obtain vs where vs: "storedValues ir F V = Inr vs" "set vs \<subseteq> set (heap ir)"
          using storedValues_returns [OF wfv Is ld] by (elim returnsE)
        have "returns (foldM (performBackwardAnalysisF ir F n) vs (insert ?p LPSet, CISet))
            (walked ir (insert ?p LPSet, CISet))"
        proof (rule performBackward_operands)
          fix v s' assume v: "v \<in> set vs" and w: "walked ir (insert ?p LPSet, CISet) s'"
          have "card (set (heap ir) - fst s') \<le> card (set (heap ir) - LPSet) - 1"
            unfolding c [symmetric] using w by (intro card_mono) (auto simp: walked_def)
          then have "card (set (heap ir) - fst s') * search_fuel ir + search_fuel ir \<le>
              card (set (heap ir) - LPSet) * search_fuel ir"
            using pos by (rule one_less_budget)
          then show "returns (performBackwardAnalysisF ir F n v s') (walked ir s')"
            using K small [OF subsetD [OF vs(2) v]] by (intro Suc.IH [OF subsetD [OF vs(2) v]]) linarith
        qed simp
        then show ?thesis
          using leaf ld False by (auto simp: s vs(1) walked_def elim!: returns_mono)
      qed
    next
      case False
      obtain ops where ops: "backwardOperands ir V = Inr ops" "set ops \<subseteq> set (heap ir)"
        using backwardOperands_returns [OF wfv V] by (elim returnsE)
      have wo: "walkOperands ir V = set ops" using leaf False by (simp add: walkOperands_def ops(1))
      have "returns (foldM (performBackwardAnalysisF ir F n) ops s) (walked ir s)"
      proof (rule performBackward_operands)
        fix v s' assume v: "v \<in> set ops" and w: "walked ir s s'"
        have vh: "v \<in> set (heap ir)" using v ops(2) by blast
        have "card (set (heap ir) - fst s') \<le> card (set (heap ir) - fst s)"
          using w by (intro card_mono) (auto simp: walked_def)
        then have "card (set (heap ir) - fst s') * search_fuel ir \<le> card (set (heap ir) - fst s) * search_fuel ir"
          by (rule mult_le_mono1)
        moreover have "card (reach_set (walkOperands ir) {v}) < card (reach_set (walkOperands ir) {V})"
          using v by (intro psubset_card_mono fin V reach_set_shrinks ac) (simp add: wo)
        ultimately show "returns (performBackwardAnalysisF ir F n v s') (walked ir s')"
          using Suc.prems(2) by (intro Suc.IH [OF vh]) linarith
      qed simp
      then show ?thesis using leaf False by (simp add: s ops(1))
    qed
  qed
qed

lemma performBackwardAnalysis_walks:
  assumes "wf_walk ir ctx F" "V \<in> set (heap ir)"
  shows "returns (performBackwardAnalysis ir F V s) (walked ir s)"
proof -
  have wfv: "wf_values ir ctx" using assms(1) by (simp add: wf_walk_def)
  have 1: "card (reach_set (walkOperands ir) {V}) < search_fuel ir"
    using card_mono [OF _ walk_reach_heap [OF wfv assms(2)]] heap_fuel [of ir] by simp
  have "card (set (heap ir) - fst s) \<le> card (set (heap ir))" by (rule card_mono) auto
  then have "Suc (card (set (heap ir) - fst s)) \<le> search_fuel ir" using heap_fuel [of ir] by simp
  from mult_le_mono1 [OF this, of "search_fuel ir"] 1 show ?thesis
    unfolding performBackwardAnalysis_def
    by (intro performBackwardAnalysisF_returns [OF assms]) simp
qed

text \<open>On a cycle of operands no amount of fuel is enough.\<close>

lemma foldM_not_Inr:
  "x \<in> set xs \<Longrightarrow> (\<And>s r. f x s \<noteq> Inr r) \<Longrightarrow> foldM f xs s \<noteq> Inr r"
  by (induction xs arbitrary: s) (auto simp: rbind_Inr_iff)

lemma performBackwardAnalysisF_cycle:
  assumes "\<And>V. V \<in> C \<Longrightarrow> walkOperands ir V \<inter> C \<noteq> {}"
  shows "V \<in> C \<Longrightarrow> performBackwardAnalysisF ir F n V s \<noteq> Inr r"
proof (induction n arbitrary: V s r)
  case (Suc n)
  obtain W where W: "W \<in> walkOperands ir V" "W \<in> C" using assms [OF Suc.prems] by blast
  then obtain ops where leaf: "\<not> (isa ir CallInst V \<or> isa ir Constant V \<or> isa ir Argument V \<or> isa ir LoadInst V)"
    and ops: "backwardOperands ir V = Inr ops" "W \<in> set ops"
    by (auto simp: walkOperands_def split: if_splits sum.splits)
  have "foldM (performBackwardAnalysisF ir F n) ops s \<noteq> Inr r"
    by (rule foldM_not_Inr [OF ops(2)]) (rule Suc.IH [OF W(2)])
  then show ?case using leaf ops(1) by (cases s) simp
qed simp

end
