(* ===== verification/FlowSamples.thy ===== *)
theory FlowSamples
  imports Samples MissingChecksPass
begin

text \<open>
  A second concrete program, with memory, arguments and a checked call, on which the data-flow
  and missing-check properties are instantiated:

  \<^verbatim>\<open>
  fn(100) (arg 60):               objects
   10: a30 = alloca               40 = @get (arg 62), 41 = @put (arg 61), 51 = i64 0
       s31 = store 60, a30
       x32 = load a30
       c33 = call get(x32)
       i34 = icmp eq c33, 51
       t20 = br i34, 11, 12
   11: c35 = call put(c33)
       t21 = br 12
   12: t22 = ret
  \<close>
\<close>

definition flow_classes :: "llvm_class \<Rightarrow> nat list" where
  "flow_classes k = (case k of
     Instruction \<Rightarrow> [20, 21, 22, 30, 31, 32, 33, 34, 35]
   | UnaryInstruction \<Rightarrow> [30, 32] | AllocaInst \<Rightarrow> [30] | StoreInst \<Rightarrow> [31] | LoadInst \<Rightarrow> [32]
   | CallInst \<Rightarrow> [33, 35] | ICmpInst \<Rightarrow> [34] | CmpInst \<Rightarrow> [34]
   | BranchInst \<Rightarrow> [20, 21] | ReturnInst \<Rightarrow> [22] | Argument \<Rightarrow> [60, 61, 62]
   | Constant \<Rightarrow> [40, 41, 51] | ConstantInt \<Rightarrow> [51] | FunctionValue \<Rightarrow> [40, 41]
   | _ \<Rightarrow> [])"

definition flow_ir :: llvm where
  "flow_ir = empty_ir
     \<lparr> isa := (\<lambda>k v. v \<in> set (flow_classes k)),
       users := look [] [(30, [32, 31]), (32, [33]), (33, [35, 34]), (34, [20]), (40, [33]), (41, [35]), (51, [34, 30]), (60, [31])],
       operands := look [] [(20, [34]), (30, [51]), (31, [60, 30]), (32, [30]), (33, [32, 40]), (34, [33, 51]), (35, [33, 41])],
       nameOf := look [] [(40, ''get''), (41, ''put'')],
       getParent := look NULL [(30, 10), (31, 10), (32, 10), (33, 10), (34, 10), (20, 10), (35, 11), (21, 11), (22, 12)],
       pointerOperand := look NULL [(31, 30), (32, 30)],
       valueOperand := look NULL [(31, 60)],
       condition := look NULL [(20, 34)],
       argOperands := look [] [(33, [32]), (35, [33])],
       calledValue := look NULL [(33, 40), (35, 41)],
       calledFunction := look NULL [(33, 40), (35, 41)],
       predicate := look P_ICMP_EQ [],
       succs := look [] [(20, [11, 12]), (21, [12])],
       insts := look [] [(10, [30, 31, 32, 33, 34, 20]), (11, [35, 21]), (12, [22])],
       terminator := look NULL [(10, 20), (11, 21), (12, 22)],
       predecessors := look [] [(11, [10]), (12, [10, 11])],
       blockParent := look NULL [(10, 100), (11, 100), (12, 100)],
       blocks := look [] [(100, [10, 11, 12])],
       args := look [] [(40, [62]), (41, [61]), (100, [60])],
       argParent := look NULL [(60, 100), (61, 41), (62, 40)],
       isDeclaration := (\<lambda>F. F \<noteq> 100),
       moduleFunctions := look [] [(200, [100, 40, 41])],
       strHash := (\<lambda>s. of_nat (length s)),
       heap := [100, 10, 11, 12, 20, 21, 22, 30, 31, 32, 33, 34, 35, 40, 41, 51, 60, 61, 62] \<rparr>"

lemma flow_fields:
  "isa flow_ir k v = (v \<in> set (flow_classes k))"
  "users flow_ir = look [] [(30, [32, 31]), (32, [33]), (33, [35, 34]), (34, [20]), (40, [33]), (41, [35]), (51, [34, 30]), (60, [31])]"
  "operands flow_ir = look [] [(20, [34]), (30, [51]), (31, [60, 30]), (32, [30]), (33, [32, 40]), (34, [33, 51]), (35, [33, 41])]"
  "typeOf flow_ir = (\<lambda>_. NULL)"
  "nameOf flow_ir = look [] [(40, ''get''), (41, ''put'')]"
  "hasName flow_ir = (\<lambda>_. False)"
  "getParent flow_ir = look NULL [(30, 10), (31, 10), (32, 10), (33, 10), (34, 10), (20, 10), (35, 11), (21, 11), (22, 12)]"
  "pointerOperand flow_ir = look NULL [(31, 30), (32, 30)]"
  "valueOperand flow_ir = look NULL [(31, 60)]"
  "condition flow_ir = look NULL [(20, 34)]"
  "trueValue flow_ir = (\<lambda>_. NULL)"
  "falseValue flow_ir = (\<lambda>_. NULL)"
  "incoming flow_ir = (\<lambda>_. [])"
  "argOperands flow_ir = look [] [(33, [32]), (35, [33])]"
  "calledValue flow_ir = look NULL [(33, 40), (35, 41)]"
  "calledFunction flow_ir = look NULL [(33, 40), (35, 41)]"
  "isIndirectCall flow_ir = (\<lambda>_. False)"
  "intrinsicID flow_ir = (\<lambda>_. 0)"
  "predicate flow_ir = look P_ICMP_EQ []"
  "returnValue flow_ir = (\<lambda>_. NULL)"
  "succs flow_ir = look [] [(20, [11, 12]), (21, [12])]"
  "sextValue flow_ir = (\<lambda>_. 0)"
  "asmString flow_ir = (\<lambda>_. [])"
  "dbgMetadata flow_ir = (\<lambda>_. NULL)"
  "diFilename flow_ir = (\<lambda>_. [])"
  "diLine flow_ir = (\<lambda>_. 0)"
  "subprogram flow_ir = (\<lambda>_. NULL)"
  "insts flow_ir = look [] [(10, [30, 31, 32, 33, 34, 20]), (11, [35, 21]), (12, [22])]"
  "terminator flow_ir = look NULL [(10, 20), (11, 21), (12, 22)]"
  "predecessors flow_ir = look [] [(11, [10]), (12, [10, 11])]"
  "blockParent flow_ir = look NULL [(10, 100), (11, 100), (12, 100)]"
  "blocks flow_ir = look [] [(100, [10, 11, 12])]"
  "args flow_ir = look [] [(40, [62]), (41, [61]), (100, [60])]"
  "argParent flow_ir = look NULL [(60, 100), (61, 41), (62, 40)]"
  "functionType flow_ir = (\<lambda>_. NULL)"
  "returnType flow_ir = (\<lambda>_. NULL)"
  "isVarArg flow_ir = (\<lambda>_. False)"
  "isIntrinsic flow_ir = (\<lambda>_. False)"
  "isDeclaration flow_ir = (\<lambda>F. F \<noteq> 100)"
  "hasAddressTaken flow_ir = (\<lambda>_. False)"
  "hasExternalLinkage flow_ir = (\<lambda>_. False)"
  "moduleFunctions flow_ir = look [] [(200, [100, 40, 41])]"
  "moduleGlobals flow_ir = (\<lambda>_. [])"
  "hasInitializer flow_ir = (\<lambda>_. False)"
  "initializer flow_ir = (\<lambda>_. NULL)"
  "valueType flow_ir = (\<lambda>_. NULL)"
  "isPointerTy flow_ir = (\<lambda>_. False)"
  "isStructTy flow_ir = (\<lambda>_. False)"
  "isArrayTy flow_ir = (\<lambda>_. False)"
  "isVectorTy flow_ir = (\<lambda>_. False)"
  "isIntegerTy flow_ir = (\<lambda>_. False)"
  "elementType flow_ir = (\<lambda>_. NULL)"
  "integerBitWidth flow_ir = (\<lambda>_. 0)"
  "scalarSizeInBits flow_ir = (\<lambda>_. 0)"
  "structHasName flow_ir = (\<lambda>_. False)"
  "structName flow_ir = (\<lambda>_. [])"
  "numElements flow_ir = (\<lambda>_. 0)"
  "isOpaque flow_ir = (\<lambda>_. False)"
  "structSizeInBits flow_ir = (\<lambda>_. 0)"
  "typePrint flow_ir = (\<lambda>_. [])"
  "int8PtrTy flow_ir = NULL"
  "intPtrTy flow_ir = NULL"
  "allConstantIndices flow_ir = (\<lambda>_. False)"
  "lastIndex flow_ir = (\<lambda>_. 0)"
  "aliasQuery flow_ir = (\<lambda>_ _. NoAlias)"
  "strHash flow_ir = (\<lambda>s. of_nat (length s))"
  "smallSetOrder flow_ir = (\<lambda>S. sorted_list_of_set S)"
  "heap flow_ir = [100, 10, 11, 12, 20, 21, 22, 30, 31, 32, 33, 34, 35, 40, 41, 51, 60, 61, 62]"
  by (simp_all add: flow_ir_def empty_ir_def)

lemmas flow_simps = flow_fields look_def successors_def instructions_def

definition flow_ctx :: gctx where
  "flow_ctx = newGlobalContext
     \<lparr> Callees := (\<lambda>I. if I = 33 then {40} else if I = 35 then {41} else {}),
       Callers := (\<lambda>F. if F = 40 then {33} else if F = 41 then {35} else {}),
       CheckInstSets := (\<lambda>F. if F = 100 then {34} else {}),
       UnifiedFuncSet := {100}, Modules := [200] \<rparr>"

lemma flow_ctx_fields:
  "Callees flow_ctx = (\<lambda>I. if I = 33 then {40} else if I = 35 then {41} else {})"
  "Callers flow_ctx = (\<lambda>F. if F = 40 then {33} else if F = 41 then {35} else {})"
  "CheckInstSets flow_ctx = (\<lambda>F. if F = 100 then {34} else {})"
  "UnifiedFuncSet flow_ctx = {100}" "Modules flow_ctx = [200]"
  "FuncPAResults flow_ctx = (\<lambda>_. Map.empty)" "DataFetchFuncs flow_ctx = Map.empty"
  "CopyFuncs flow_ctx = Map.empty" "ErrorHandleFuncs flow_ctx = {}"
  by (simp_all add: flow_ctx_def newGlobalContext_def)

lemmas flow_eval = flow_simps flow_classes_def flow_ctx_fields

lemma flow_wf_cfg: "wf_cfg flow_ir 100"
  by (simp add: wf_cfg_def flow_simps) auto

lemma flow_wf_heap: "wf_heap flow_ir"
  by (simp add: wf_heap_def flow_simps flow_classes_def) auto

lemma flow_wf_classes: "wf_classes flow_ir"
  by (auto simp: wf_classes_def flow_simps flow_classes_def)

end
