(* ===== verification/DataFlowProperties.thy ===== *)
theory DataFlowProperties
  imports BackwardTheorems FlowSamples
begin

text \<open>
  The properties of the data-flow analysis, each with an instance on the sample program
  \<open>flow_ir\<close>.
\<close>

section \<open>The sample is a loaded module\<close>

lemma flow_wf_values: "wf_values flow_ir flow_ctx"
  unfolding wf_values_def
  by (intro conjI flow_wf_heap flow_wf_classes)
     (auto simp: flow_eval value_classes_def)

lemma flow_call_args_fit: "call_args_fit flow_ir flow_ctx"
  by (auto simp: call_args_fit_def aliasList_def flow_eval)

lemma flow_table_args: "table_args flow_ir flow_ctx"
  unfolding table_args_def by (simp add: flow_eval getCalledFuncName_def Let_def)

lemma flow_instructions: "set (instructions flow_ir 100) \<subseteq> set (heap flow_ir)"
  by (simp add: flow_eval)

lemma flow_wf_walk: "wf_walk flow_ir flow_ctx 100"
proof -
  have "acyclic {(a, b). b \<in> walkOperands flow_ir a}"
    by (rule acyclicI_order [where f = "\<lambda>v. if v = 51 then 0 else v"])
       (auto simp: walkOperands_def backwardOperands_def getOperand_def flow_eval split: if_splits)
  then show ?thesis by (simp add: wf_walk_def flow_wf_values flow_instructions)
qed

text \<open>A counting loop: \<open>i = phi [3, i + 4]\<close>.\<close>

definition loop_ir :: llvm where
  "loop_ir = empty_ir
     \<lparr> isa := (\<lambda>k v. k = PHINode \<and> v = 1 \<or> k = BinaryOperator \<and> v = 2 \<or> k = Constant \<and> v \<in> {3, 4}),
       incoming := look [] [(1, [(3, 10), (2, 11)])], operands := look [] [(2, [1, 4])] \<rparr>"

lemma loop_fields:
  "isa loop_ir k v = (k = PHINode \<and> v = 1 \<or> k = BinaryOperator \<and> v = 2 \<or> k = Constant \<and> v \<in> {3, 4})"
  "incoming loop_ir = look [] [(1, [(3, 10), (2, 11)])]" "operands loop_ir = look [] [(2, [1, 4])]"
  by (simp_all add: loop_ir_def empty_ir_def)

section \<open>Properties\<close>

text \<open>
  C24: The two block collectors are exact and converse. In a well-formed control-flow graph
  \<open>collectSuccReachBlocks\<close> returns the blocks reachable from \<open>b\<close>, and
  \<open>collectPredReachBlocks\<close> the blocks of the function from which \<open>b\<close> is reachable.
\<close>

theorem reach_blocks_exact:
  assumes "wf_heap ir" "wf_cfg ir F" "set (blocks ir F) \<subseteq> set (heap ir)" "b \<in> set (blocks ir F)"
  shows "collectSuccReachBlocks ir b {} = Inr (reach_set (\<lambda>b. set (successors ir b)) {b}) \<and>
    collectPredReachBlocks ir b {} =
      Inr {c \<in> set (blocks ir F). b \<in> reach_set (\<lambda>b. set (successors ir b)) {c}}"
proof -
  have b: "b \<in> set (heap ir)" using assms(3,4) by blast
  have "reach_set (\<lambda>b. set (predecessors ir b)) {b} =
      {c \<in> set (blocks ir F). b \<in> reach_set (\<lambda>b. set (successors ir b)) {c}}"
    using reach_blocks_closed(2) [OF assms(2,4)] reach_pred_iff_succ [OF assms(2,4)] by blast
  then show ?thesis
    by (simp add: collectSuccReachBlocks_eq [OF assms(1) b] collectPredReachBlocks_eq [OF assms(1) b])
qed

lemma reach_blocks_exact_witness:
  "collectPredReachBlocks flow_ir 11 {} =
     Inr {c \<in> {10, 11, 12}. 11 \<in> reach_set (\<lambda>b. set (successors flow_ir b)) {c}} \<and>
   10 \<in> {c \<in> {10, 11, 12}. 11 \<in> reach_set (\<lambda>b. set (successors flow_ir b)) {c}}"
proof -
  have b: "blocks flow_ir 100 = [10, 11, 12]" by (simp add: flow_eval)
  have "10 \<in> {c \<in> {10, 11, 12}. 11 \<in> reach_set (\<lambda>b. set (successors flow_ir b)) {c}}"
    using reach_set_step [OF reach_set_base, of 10 "{10}" 11 "\<lambda>b. set (successors flow_ir b)"]
    by (simp add: flow_eval)
  then show ?thesis
    using reach_blocks_exact [OF flow_wf_heap flow_wf_cfg, of 11] by (simp add: b) (simp add: flow_eval)
qed

text \<open>
  C20: \<open>findInFuncSourceCV\<close> computes a closure. It returns for every value of a loaded module;
  the visited values are the backward data-flow closure of the value, through operands, PHI
  arms, and stores that may precede a load; the sources are the leaves of that closure and the
  call arguments an aliased address is passed through; the critical variables are its tracked
  values and the same arguments. \<open>call_args_fit\<close> excludes the calls for which the \<open>int8_t\<close> that counts
  the arguments is no argument number: those that use an aliased address and have no argument,
  or more than 128.
\<close>

theorem findInFuncSourceCV_exact:
  assumes "wf_values ir ctx" "call_args_fit ir ctx" "V \<in> set (heap ir)"
  shows "returns (findInFuncSourceCV ir ctx V ({}, S, C)) (\<lambda>(TrackedSet, SourceSet, CVSet).
    let T = reach_set (dataPreds ir ctx) {V} in
    TrackedSet = T \<and>
    SourceSet = S \<union> {v \<in> T. isLeafSource ir v} \<union> (\<Union>v \<in> T. loadOutputs ir ctx v) \<and>
    CVSet = C \<union> {v \<in> T. isTracked ir v} \<union> (\<Union>v \<in> T. loadOutputs ir ctx v))"
  using findInFuncSourceCV_closure [OF assms] unfolding dataClosure_def .

lemma flow_data:
  "dataPreds flow_ir flow_ctx 32 = {30, 60}" "dataPreds flow_ir flow_ctx 30 = {}"
  "dataPreds flow_ir flow_ctx 60 = {}" "loadOutputs flow_ir flow_ctx v = {}"
  "isLeafSource flow_ir v \<longleftrightarrow> v \<in> {30, 33, 35, 40, 41, 51, 60, 61, 62}"
  "isTracked flow_ir 32"
proof -
  have "10 \<in> blocksBefore flow_ir 32" unfolding blocksBefore_def by (simp add: reach_set_base flow_eval)
  moreover have "aliasList flow_ir flow_ctx 32 (pointerOperand flow_ir 32) = [30]"
    by (simp add: aliasList_def getAliasPointers_def flow_eval)
  moreover have "users flow_ir 30 = [32, 31]" "isa flow_ir Instruction 32" "isa flow_ir Instruction 31"
    "getParent flow_ir 32 = 10" "getParent flow_ir 31 = 10" by (simp_all add: flow_eval)
  ultimately have ub: "usersBefore flow_ir flow_ctx 32 = {(30, 32), (30, 31)}"
    unfolding usersBefore_def by auto
  have "{valueOperand flow_ir U |A U. (A, U) \<in> usersBefore flow_ir flow_ctx 32 \<and>
      isa flow_ir StoreInst U \<and> pointerOperand flow_ir U = A} = {60}"
    unfolding ub by (auto simp: flow_eval)
  then show "dataPreds flow_ir flow_ctx 32 = {30, 60}"
    unfolding dataPreds_def isLeafSource_def isConstant_def by (simp add: flow_eval)
  show "dataPreds flow_ir flow_ctx 30 = {}" "dataPreds flow_ir flow_ctx 60 = {}"
    by (simp_all add: dataPreds_def isLeafSource_def isConstant_def flow_eval)
  show "loadOutputs flow_ir flow_ctx v = {}"
  proof (cases "v = 32")
    case True
    have "callOutputs flow_ir flow_ctx 32 = {}" by (auto simp: callOutputs_def ub flow_eval)
    then show ?thesis by (simp add: loadOutputs_def True)
  qed (simp add: loadOutputs_def flow_eval)
  show "isLeafSource flow_ir v \<longleftrightarrow> v \<in> {30, 33, 35, 40, 41, 51, 60, 61, 62}"
    by (auto simp: isLeafSource_def isConstant_def flow_eval)
  show "isTracked flow_ir 32" by (simp add: isTracked_def flow_eval)
qed

lemma flow_closure: "reach_set (dataPreds flow_ir flow_ctx) {32} = {32, 30, 60}"
proof (rule equalityI)
  show "reach_set (dataPreds flow_ir flow_ctx) {32} \<subseteq> {32, 30, 60}"
    by (rule reach_set_least) (auto simp: flow_data)
  have "32 \<in> reach_set (dataPreds flow_ir flow_ctx) {32}" by (simp add: reach_set_base)
  from reach_set_step [OF this, of 30] reach_set_step [OF this, of 60] this
  show "{32, 30, 60} \<subseteq> reach_set (dataPreds flow_ir flow_ctx) {32}" by (simp add: flow_data)
qed

lemma findInFuncSourceCV_exact_witness:
  "returns (findInFuncSourceCV flow_ir flow_ctx 32 ({}, {}, {})) (\<lambda>(TrackedSet, SourceSet, CVSet).
     SourceSet = {30, 60} \<and> 32 \<in> CVSet)"
proof -
  have "32 \<in> set (heap flow_ir)" by (simp add: flow_eval)
  then show ?thesis
    using findInFuncSourceCV_exact [OF flow_wf_values flow_call_args_fit, of 32 "{}" "{}"]
    by (auto simp: flow_data flow_closure Let_def elim!: returns_mono)
qed

text \<open>
  C33: What \<open>findSourceCV\<close> reports as a source. It returns for every value of a loaded module
  whose fetch and copy calls have the arguments the configuration names, keeps what was
  collected before, and every new source is an argument of a function or a fetch call or one of
  its arguments.
\<close>

theorem findSourceCV_sources:
  assumes "wf_values ir ctx" "table_args ir ctx" "V \<in> set (heap ir)"
  shows "returns (findSourceCV ir ctx V (TrackedSet, SourceSet, CVSet)) (\<lambda>(TrackedSet', SourceSet', CVSet').
    insert V TrackedSet \<subseteq> TrackedSet' \<and> SourceSet \<subseteq> SourceSet' \<and> CVSet \<subseteq> CVSet' \<and>
    (\<forall>w \<in> SourceSet' - SourceSet. isa ir Argument w \<or> isFetchSource ir ctx w))"
  by (rule findSourceCV_returns [OF assms])

lemma findSourceCV_sources_witness:
  "returns (findSourceCV flow_ir flow_ctx 32 ({}, {}, {})) (\<lambda>(TrackedSet', SourceSet', CVSet').
    32 \<in> TrackedSet' \<and> SourceSet' \<subseteq> {60, 61, 62})"
proof -
  have h: "32 \<in> set (heap flow_ir)" by (simp add: flow_eval)
  have "isFetchSource flow_ir flow_ctx w \<longleftrightarrow> False" for w
    by (auto simp: isFetchSource_def getCalledFuncName_def Let_def flow_eval split: if_splits)
  then show ?thesis
    using findSourceCV_sources [OF flow_wf_values flow_table_args h, of "{}" "{}" "{}"]
    by (auto simp: flow_eval elim!: returns_mono)
qed

text \<open>
  C21: \<open>findUses\<close> finds exactly the uses of a value behind a border instruction: the uses, in
  blocks reachable from the border, of the values in the closure of the target under unary and
  binary instructions and stores that are loaded again.
\<close>

theorem findUses_exact:
  assumes "wf_values ir ctx" "BorderInsn \<in> set (heap ir)" "isa ir Instruction BorderInsn"
    and "Target \<in> set (heap ir)"
  shows "returns (findUses ir ctx BorderInsn Target ({}, UseSet)) (\<lambda>(Visited, UseSet').
    Visited = reach_set (useCarriers ir ctx BorderInsn) {Target} \<and>
    UseSet' = UseSet \<union> (\<Union>T \<in> Visited. directUses ir BorderInsn T))"
  using findUses_closure [OF assms, of UseSet] unfolding useClosure_def
  by (rule returns_mono) auto

lemma findUses_exact_witness:
  "returns (findUses flow_ir flow_ctx 34 33 ({}, {})) (\<lambda>(Visited, UseSet). UseSet = {(35, 0)})"
proof -
  have h: "34 \<in> set (heap flow_ir)" "isa flow_ir Instruction 34" "33 \<in> set (heap flow_ir)"
    by (simp_all add: flow_eval)
  have u: "usersOf flow_ir 34 33 = {35}" by (auto simp: usersOf_def flow_eval)
  have "useCarriers flow_ir flow_ctx 34 33 = {}" by (simp add: useCarriers_def u carriersAt_def flow_eval)
  then have "reach_set (useCarriers flow_ir flow_ctx 34) {33} = {33}"
    using reach_set_least [of "{33}" "{33}" "useCarriers flow_ir flow_ctx 34"]
      reach_set_base [of 33 "{33}" "useCarriers flow_ir flow_ctx 34"] by auto
  moreover have "11 \<in> blocksAfter flow_ir 34"
    unfolding blocksAfter_def
    by (rule reach_set_step [where x = 10]) (simp_all add: reach_set_base flow_eval)
  then have "directUses flow_ir 34 33 = {(35, 0)}"
    by (simp add: directUses_def u usesAt_def callArgNo_def flow_eval)
  ultimately show ?thesis
    using findUses_exact [OF flow_wf_values h, of "{}"] by (auto elim!: returns_mono)
qed

text \<open>
  C32: \<open>possibleUseStResult\<close> decides whether a store may precede an instruction: in one block by
  the order of the two, otherwise by reachability of the block of the instruction from the
  block of the store.
\<close>

theorem possibleUseStResult_exact:
  assumes "wf_heap ir" "getParent ir St \<in> set (heap ir)" "Inst \<noteq> St"
    and "getParent ir Inst \<noteq> NULL" "getParent ir St \<noteq> NULL"
  shows "possibleUseStResult ir Inst St = Inr (
    if getParent ir Inst = getParent ir St
    then (\<exists>ys zs. insts ir (getParent ir Inst) = ys @ St # zs \<and> Inst \<notin> set ys)
    else getParent ir Inst \<in> reach_set (\<lambda>b. set (successors ir b)) {getParent ir St})"
  using possibleUseStResult_cases [OF assms(1-3)] assms(4,5) by (simp add: blocksAfter_def)

lemma possibleUseStResult_exact_witness:
  "possibleUseStResult flow_ir 32 31 = Inr True"
proof -
  have p: "getParent flow_ir 31 = 10" "getParent flow_ir 32 = 10" "10 \<in> set (heap flow_ir)"
    and i: "insts flow_ir 10 = [30] @ 31 # [32, 33, 34, 20]" by (simp_all add: flow_eval)
  have "\<exists>ys zs. insts flow_ir 10 = ys @ 31 # zs \<and> 32 \<notin> set ys" unfolding i by (intro exI conjI) (rule refl, simp)
  then show ?thesis using possibleUseStResult_exact [OF flow_wf_heap, of 31 32] by (simp add: p)
qed

text \<open>
  C34: \<open>performBackwardAnalysis\<close> returns where it may. If the operands it follows between two
  loads form no cycle, it returns with the default depth; it keeps what was collected and adds
  only calls to \<open>CISet\<close>.
\<close>

theorem performBackwardAnalysis_returns:
  assumes "wf_walk ir ctx F" "V \<in> set (heap ir)"
  shows "returns (performBackwardAnalysis ir F V (LPSet, CISet)) (\<lambda>(LPSet', CISet').
    LPSet \<subseteq> LPSet' \<and> CISet \<subseteq> CISet' \<and> (\<forall>CI \<in> CISet' - CISet. isa ir CallInst CI))"
  using performBackwardAnalysis_walks [OF assms, of "(LPSet, CISet)"]
  by (rule returns_mono) (simp add: walked_def split_def)

lemma performBackwardAnalysis_returns_witness:
  "returns (performBackwardAnalysis flow_ir 100 34 ({}, {})) (\<lambda>(LPSet', CISet'). CISet' \<subseteq> {33, 35})"
proof -
  have h: "34 \<in> set (heap flow_ir)" by (simp add: flow_eval)
  show ?thesis
    by (rule returns_mono [OF performBackwardAnalysis_returns [OF flow_wf_walk h]]) (auto simp: flow_eval)
qed

text \<open>
  C35: \<open>performBackwardAnalysis\<close> never returns on a loop. Where every value of a set has an
  operand in the set, as for the PHI of a counting loop, no depth of recursion is enough: only
  loads are remembered, other values are visited again without end.
\<close>

theorem performBackwardAnalysis_cycle:
  assumes "\<forall>W \<in> C. walkOperands ir W \<inter> C \<noteq> {}" "V \<in> C"
  shows "performBackwardAnalysisF ir F n V s \<noteq> Inr r"
  by (rule performBackwardAnalysisF_cycle [OF _ assms(2)]) (use assms(1) in blast)

lemma performBackwardAnalysis_cycle_witness:
  "\<forall>n s r. performBackwardAnalysisF loop_ir 100 n 1 s \<noteq> Inr r"
proof -
  have "walkOperands loop_ir 1 = {3, 2}" "walkOperands loop_ir 2 = {1, 4}"
    by (simp_all add: walkOperands_def backwardOperands_def getOperand_def loop_fields look_def)
  then show ?thesis using performBackwardAnalysis_cycle [of "{1, 2}" loop_ir 1] by simp
qed

end
