(* ===== verification/MissingProperties.thy ===== *)
theory MissingProperties
  imports MissingTotality DataFlowProperties
begin

text \<open>
  The properties of the missing-check pass: its two stages, the invariant of its data base, the
  slices that decide whether an occurrence is checked, and the rating of the results.
\<close>

section \<open>The sample after its first stage\<close>

definition flow_checks :: mc_state where
  "flow_checks =
     addUseCheck (41, 0) \<lparr> mSCO = ICMP_EQ, mSCC = SCC_CONST, mSrcUse = 41, mArgNo = 0 \<rparr>
       (addSrcCheck (40, -1) \<lparr> mSCO = ICMP_EQ, mSCC = SCC_CONST, mSrcUse = 40, mArgNo = -1 \<rparr>
          newMissingChecks)"

lemma flow_checks_fields:
  "CheckedSrcSet flow_checks = {(40, -1)}" "CheckedUseSet flow_checks = {(41, 0)}"
  "SrcChecksMap flow_checks (40, -1) \<noteq> []" "UseChecksMap flow_checks (41, 0) \<noteq> []"
  "AnalysisStage flow_checks = 1" "SrcTotalCount flow_checks Src = 0" "UseTotalCount flow_checks Use = 0"
  by (simp_all add: flow_checks_def addUseCheck_def addSrcCheck_def newMissingChecks_def)

lemma flow_db_ok: "db_ok flow_checks"
proof -
  have "check_step newMissingChecks
      (addSrcCheck (40, -1) \<lparr> mSCO = ICMP_EQ, mSCC = SCC_CONST, mSrcUse = 40, mArgNo = -1 \<rparr> newMissingChecks)"
    by (rule check_step.src) simp
  from check_step_ok [OF this db_ok_new]
  show ?thesis unfolding flow_checks_def by (rule check_step_ok [rotated]) (rule check_step.use, simp)
qed

lemma flow_wf_callers: "wf_callers flow_ir flow_ctx"
  by (auto simp: wf_callers_def flow_eval)

lemma flow_call: "33 \<in> set (heap flow_ir)" "isa flow_ir CallInst 33" "users flow_ir 33 \<noteq> []"
  by (simp_all add: flow_eval)

lemma flow_scope: "10 \<in> blocksAfter flow_ir 33" "11 \<in> blocksAfter flow_ir 33"
proof -
  show 10: "10 \<in> blocksAfter flow_ir 33" unfolding blocksAfter_def by (simp add: reach_set_base flow_eval)
  show "11 \<in> blocksAfter flow_ir 33"
    using 10 unfolding blocksAfter_def by (rule reach_set_step) (simp add: flow_eval)
qed

lemma flow_checked: "checksSource flow_ir flow_ctx flow_checks 100 (40, -1) (blocksAfter flow_ir 33) 34"
proof -
  have "isa flow_ir Instruction 34" "getParent flow_ir 34 = 10" "isa flow_ir CmpInst 34" by (simp_all add: flow_eval)
  then show ?thesis using flow_scope(1) flow_checks_fields(3) by (simp add: checksSource_def)
qed

lemma flow_wf_indirect: "wf_indirect flow_ir flow_ctx"
  by (simp add: wf_indirect_def flow_fields)

text \<open>What the comparison 34 records, and what the calls of the sample count.\<close>

lemma flow_comparison: "comparison flow_ir 34"
  by (simp add: comparison_def flow_eval)

lemma flow_records: "(40, -1) \<in> set (checkSources flow_ir flow_ctx 100 34)"
proof -
  have "33 \<in> dataClosure flow_ir flow_ctx 33" by (simp add: dataClosure_def reach_set_base)
  then have "33 \<in> sourcesOf flow_ir flow_ctx 33"
    by (auto simp: sourcesOf_def nodeSources_def isLeafSource_def flow_eval intro!: bexI [of _ 33])
  then have "33 \<in> checkedTargets flow_ir flow_ctx 34" by (auto simp: checkedTargets_def flow_eval)
  moreover have "finite (checkedTargets flow_ir flow_ctx 34)"
    by (rule finite_subset [OF checkedTargets_heap [OF flow_wf_values flow_call_args_fit flow_comparison]]) simp
  moreover have "sourceEntries flow_ir flow_ctx 100 34 33 = [(40, -1)]"
    by (simp add: sourceEntries_def entryOf_def representative_def firstCallee_def flow_eval)
  ultimately show ?thesis by (auto simp: checkSources_def intro!: bexI [of _ 33])
qed

lemma flow_occurrences:
  "callOccurrences flow_ir flow_ctx flow_checks 100 33 = [SrcOcc (40, -1) True 33]"
  "\<exists>b. callOccurrences flow_ir flow_ctx flow_checks 100 35 = [UseOcc (41, 0) b 33]"
  "\<not> isa flow_ir CallInst I \<Longrightarrow> callOccurrences flow_ir flow_ctx flow_checks 100 I = []"
proof -
  have "33 \<in> reach_set (flowStep flow_ir flow_ctx flow_checks 100 (40, -1) (blocksAfter flow_ir 33)) {33}"
    by (simp add: reach_set_base)
  moreover have "34 \<in> set (users flow_ir 33)" by (simp add: flow_eval)
  ultimately have d: "checkedDownstream flow_ir flow_ctx flow_checks 100 (40, -1) (blocksAfter flow_ir 33) 33"
    using flow_checked unfolding checkedDownstream_def by blast
  note sm = callOccurrences_def retAndArgNumbers_def argNumbers_def sourceOccurrence_def useOccurrence_def
    firstCallee_def ignoredFunctions_def flow_checks_fields flow_eval Let_def
  show "callOccurrences flow_ir flow_ctx flow_checks 100 33 = [SrcOcc (40, -1) True 33]" by (simp add: sm d)
  show "\<exists>b. callOccurrences flow_ir flow_ctx flow_checks 100 35 = [UseOcc (41, 0) b 33]" by (simp add: sm)
  show "\<not> isa flow_ir CallInst I \<Longrightarrow> callOccurrences flow_ir flow_ctx flow_checks 100 I = []"
    by (simp add: callOccurrences_def)
qed

lemma flow_analysed: "analysedFunctions flow_ir flow_ctx 200 = [100]"
  by (simp add: analysedFunctions_def MAX_BLOCKS_SUPPORT_def flow_eval)

lemma flow_checked_module: "wf_checked_module flow_ir flow_ctx 200"
  using flow_instructions by (auto simp: wf_checked_module_def flow_fields flow_ctx_fields look_def instructions_def)

section \<open>Properties\<close>

text \<open>
  C9: The pass is its two stages. Under the driver \<open>run\<close>, which repeats a pass while some module
  reports a change, \<open>MissingChecksPass\<close> makes exactly two sweeps over the modules: the first
  records the checks of every analysed function, the second counts the unchecked occurrences,
  and it ends in stage 3. Functions without a body, with more blocks than supported, or outside
  \<open>UnifiedFuncSet\<close> are skipped in both.
\<close>

theorem missing_checks_two_stages:
  assumes "Modules ctx \<noteq> []" "length (Modules ctx) < 2 ^ 31" "AnalysisStage st = 1" "MIdx st = 0"
  shows "run (MissingChecksPass ir ctx) (Modules ctx) st = twoStages ir ctx st"
  by (rule run_twoStages [OF assms])

lemma missing_checks_two_stages_witness:
  "run (MissingChecksPass flow_ir flow_ctx) [200] newMissingChecks = twoStages flow_ir flow_ctx newMissingChecks"
  using missing_checks_two_stages [of flow_ctx newMissingChecks flow_ir]
  by (simp add: flow_ctx_fields newMissingChecks_def)

text \<open>
  C15: One module pass, in any stage. The pass returns, keeps the invariant of the data base (the
  checked sources and uses are the keys of their counters and of the nonempty check sets, every
  recorded check is filed under its own source, only checked entries are counted) and adds to it
  exactly what its stage is about: stage 1 the sources and uses that the security checks of the
  analysed functions record, each as often as they do; stage 2 the occurrences of checked sources and
  uses in these functions, with the unchecked ones counted apart; any other stage nothing.
  Only stage 1 changes the recorded checks. The two bounds on calls are \<open>call_args_fit\<close> and
  \<open>wf_indirect\<close>.
\<close>

theorem missing_checks_data_base:
  assumes "wf_values ir ctx" "call_args_fit ir ctx" "wf_callers ir ctx" "wf_indirect ir ctx"
    and "wf_checked_module ir ctx M" "db_ok st"
  shows "\<exists>again st'. MissingChecks_doModulePass ir ctx M st = Inr (again, st') \<and> db_ok st' \<and>
    (let S = (if AnalysisStage st = 1 then recordedSources ir ctx [M] else []);
         U = (if AnalysisStage st = 1 then recordedUses ir ctx [M] else []);
         occ = (if AnalysisStage st = 2 then moduleOccurrences ir ctx st [M] else [])
     in CheckedSrcSet st' = CheckedSrcSet st \<union> set S \<and> CheckedUseSet st' = CheckedUseSet st \<union> set U \<and>
        (\<forall>k. counter (SrcCheckCount st') k = counter (SrcCheckCount st) k + of_nat (count_list S k) \<and>
           SrcTotalCount st' k = SrcTotalCount st k + of_nat (length (sourceVerdicts k occ)) \<and>
           counter (SrcUncheckCount st') k =
             counter (SrcUncheckCount st) k + of_nat (length (filter Not (sourceVerdicts k occ)))) \<and>
        (\<forall>k. counter (UseCheckCount st') k = counter (UseCheckCount st) k + of_nat (count_list U k) \<and>
           UseTotalCount st' k = UseTotalCount st k + of_nat (length (useVerdicts k occ)) \<and>
           counter (UseUncheckCount st') k =
             counter (UseUncheckCount st) k + of_nat (length (filter Not (useVerdicts k occ))))) \<and>
    (AnalysisStage st \<noteq> 1 \<longrightarrow> SrcChecksMap st' = SrcChecksMap st \<and> UseChecksMap st' = UseChecksMap st)"
  using MissingChecks_module_adds [OF assms] unfolding Let_def adds_def by (elim returnsE2) blast

text \<open>On the sample: stage 1 records the call of \<open>get\<close>, stage 2 counts it once.\<close>

lemma missing_checks_data_base_witness:
  "(\<exists>again st'. MissingChecks_doModulePass flow_ir flow_ctx 200 newMissingChecks = Inr (again, st') \<and>
      (40, -1) \<in> CheckedSrcSet st') \<and>
   (\<exists>again st'. MissingChecks_doModulePass flow_ir flow_ctx 200 (flow_checks\<lparr>AnalysisStage := 2\<rparr>) = Inr (again, st') \<and>
      SrcTotalCount st' (40, -1) = 1 \<and> UseTotalCount st' (41, 0) = 1 \<and> CheckedSrcSet st' = {(40, -1)})"
proof
  note ok = flow_wf_values flow_call_args_fit flow_wf_callers flow_wf_indirect flow_checked_module
  have "comparisons flow_ir flow_ctx 100 = [34]" by (simp add: comparisons_def flow_eval)
  then have "(40, -1) \<in> set (recordedSources flow_ir flow_ctx [200])"
    using flow_records by (simp add: recordedSources_def flow_analysed)
  then show "\<exists>again st'. MissingChecks_doModulePass flow_ir flow_ctx 200 newMissingChecks = Inr (again, st') \<and>
      (40, -1) \<in> CheckedSrcSet st'"
    using missing_checks_data_base [OF ok db_ok_new] by (auto simp: Let_def newMissingChecks_def)
next
  let ?st = "flow_checks\<lparr>AnalysisStage := 2\<rparr>"
  note ok = flow_wf_values flow_call_args_fit flow_wf_callers flow_wf_indirect flow_checked_module
  obtain b where b: "callOccurrences flow_ir flow_ctx flow_checks 100 35 = [UseOcc (41, 0) b 33]"
    using flow_occurrences(2) by blast
  have "moduleOccurrences flow_ir flow_ctx ?st = moduleOccurrences flow_ir flow_ctx flow_checks"
    by (rule moduleOccurrences_cong) (simp add: same_db_def)
  then have occ: "moduleOccurrences flow_ir flow_ctx ?st [200] = [SrcOcc (40, -1) True 33, UseOcc (41, 0) b 33]"
    using flow_occurrences(1,3) b
    by (simp add: moduleOccurrences_def functionOccurrences_def flow_analysed flow_simps flow_classes_def)
  have "db_ok ?st" using flow_db_ok by simp
  from missing_checks_data_base [OF ok this]
  show "\<exists>again st'. MissingChecks_doModulePass flow_ir flow_ctx 200 ?st = Inr (again, st') \<and>
      SrcTotalCount st' (40, -1) = 1 \<and> UseTotalCount st' (41, 0) = 1 \<and> CheckedSrcSet st' = {(40, -1)}"
    unfolding occ
    by (auto simp: Let_def sourceVerdicts_def useVerdicts_def flow_checks_fields)
qed

text \<open>
  C10: The forward slice is exact. \<open>isCheckedForward\<close>, started with nothing visited, returns and
  answers whether some user of a value the source flows to, inside the scope, checks it: a
  comparison when a check of the source is recorded, a switch, a call that is itself a security
  check, or a return.
\<close>

theorem isCheckedForward_exact:
  assumes "wf_values ir ctx" "db_ok st" "V \<in> set (heap ir)"
  shows "\<exists>VSet. isCheckedForward ir ctx st F Src V Scope ({}, False) =
    Inr (VSet, \<exists>W \<in> reach_set (flowStep ir ctx st F Src Scope) {V}. \<exists>U \<in> set (users ir W).
      checksSource ir ctx st F Src Scope U)"
  using isCheckedForward_decides [OF assms clean_empty, of F Src Scope]
  by (auto simp: returns_iff checkedDownstream_def)

lemma isCheckedForward_exact_witness:
  "\<exists>VSet. isCheckedForward flow_ir flow_ctx flow_checks 100 (40, -1) 33 (blocksAfter flow_ir 33) ({}, False) =
     Inr (VSet, True)"
proof -
  have "34 \<in> set (users flow_ir 33)" by (simp add: flow_eval)
  moreover have "33 \<in> reach_set (flowStep flow_ir flow_ctx flow_checks 100 (40, -1) (blocksAfter flow_ir 33)) {33}"
    by (simp add: reach_set_base)
  ultimately have b: "\<exists>W \<in> reach_set (flowStep flow_ir flow_ctx flow_checks 100 (40, -1) (blocksAfter flow_ir 33)) {33}.
      \<exists>U \<in> set (users flow_ir W). checksSource flow_ir flow_ctx flow_checks 100 (40, -1) (blocksAfter flow_ir 33) U"
    using flow_checked by blast
  from isCheckedForward_exact [OF flow_wf_values flow_db_ok flow_call(1), of 100 "(40, -1)" "blocksAfter flow_ir 33"]
  show ?thesis by (simp only: eqTrueI [OF b])
qed

text \<open>
  C29: The backward slice returns and is sound. \<open>isCheckedBackward\<close> crosses callers to a depth of
  five. If it answers yes, some node it leads to is checked there. If it answers no, it has
  visited a set of nodes that contains the value, in which no node is checked and which it
  leaves only towards values it has visited as well.
\<close>

theorem isCheckedBackward_sound:
  assumes "wf_values ir ctx" "db_ok st" "wf_callers ir ctx" "V \<in> set (heap ir)"
  shows "returns (isCheckedBackward ir ctx st F Use V Scope ({}, False) Depth) (\<lambda>(VSet, isChecked).
    if isChecked
    then \<exists>x \<in> reach_set (backwardStep ir ctx st Use) {(F, V, Scope, Depth)}. checkedAt ir ctx st Use x
    else V \<in> VSet \<and> (\<exists>N \<subseteq> reach_set (backwardStep ir ctx st Use) {(F, V, Scope, Depth)}.
      VSet = backwardKey ` N \<and>
      (\<forall>x \<in> N. \<not> checkedAt ir ctx st Use x \<and> backwardKey ` backwardStep ir ctx st Use x \<subseteq> VSet)))"
  by (rule isCheckedBackward_finds) (use assms in \<open>simp add: backwardValid_def backwardKey_def\<close>)

lemma isCheckedBackward_sound_witness:
  "returns (isCheckedBackward flow_ir flow_ctx flow_checks 100 (41, 0) 33 {10} ({}, False) 1)
     (\<lambda>(VSet, isChecked). isChecked \<or> 33 \<in> VSet)"
  by (rule returns_mono [OF isCheckedBackward_sound [OF flow_wf_values flow_db_ok flow_wf_callers flow_call(1)]])
     (auto split: if_splits)

text \<open>
  C11: What one security check records. \<open>countSrcUseChecks\<close> on a comparison returns. It traces the
  operands of an integer comparison back through the data flow; for every value they come from
  that is no constant it records sources (for an argument the indirect calls that pass it, for a
  call the callee that stands for it, for other values the callees that may have written them in
  the blocks before the check) and uses (the callees to which the value is passed in the blocks
  after it). Exactly these become checked, each counted as often as it is found. The calls
  whose argument number the program cannot count are excluded (\<open>call_args_fit\<close>).
\<close>

theorem security_check_records_exactly:
  assumes "wf_values ir ctx" "call_args_fit ir ctx" "db_ok st" "SCI \<in> set (heap ir)" "isa ir CmpInst SCI"
  shows "\<exists>st'. countSrcUseChecks ir ctx F SCI st = Inr st' \<and> db_ok st' \<and>
    CheckedSrcSet st' = CheckedSrcSet st \<union> set (checkSources ir ctx F SCI) \<and>
    CheckedUseSet st' = CheckedUseSet st \<union> set (checkUses ir ctx SCI) \<and>
    (\<forall>k. counter (SrcCheckCount st') k = counter (SrcCheckCount st) k + of_nat (count_list (checkSources ir ctx F SCI) k)) \<and>
    (\<forall>k. counter (UseCheckCount st') k = counter (UseCheckCount st) k + of_nat (count_list (checkUses ir ctx SCI) k))"
proof -
  have "comparison ir SCI" using assms(4,5) by (simp add: comparison_def)
  from countSrcUseChecks_logs [OF assms(1,2) this, of F st]
  obtain st' where "countSrcUseChecks ir ctx F SCI st = Inr st'" "logs (checkSources ir ctx F SCI) (checkUses ir ctx SCI) st st'"
    by (elim returnsE)
  then show ?thesis using check_steps_ok assms(3) unfolding logs_def by blast
qed

lemma security_check_records_exactly_witness:
  "\<exists>st'. countSrcUseChecks flow_ir flow_ctx 100 34 newMissingChecks = Inr st' \<and> (40, -1) \<in> CheckedSrcSet st'"
proof -
  have "34 \<in> set (heap flow_ir)" "isa flow_ir CmpInst 34" by (simp_all add: flow_eval)
  from security_check_records_exactly [OF flow_wf_values flow_call_args_fit db_ok_new this, of 100] flow_records
  show ?thesis by blast
qed

text \<open>
  C12: What stage 2 counts for a call. \<open>uncheckedCall\<close> returns, unless an indirect call can reach a
  callee with too few parameters, and counts exactly the occurrences that can be read off the
  recorded checks: the parameters of every callee of an indirect call that is a checked source;
  for a direct call the return value, if it is used, and the pointer arguments as outputs of the
  first callee, and every argument as its use. A source is checked when one of the values it
  stands for flows to a check in the blocks that follow, a use when the backward slice finds one.
\<close>

theorem call_is_counted_exactly:
  assumes "wf_values ir ctx" "wf_callers ir ctx" "wf_indirect ir ctx" "db_ok st" "CI \<in> set (heap ir)"
  shows "uncheckedCall ir ctx F CI st = Inr (fold count_occ (callOccurrences ir ctx st F CI) st)"
  by (rule uncheckedCall_counts [OF assms(1-3) _ assms(5)]) (simp add: assms(4) same_db_def)

lemma call_is_counted_exactly_witness:
  "\<exists>st. uncheckedCall flow_ir flow_ctx 100 33 flow_checks = Inr st \<and> SrcTotalCount st (40, -1) = 1 \<and>
     SrcUncheckCount st (40, -1) = None"
  using call_is_counted_exactly [OF flow_wf_values flow_wf_callers flow_wf_indirect flow_db_ok flow_call(1), of 100,
      unfolded flow_occurrences(1)]
  by (simp add: countSrc_def flow_checks_def addUseCheck_def addSrcCheck_def newMissingChecks_def Let_def)

text \<open>The return value alone, with the counters written out.\<close>

lemma return_value_is_counted:
  assumes "wf_values ir ctx" "db_ok st" "CI \<in> set (heap ir)" "isa ir CallInst CI"
    and "users ir CI \<noteq> []" "(CF, -1) \<in> CheckedSrcSet st"
  shows "uncheckedSource ir ctx F CI CF (-1) st = Inr
    (let checked = checkedDownstream ir ctx st F (CF, -1) (blocksAfter ir CI) CI;
         st' = (if checked then st
                else st\<lparr>SrcUncheckCount := bump (CF, -1) (SrcUncheckCount st),
                        SrcUnchecksMap := (SrcUnchecksMap st)((CF, -1) := insert CI (SrcUnchecksMap st (CF, -1)))\<rparr>)
     in st'\<lparr>SrcTotalCount := (SrcTotalCount st)((CF, -1) := SrcTotalCount st (CF, -1) + 1)\<rparr>)"
  unfolding uncheckedSource_retval [OF assms]
  by (simp add: countSrc_def addSrcUncheck_def Let_def)

lemma return_value_is_counted_witness:
  "\<exists>st. uncheckedSource flow_ir flow_ctx 100 33 40 (-1) flow_checks = Inr st \<and> SrcTotalCount st (40, -1) = 1"
proof -
  have "(40, -1) \<in> CheckedSrcSet flow_checks" by (simp add: flow_checks_fields)
  from return_value_is_counted [OF flow_wf_values flow_db_ok flow_call this, of 100]
  show ?thesis
    by (simp add: Let_def flow_checks_def addUseCheck_def addSrcCheck_def newMissingChecks_def split: if_splits)
qed

text \<open>
  C19: One callee of an indirect call. If the callee has fewer parameters than the call passes
  arguments, \<open>getArgByNo\<close> yields a null pointer, which is dereferenced; otherwise exactly one
  occurrence is counted, unchecked exactly when neither the parameter nor a load through its
  aliases flows to a check.
\<close>

theorem indirect_callee_faults_or_counts:
  assumes "wf_values ir ctx" "db_ok st" "blocks ir Callee \<noteq> []" "hd (blocks ir Callee) \<in> set (heap ir)"
    and "set (args ir Callee) \<subseteq> set (heap ir)"
  shows "uncheckedCallee ir ctx F CI ArgNo Callee st =
    (if length (args ir Callee) \<le> unat (scast ArgNo :: size_t) then Inl NullDeref
     else let PArg = getArgByNo ir Callee ArgNo;
              Scope = reach_set (\<lambda>b. set (successors ir b)) {hd (blocks ir Callee)}
          in Inr (countSrc (\<exists>TV \<in> parameterValues ir ctx Callee Scope PArg.
               checkedDownstream ir ctx st F (CI, ArgNo) Scope TV) (CI, ArgNo) PArg st))"
  by (rule uncheckedCallee_eq [OF assms])

lemma indirect_callee_faults_or_counts_witness:
  "uncheckedCallee flow_ir flow_ctx 100 35 1 100 flow_checks = Inl NullDeref \<and>
   (\<exists>st. uncheckedCallee flow_ir flow_ctx 100 35 0 100 flow_checks = Inr st)"
proof -
  have b: "blocks flow_ir 100 \<noteq> []" "hd (blocks flow_ir 100) \<in> set (heap flow_ir)"
    "set (args flow_ir 100) \<subseteq> set (heap flow_ir)" and a: "length (args flow_ir 100) = 1"
    by (simp_all add: flow_eval)
  have "unat (scast (1 :: int8) :: size_t) = 1" "unat (scast (0 :: int8) :: size_t) = 0" by simp_all
  with indirect_callee_faults_or_counts [OF flow_wf_values flow_db_ok b, of 100 35 1]
    indirect_callee_faults_or_counts [OF flow_wf_values flow_db_ok b, of 100 35 0] a
  show ?thesis by (simp add: Let_def)
qed

text \<open>
  C31: \<open>inModeledCheckSet\<close> does not look at the comparison. The recorded checks are ordered by
  their source alone, so under the invariant of the data base any comparison with two operands
  is found as soon as one check of the source or use is recorded, whatever its operator and
  operands are.
\<close>

theorem inModeledCheckSet_ignores_comparison:
  assumes "db_ok st" "CmpI \<noteq> NULL" "1 < length (operands ir CmpI)"
  shows "inModeledCheckSet ir st CmpI V ArgNo IsSrc =
    Inr (if IsSrc then SrcChecksMap st (V, ArgNo) \<noteq> [] else UseChecksMap st (V, ArgNo) \<noteq> [])"
  by (rule inModeledCheckSet_eq [OF assms])

lemma inModeledCheckSet_ignores_comparison_witness:
  "inModeledCheckSet flow_ir flow_checks 34 40 (-1) True = Inr True"
proof -
  have "34 \<noteq> NULL" "1 < length (operands flow_ir 34)" by (simp_all add: flow_eval)
  from inModeledCheckSet_ignores_comparison [OF flow_db_ok this, of 40 "-1" True]
  show ?thesis by (simp add: flow_checks_fields)
qed

text \<open>
  C30: The thresholds of the rating are the exact fractions, and include them. For counts that
  single precision holds exactly, the float comparison \<open>Rating > 0.3\<close> holds exactly when the
  unchecked share is at least three tenths, and \<open>Rating > 0.1\<close> when it is at least one tenth:
  the rounded quotient of an exact tenth lies above the double constant.
\<close>

theorem rating_thresholds:
  assumes "0 < unat Unchecks" "unat Unchecks < 2 ^ 24" "0 < unat TotalN" "unat TotalN < 2 ^ 24"
  shows "(exceeds_3_10 (rate Unchecks TotalN) \<longleftrightarrow> 3 * unat TotalN \<le> 10 * unat Unchecks) \<and>
    (exceeds_1_10 (rate Unchecks TotalN) \<longleftrightarrow> unat TotalN \<le> 10 * unat Unchecks)"
  using exceeds_3_10_iff [OF assms] exceeds_1_10_iff [OF assms] by blast

lemma rating_thresholds_witness:
  "exceeds_3_10 (rate 3 10) \<and> \<not> exceeds_3_10 (rate 2999999 10000000) \<and> exceeds_1_10 (rate 1 10)"
  using rating_thresholds [of 3 10] rating_thresholds [of 2999999 10000000] rating_thresholds [of 1 10]
  by simp

text \<open>
  C13: The reports of \<open>processResults\<close>. A checked source is reported exactly when it has checks
  and unchecks and less than three tenths of the smaller of its occurrences and of checks plus
  unchecks are unchecked; a use when it is less than one tenth. A report carries the counts and
  the unchecked values.
\<close>

theorem processResults_exact:
  assumes "finite (CheckedSrcSet st)" "finite (CheckedUseSet st)"
    and "\<forall>Src \<in> CheckedSrcSet st. exact_counts
      (entryCounts (SrcCheckCount st) (SrcUncheckCount st) (SrcTotalCount st) Src)"
    and "\<forall>Use \<in> CheckedUseSet st. exact_counts
      (entryCounts (UseCheckCount st) (UseUncheckCount st) (UseTotalCount st) Use)"
  shows "set (processResults ir st) =
    {\<lparr> rType = Some (srcType ir Src), rRating = rate U T, rChecks = C, rUnchecks = U, rTotal = T,
       rArgNo = snd Src, rValues = sorted_list_of_set (SrcUnchecksMap st Src) \<rparr> | Src C U T.
       Src \<in> CheckedSrcSet st \<and>
       entryCounts (SrcCheckCount st) (SrcUncheckCount st) (SrcTotalCount st) Src = (C, U, T) \<and>
       C \<noteq> 0 \<and> U \<noteq> 0 \<and> 10 * unat U < 3 * unat T} \<union>
    {\<lparr> rType = None, rRating = rate U T, rChecks = C, rUnchecks = U, rTotal = T,
       rArgNo = snd Use, rValues = sorted_list_of_set (UseUnchecksMap st Use) \<rparr> | Use C U T.
       Use \<in> CheckedUseSet st \<and>
       entryCounts (UseCheckCount st) (UseUncheckCount st) (UseTotalCount st) Use = (C, U, T) \<and>
       C \<noteq> 0 \<and> U \<noteq> 0 \<and> 10 * unat U < unat T}"
  by (rule processResults_set [OF assms])

definition flow_results :: mc_state where
  "flow_results = flow_checks
     \<lparr> SrcCheckCount := [(40, -1) \<mapsto> 9], SrcUncheckCount := [(40, -1) \<mapsto> 1],
       SrcTotalCount := (\<lambda>_. 10), SrcUnchecksMap := (\<lambda>_. {35}) \<rparr>"

lemma flow_results_counts:
  "entryCounts (SrcCheckCount flow_results) (SrcUncheckCount flow_results) (SrcTotalCount flow_results) (40, -1) =
     (9, 1, 10)"
  "entryCounts (UseCheckCount flow_results) (UseUncheckCount flow_results) (UseTotalCount flow_results) (41, 0) =
     (1, 0, 0)"
  "CheckedSrcSet flow_results = {(40, -1)}" "CheckedUseSet flow_results = {(41, 0)}"
  by (simp_all add: flow_results_def flow_checks_def addUseCheck_def addSrcCheck_def newMissingChecks_def
      entryCounts_def bump_def)

lemma processResults_exact_witness:
  "\<exists>r \<in> set (processResults flow_ir flow_results). rUnchecks r = 1 \<and> rTotal r = 10"
proof -
  have "\<forall>Src \<in> CheckedSrcSet flow_results. exact_counts
      (entryCounts (SrcCheckCount flow_results) (SrcUncheckCount flow_results) (SrcTotalCount flow_results) Src)"
    and "\<forall>Use \<in> CheckedUseSet flow_results. exact_counts
      (entryCounts (UseCheckCount flow_results) (UseUncheckCount flow_results) (UseTotalCount flow_results) Use)"
    by (simp_all add: flow_results_counts exact_counts_def)
  from processResults_exact [OF _ _ this] show ?thesis
    by (simp add: flow_results_counts)
qed

end
