(* ===== verification/GraphProperties.thy ===== *)
theory GraphProperties
  imports MissingTotality DataFlowProperties
begin

text \<open>
  The properties of the passes that prepare the analysis (type names, call graph, alias maps) and
  of the main workflow that composes all passes.
\<close>

section \<open>The sample as a program\<close>

lemma flow_layers: "layerStep flow_ir V = (if V = 32 then {30} else if V = 30 then {51} else {})"
  by (simp add: layerStep_def flow_simps flow_classes_def)

lemma flow_wf_layers: "wf_layers flow_ir"
proof -
  have "acyclic {(a, b). b \<in> layerStep flow_ir a}"
    by (rule acyclicI_order [where f = "\<lambda>v. if v = 51 then 0 else v"]) (auto simp: flow_layers split: if_splits)
  moreover have "layerStep flow_ir V \<subseteq> set (heap flow_ir)" for V by (simp add: flow_layers flow_fields)
  ultimately show ?thesis by (auto simp: wf_layers_def flow_simps flow_classes_def)
qed

lemma flow_wf_initializers: "wf_initializers flow_ir"
proof -
  have "nestedInitializers flow_ir U = {}" for U by (simp add: nestedInitializers_def isCompositeType_def flow_fields)
  then show ?thesis by (simp add: wf_initializers_def flow_fields acyclic_def)
qed

lemma flow_wf_graph: "wf_graph flow_ir"
  using flow_wf_initializers flow_wf_layers by (auto simp: wf_graph_def flow_eval)

lemma flow_wf_module: "wf_module flow_ir 200"
  by (auto simp: wf_module_def flow_eval)

lemma flow_functions: "allFunctions flow_ir [200] = {100, 40, 41}"
  by (simp add: allFunctions_def flow_eval)

lemma flow_wf_flow: "wf_flow flow_ir newGlobalContext"
proof -
  have "wf_constants flow_ir" by (simp add: wf_constants_def exprOperands_def flow_eval acyclic_def)
  moreover have "wf_functions flow_ir newGlobalContext"
    unfolding wf_functions_def by (simp add: firstCallee_def newGlobalContext_def flow_eval) auto
  moreover have "\<forall>b. NULL \<notin> set (successors flow_ir b)"
    by (auto simp: flow_simps split: option.splits if_splits)
  ultimately show ?thesis
    unfolding wf_flow_def using flow_wf_heap flow_wf_classes by (simp add: flow_eval newGlobalContext_def)
qed

lemma flow_program_ok: "program_ok flow_ir [200]"
proof -
  have "wf_cfg flow_ir F \<and> wf_calls flow_ir F" if "F \<in> {100, 40, 41}" for F
    using that flow_wf_cfg by (auto simp: wf_cfg_def wf_calls_def flow_eval)
  moreover have "wf_pointerTypes flow_ir" by (simp add: wf_pointerTypes_def flow_fields)
  ultimately show ?thesis
    using flow_wf_graph flow_wf_flow flow_wf_module by (simp add: program_ok_def flow_functions flow_fields)
qed

lemma flow_initialized: "initialized flow_ir newGlobalContext {} newGlobalContext"
  by (rule initialized_new) (simp_all add: newGlobalContext_def)

section \<open>Properties\<close>

text \<open>
  C7: The call graph is exact. \<open>CallGraphPass\<close> returns under the driver. Afterwards every function
  with a body has exactly one unified copy; a call is a caller of a function exactly when the
  function is one of its callees; the functions entered under a type are exactly the
  address-taken ones with a body of that type; and the callees of a call are its targets: for a
  direct call the unified copies of the function it names, for an indirect call the result of the
  multi-layer type analysis, which keeps only functions of the type of the call and keeps one
  if there is one. Calls outside unified functions have no callees.
\<close>

theorem call_graph_exact:
  assumes "wf_graph ir" "\<forall>M \<in> set Ms. wf_module ir M" "initialized ir ctx {} ctx"
  shows "\<exists>st. run (CallGraphPass ir) Ms (newCallGraph ctx names) = Inr st \<and>
    (\<forall>F \<in> allFunctions ir Ms. \<not> isDeclaration ir F \<longrightarrow>
       (\<exists>!U. U \<in> UnifiedFuncSet (cgCtx st) \<and> funcHash ir U True = funcHash ir F True)) \<and>
    (\<forall>CI F. CI \<in> Callers (cgCtx st) F \<longleftrightarrow> F \<in> Callees (cgCtx st) CI) \<and>
    (\<forall>h. sigFuncsMap (cgCtx st) h =
       {F \<in> allFunctions ir Ms. \<not> isDeclaration ir F \<and> hasAddressTaken ir F \<and> funcHash ir F False = h}) \<and>
    (\<forall>CI. if CI \<in> unifiedInsts ir Ms (cgCtx st) \<and> isa ir CallInst CI
      then if isIndirectCall ir CI
        then findCalleesWithMLTA ir st CI {} =
            Inr (sigFuncsMap (cgCtx st) (callHash ir CI) \<noteq> {}, Callees (cgCtx st) CI) \<and>
          narrows (Callees (cgCtx st) CI) (sigFuncsMap (cgCtx st) (callHash ir CI))
        else Callees (cgCtx st) CI = directTargets ir (cgCtx st) CI
      else Callees (cgCtx st) CI = {})"
proof -
  from CallGraph_run [OF assms, of names]
  obtain st st0 where r: "run (CallGraphPass ir) Ms (newCallGraph ctx names) = Inr st"
    and g: "initialized ir ctx (allFunctions ir Ms) (cgCtx st0)"
      "resolved ir st0 (\<Union>M \<in> set Ms. resolvedInsts ir (UnifiedFuncSet (cgCtx st0)) M) st"
    unfolding allFunctions_def by (elim returnsE) blast
  note graph = resolved_graph [OF g]
  have "if CI \<in> unifiedInsts ir Ms (cgCtx st) \<and> isa ir CallInst CI
      then if isIndirectCall ir CI
        then findCalleesWithMLTA ir st CI {} =
            Inr (sigFuncsMap (cgCtx st) (callHash ir CI) \<noteq> {}, Callees (cgCtx st) CI) \<and>
          narrows (Callees (cgCtx st) CI) (sigFuncsMap (cgCtx st) (callHash ir CI))
        else Callees (cgCtx st) CI = directTargets ir (cgCtx st) CI
      else Callees (cgCtx st) CI = {}" for CI
  proof (cases "CI \<in> unifiedInsts ir Ms (cgCtx st) \<and> isa ir CallInst CI")
    case True
    then have CI: "CI \<in> set (heap ir)" "isa ir CallInst CI" and c: "Callees (cgCtx st) CI = targets ir st CI"
      using unifiedInsts_heap [OF assms(2)] graph(4) by auto
    obtain found FS where "findCalleesWithMLTA ir st CI {} = Inr (found, FS)"
      "found = (sigFuncsMap (cgCtx st) (callHash ir CI) \<noteq> {})" "narrows FS (sigFuncsMap (cgCtx st) (callHash ir CI))"
      using findCalleesWithMLTA_narrows [OF wf_graphD(2) [OF assms(1)] wf_graphD(6) [OF assms(1) CI], of st]
      by (elim returnsE2 conjE)
    then show ?thesis using True by (simp add: c targets_def)
  next
    case False
    then have "Callees (cgCtx st) CI = {}" using graph(4) by auto
    then show ?thesis by (simp only: False if_False)
  qed
  note callees = allI [OF this]
  show ?thesis by (intro exI [of _ st] conjI) (rule r graph(1,3) graph(6) [unfolded typeCandidates_def] callees)+
qed

lemma call_graph_exact_witness:
  "\<exists>st. run (CallGraphPass flow_ir) [200] (newCallGraph newGlobalContext Map.empty) = Inr st \<and>
     (33 \<in> Callers (cgCtx st) 100 \<longleftrightarrow> 100 \<in> Callees (cgCtx st) 33) \<and>
     (\<exists>!U. U \<in> UnifiedFuncSet (cgCtx st) \<and> funcHash flow_ir U True = funcHash flow_ir 100 True)"
proof -
  have "\<forall>M \<in> set [200]. wf_module flow_ir M" using flow_wf_module by simp
  from call_graph_exact [OF flow_wf_graph this flow_initialized, of Map.empty]
  obtain st where "run (CallGraphPass flow_ir) [200] (newCallGraph newGlobalContext Map.empty) = Inr st"
    and u: "\<forall>F \<in> allFunctions flow_ir [200]. \<not> isDeclaration flow_ir F \<longrightarrow>
       (\<exists>!U. U \<in> UnifiedFuncSet (cgCtx st) \<and> funcHash flow_ir U True = funcHash flow_ir F True)"
    and "\<forall>CI F. CI \<in> Callers (cgCtx st) F \<longleftrightarrow> F \<in> Callees (cgCtx st) CI"
    by (elim exE conjE)
  moreover have "100 \<in> allFunctions flow_ir [200]" "\<not> isDeclaration flow_ir 100"
    by (simp_all add: flow_functions flow_fields)
  ultimately show ?thesis by blast
qed

text \<open>
  C8: One layer of the multi-layer type analysis. The candidates are narrowed, keeping them where
  the intersection would be empty, to the functions confined in the field, if no type is
  recorded as cast to the type of the layer; otherwise to the functions confined in that field
  of each recorded type in turn, and what is confined in the field itself is not looked at. The
  recorded types are those found under the low 32 bits of the hash of the type.
\<close>

theorem layer_narrowing_exact:
  "layerFuncs ir st Ty Idx FS1 =
     (let narrow = (\<lambda>FS FS1. if FS1 \<inter> FS = {} then FS1 else FS1 \<inter> FS);
          Hs = sorted_list_of_set (typeTransitMap st (take_bit 32 (typeHash ir (TypeToTNameMap st) Ty)))
      in if Hs = [] then narrow (typeFuncsMap st (typeIdxHash ir (TypeToTNameMap st) Ty Idx)) FS1
         else fold (\<lambda>H. narrow (typeFuncsMap st (hashIdxHash ir H Idx))) Hs FS1)"
  unfolding layerFuncs_result Let_def narrow_def [abs_def] by (rule refl)

text \<open>
  C23: The scan of an initializer is complete. For every constant initializer
  \<open>typeConfineInInitializer\<close> returns true, and enters in \<open>typeFuncsMap\<close>, under the hash of type and
  field number, exactly the functions that stand in a field of that hash in the initializer or
  in a composite nested in it at any depth.
\<close>

theorem typeConfineInInitializer_exact:
  assumes "wf_initializers ir" "Ini \<in> set (heap ir)"
  shows "\<exists>st'. typeConfineInInitializer ir Ini st = Inr (True, st') \<and>
    (\<forall>h F. F \<in> typeFuncsMap st' h \<longleftrightarrow> F \<in> typeFuncsMap st h \<or>
       (\<exists>U \<in> reach_set (nestedInitializers ir) {Ini}. \<exists>i < length (operands ir U).
          operands ir U ! i = F \<and> isa ir FunctionValue F \<and>
          h = typeIdxHash ir (TypeToTNameMap st) (typeOf ir U) (of_nat i)))"
  using typeConfineInInitializer_result [OF assms, of st] unfolding slotFuncs_def by fastforce

text \<open>An operations table: the aggregate 21 holds the function 3 and the aggregate 22, which holds 4.\<close>

definition table_ir :: llvm where
  "table_ir = empty_ir
     \<lparr> isa := (\<lambda>k v. k = FunctionValue \<and> v \<in> {3, 4} \<or> k = UserClass \<and> v \<in> {21, 22}),
       operands := (\<lambda>v. if v = 21 then [3, 22] else if v = 22 then [4] else []),
       typeOf := (\<lambda>v. if v = 21 then 11 else if v = 22 then 12 else NULL),
       isStructTy := (\<lambda>T. T \<in> {11, 12}), heap := [21, 22, 3, 4] \<rparr>"

lemma table_fields:
  "isa table_ir k v = (k = FunctionValue \<and> v \<in> {3, 4} \<or> k = UserClass \<and> v \<in> {21, 22})"
  "operands table_ir v = (if v = 21 then [3, 22] else if v = 22 then [4] else [])"
  "typeOf table_ir v = (if v = 21 then 11 else if v = 22 then 12 else NULL)"
  "isStructTy table_ir T = (T \<in> {11, 12})" "isArrayTy table_ir T = False" "isVectorTy table_ir T = False"
  "heap table_ir = [21, 22, 3, 4]"
  by (simp_all add: table_ir_def empty_ir_def)

lemma table_nested: "nestedInitializers table_ir U = (if U = 21 then {22} else {})"
  by (auto simp: nestedInitializers_def isCompositeType_def table_fields)

lemma table_wf_initializers: "wf_initializers table_ir"
proof -
  have "{(U, Op). U \<in> set (heap table_ir) \<and> Op \<in> nestedInitializers table_ir U} = {(21, 22)}"
    by (auto simp: table_nested table_fields split: if_splits)
  moreover have "acyclic {(21 :: nat, 22)}"
  proof -
    have "acyclic {(a, b). b \<in> (\<lambda>U. if U = 21 then {22 :: nat} else {}) a}"
      by (rule acyclicI_order [where f = "\<lambda>v. - int v"]) (auto split: if_splits)
    then show ?thesis by (rule acyclic_subset) auto
  qed
  ultimately show ?thesis unfolding wf_initializers_def by (simp add: table_nested table_fields)
qed

lemma typeConfineInInitializer_exact_witness:
  "\<exists>st'. typeConfineInInitializer table_ir 21 (newCallGraph newGlobalContext Map.empty) = Inr (True, st') \<and>
     4 \<in> typeFuncsMap st' (typeIdxHash table_ir Map.empty 12 0)"
proof -
  have h: "21 \<in> set (heap table_ir)" by (simp add: table_fields)
  have "21 \<in> reach_set (nestedInitializers table_ir) {21}" by (simp add: reach_set_base)
  then have n: "22 \<in> reach_set (nestedInitializers table_ir) {21}" by (rule reach_set_step) (simp add: table_nested)
  have "operands table_ir 22 = [4]" "isa table_ir FunctionValue 4" "typeOf table_ir 22 = 12"
    by (simp_all add: table_fields)
  then have "\<exists>U \<in> reach_set (nestedInitializers table_ir) {21}. \<exists>i < length (operands table_ir U).
      operands table_ir U ! i = 4 \<and> isa table_ir FunctionValue 4 \<and>
      typeIdxHash table_ir Map.empty 12 0 = typeIdxHash table_ir Map.empty (typeOf table_ir U) (of_nat i)"
    by (intro bexI [OF _ n] exI [of _ 0]) simp
  moreover have "TypeToTNameMap (newCallGraph newGlobalContext Map.empty) = Map.empty" by (simp add: newCallGraph_def)
  ultimately show ?thesis
    using typeConfineInInitializer_exact [OF table_wf_initializers h, of "newCallGraph newGlobalContext Map.empty"]
    by metis
qed

text \<open>
  C38: Where a pointer comes from. \<open>getSourcePointer\<close> returns for every pointer of a module, and
  its result is the end of the chain of loads, casts and address computations the pointer is
  derived by: from there the search cannot move on.
\<close>

theorem getSourcePointer_root:
  assumes "wf_pointers ir" "P \<in> set (heap ir)"
  shows "\<exists>S. getSourcePointer ir P = Inr S \<and>
    (P, S) \<in> {(P, Q). pointerBase ir P = Some Q}\<^sup>* \<and> pointerBase ir S = None"
  by (rule getSourcePointer_end [OF assms])

text \<open>Two fields of one object: \<open>5\<close> and \<open>6\<close> are addresses computed from the \<open>alloca\<close> \<open>4\<close>; the load 8 and the store 9 use them.\<close>

definition alias_ir :: llvm where
  "alias_ir = empty_ir
     \<lparr> isa := (\<lambda>k v. k = AllocaInst \<and> v = 4 \<or> k = GetElementPtrInst \<and> v \<in> {5, 6} \<or>
         k = LoadInst \<and> v = 8 \<or> k = StoreInst \<and> v = 9),
       pointerOperand := (\<lambda>v. if v \<in> {5, 6} then 4 else if v = 8 then 5 else if v = 9 then 6 else NULL),
       insts := (\<lambda>b. if b = 12 then [4, 5, 6, 8, 9] else []), blocks := (\<lambda>F. if F = 10 then [12] else []),
       moduleFunctions := (\<lambda>M. [10]), aliasQuery := (\<lambda>_ _. MayAlias), heap := [4, 5, 6, 8, 9] \<rparr>"

lemma alias_fields:
  "isa alias_ir k v = (k = AllocaInst \<and> v = 4 \<or> k = GetElementPtrInst \<and> v \<in> {5, 6} \<or>
     k = LoadInst \<and> v = 8 \<or> k = StoreInst \<and> v = 9)"
  "pointerOperand alias_ir v = (if v \<in> {5, 6} then 4 else if v = 8 then 5 else if v = 9 then 6 else NULL)"
  "instructions alias_ir F = (if F = 10 then [4, 5, 6, 8, 9] else [])" "blocks alias_ir F = (if F = 10 then [12] else [])"
  "moduleFunctions alias_ir M = [10]" "aliasQuery alias_ir A B = MayAlias" "heap alias_ir = [4, 5, 6, 8, 9]"
  by (simp_all add: alias_ir_def empty_ir_def instructions_def)

lemma alias_base: "pointerBase alias_ir P = (if P \<in> {5, 6} then Some 4 else None)"
  by (simp add: pointerBase_def isPointerSource_def alias_fields)

lemma alias_wf_pointers: "wf_pointers alias_ir"
proof -
  have "acyclic (derivation alias_ir)"
    by (rule acyclicI_order [where f = id]) (auto simp: alias_base split: if_splits)
  then show ?thesis by (auto simp: wf_pointers_def alias_base alias_fields split: if_splits)
qed

lemma getSourcePointer_root_witness: "getSourcePointer alias_ir 5 = Inr 4"
proof -
  have "5 \<in> set (heap alias_ir)" by (simp add: alias_fields)
  from getSourcePointer_root [OF alias_wf_pointers this]
  obtain S where S: "getSourcePointer alias_ir 5 = Inr S" and r: "(5, S) \<in> (derivation alias_ir)\<^sup>*"
    and e: "pointerBase alias_ir S = None" by (elim exE conjE)
  have "S \<in> {4, 5}" using r by (induction rule: rtrancl_induct) (auto simp: alias_base split: if_splits)
  then show ?thesis using S e by (auto simp: alias_base)
qed

text \<open>
  C14: The alias maps are exact. The pointer analysis changes nothing but \<open>FuncPAResults\<close> and
  \<open>FuncAAResults\<close>, which gets the handle of the function's module. In the first, every
  function with a body gets the map of an address it loads from, stores to or passes on to the
  other such addresses that alias it: those the query calls must or partial, and those it calls
  may and that come from the same pointer. A function with more than 1000 addresses gets no
  entry; functions that are not loaded keep theirs.
\<close>

theorem alias_maps_exact:
  assumes "wf_aliasing ir Ms"
  shows "\<exists>ctx'. run (PointerAnalysisPass ir) Ms ctx = Inr ctx' \<and>
    ctx' = ctx\<lparr>FuncPAResults := FuncPAResults ctx', FuncAAResults := FuncAAResults ctx'\<rparr> \<and>
    (\<forall>F. if F \<notin> allFunctions ir Ms \<or> blocks ir F = []
      then FuncPAResults ctx' F = FuncPAResults ctx F \<and> FuncAAResults ctx' F = FuncAAResults ctx F
      else \<exists>M \<in> set Ms. F \<in> set (moduleFunctions ir M) \<and> FuncAAResults ctx' F = Some (aliasResults ir M)) \<and>
    (\<forall>F A. F \<in> allFunctions ir Ms \<and> blocks ir F \<noteq> [] \<longrightarrow>
      (let S = {B \<in> addresses ir F. B \<noteq> A \<and> aliases ir A B}
       in FuncPAResults ctx' F A =
         (if card (addresses ir F) \<le> 1000 \<and> A \<in> addresses ir F \<and> S \<noteq> {} then Some S else None)))"
proof -
  obtain H where r: "run (PointerAnalysisPass ir) Ms ctx =
      Inr (withAliasMaps ir (allFunctions ir Ms) (ctx\<lparr>FuncAAResults := H\<rparr>))"
    and H: "handles_of ir Ms (FuncAAResults ctx) H"
    using PointerAnalysis_run [OF assms, folded allFunctions_def] by blast
  have "if F \<notin> allFunctions ir Ms \<or> blocks ir F = [] then H F = FuncAAResults ctx F
      else \<exists>M \<in> set Ms. F \<in> set (moduleFunctions ir M) \<and> H F = Some (aliasResults ir M)" for F
    using H unfolding handles_of_def allFunctions_def by (auto split: if_splits)
  then show ?thesis
    unfolding r withAliasMaps_def
    by (intro exI [of _ "ctx\<lparr>FuncAAResults := H, FuncPAResults := aliasMapsOver ir (allFunctions ir Ms) (FuncPAResults ctx)\<rparr>"])
       (simp add: aliasMapsOver_def aliasMap_def aliasSet_def Let_def)
qed

lemma alias_addresses: "addresses alias_ir 10 = {5, 6}"
  by (auto simp: addresses_def alias_fields)

lemma alias_wf_aliasing: "wf_aliasing alias_ir [3]"
  using alias_wf_pointers by (simp add: wf_aliasing_def wf_addresses_def alias_fields(5,7) alias_addresses)

lemma alias_same_source: "aliases alias_ir 5 6"
proof -
  have u: "getSourcePointer alias_ir P = (case pointerBase alias_ir P of Some Q \<Rightarrow> getSourcePointer alias_ir Q | None \<Rightarrow> Inr P)" for P
    by (rule getSourcePointer_unfold) (simp add: alias_fields)
  show ?thesis by (simp add: aliases_def alias_fields(6) u [of 5] u [of 6] alias_base)
qed

lemma alias_maps_exact_witness:
  "\<exists>ctx'. run (PointerAnalysisPass alias_ir) [3] newGlobalContext = Inr ctx' \<and> FuncPAResults ctx' 10 5 = Some {6}"
proof -
  have S: "{B \<in> addresses alias_ir 10. B \<noteq> 5 \<and> aliases alias_ir 5 B} = {6}"
    using alias_same_source by (auto simp: alias_addresses)
  have "10 \<in> allFunctions alias_ir [3]" "blocks alias_ir 10 \<noteq> []" by (simp_all add: allFunctions_def alias_fields)
  moreover obtain ctx' where "run (PointerAnalysisPass alias_ir) [3] newGlobalContext = Inr ctx'"
    and m: "\<forall>F A. F \<in> allFunctions alias_ir [3] \<and> blocks alias_ir F \<noteq> [] \<longrightarrow>
      (let S = {B \<in> addresses alias_ir F. B \<noteq> A \<and> aliases alias_ir A B}
       in FuncPAResults ctx' F A =
         (if card (addresses alias_ir F) \<le> 1000 \<and> A \<in> addresses alias_ir F \<and> S \<noteq> {} then Some S else None))"
    using alias_maps_exact [OF alias_wf_aliasing, of newGlobalContext] by (elim exE conjE)
  ultimately have "FuncPAResults ctx' 10 5 =
      (if card (addresses alias_ir 10) \<le> 1000 \<and> 5 \<in> addresses alias_ir 10 \<and> {6} \<noteq> ({} :: nat set) then Some {6} else None)"
    using m [rule_format, of 10 5] by (simp only: Let_def S simp_thms)
  then show ?thesis using \<open>run (PointerAnalysisPass alias_ir) [3] newGlobalContext = Inr ctx'\<close>
    by (simp add: alias_addresses)
qed

text \<open>
  C22: The names of types are a composition. After the type initializer has run over the modules,
  \<open>BuildTypeStructMap\<close> names a type exactly when it had a name already, or a global variable of
  that (unnamed structure) type shares its name with a value that points to a named structure;
  it gets the name of that structure. The first global of a type and the first value of a name
  in program order decide.
\<close>

theorem type_names_composed:
  assumes "wf_pointerTypes ir"
  shows "\<exists>st. run (TypeInitializerPass ir) Ms (newTypeInitializer ctx) = Inr st \<and>
    tiTypeToTNameMap (BuildTypeStructMap st) =
      (map_of (concat (map (valueEntries ir) Ms)) \<circ>\<^sub>m map_of (concat (map (globalEntries ir) Ms))) ++ GlobalTypes ctx \<and>
    tiCtx (BuildTypeStructMap st) = ctx\<lparr>GlobalTypes := tiTypeToTNameMap (BuildTypeStructMap st)\<rparr>"
proof -
  let ?st = "withEntries (concat (map (globalEntries ir) Ms)) (concat (map (valueEntries ir) Ms)) (newTypeInitializer ctx)"
  have "TypeValueMap ?st = map_of (concat (map (globalEntries ir) Ms))"
    and "VnameToTypenameMap ?st = map_of (concat (map (valueEntries ir) Ms))" and "tiCtx ?st = ctx"
    by (simp_all add: withEntries_def newTypeInitializer_def)
  then show ?thesis
    using TypeInitializer_run [OF assms, of Ms "newTypeInitializer ctx"]
      BuildTypeStructMap_compose [of ?st] finite_dom_map_of [of "concat (map (globalEntries ir) Ms)"]
    by (intro exI [of _ ?st]) (simp add: Let_def)
qed

text \<open>A global 3 of the unnamed structure 7, and an instruction that uses it as a \<open>struct ops *\<close>.\<close>

definition types_ir :: llvm where
  "types_ir = empty_ir
     \<lparr> moduleGlobals := (\<lambda>M. [3]), moduleFunctions := (\<lambda>M. [4]), blocks := (\<lambda>F. [5]), insts := (\<lambda>b. [6]),
       operands := (\<lambda>I. if I = 6 then [3] else []), hasName := (\<lambda>v. v = 3), nameOf := (\<lambda>v. ''fops''),
       valueType := (\<lambda>v. 7), typeOf := (\<lambda>v. 9), isPointerTy := (\<lambda>T. T = 9), elementType := (\<lambda>T. 8),
       isStructTy := (\<lambda>T. T \<in> {7, 8}), structHasName := (\<lambda>T. T = 8), structName := (\<lambda>T. ''ops'') \<rparr>"

lemma types_fields:
  "moduleGlobals types_ir M = [3]" "moduleFunctions types_ir M = [4]" "instructions types_ir F = [6]"
  "operands types_ir I = (if I = 6 then [3] else [])" "hasName types_ir v = (v = 3)" "nameOf types_ir v = ''fops''"
  "valueType types_ir v = 7" "typeOf types_ir v = 9" "isPointerTy types_ir T = (T = 9)" "elementType types_ir T = 8"
  "isStructTy types_ir T = (T \<in> {7, 8})" "structHasName types_ir T = (T = 8)" "structName types_ir T = ''ops''"
  "isIntrinsic types_ir F = False"
  by (simp_all add: types_ir_def empty_ir_def instructions_def)

lemma types_wf: "wf_pointerTypes types_ir"
proof -
  have "{(elementType types_ir T, T) |T. strips types_ir T} \<subseteq> measure id" by (auto simp: types_fields)
  then show ?thesis unfolding wf_pointerTypes_def by (rule wf_subset [OF wf_measure])
qed

lemma type_names_composed_witness:
  "\<exists>st. run (TypeInitializerPass types_ir) [1] (newTypeInitializer newGlobalContext) = Inr st \<and>
     tiTypeToTNameMap (BuildTypeStructMap st) 7 = Some ''ops''"
proof -
  have "stripPointers types_ir 9 = Inr 8"
    by (subst stripPointers_unfold, simp add: types_fields) (subst stripPointers_unfold, simp add: types_fields)
  then have "pointee types_ir 9 = 8" by (simp add: pointee_def)
  then have "concat (map (valueEntries types_ir) [1]) = [(''fops'', ''ops'')]"
    "concat (map (globalEntries types_ir) [1]) = [(7, ''fops'')]"
    by (simp_all add: valueEntries_def operandEntries_def globalEntries_def types_fields)
  with type_names_composed [OF types_wf, of "[1]" newGlobalContext]
  show ?thesis by (auto simp: newGlobalContext_def)
qed

text \<open>
  C6: The workflow for security checks is total. Files that cannot be parsed are skipped; if the
  modules of the others form a well-formed program, with nothing assumed of the context, \<open>main\<close>
  with \<open>-sc\<close> returns: the call graph it leaves has callers and callees in agreement, callees among
  the loaded functions and only unified functions kept; the recorded checks are consistent
  and are conditions of two-way branches, switches and selects of their function; they include, for
  every analysed function, the condition of every branch of which one successor leads straight
  to an error-handling call and another does not; and nothing is recorded for a function that is not analysed.
\<close>

theorem security_workflow_returns:
  assumes "program_ok ir (loaded parse inputs)"
  shows "\<exists>ctx. analyzerMain ir files errfile parse True False inputs = Inr (ctx, []) \<and>
    (\<forall>CI F. CI \<in> Callers ctx F \<longleftrightarrow> F \<in> Callees ctx CI) \<and>
    (\<forall>CI. Callees ctx CI \<subseteq> allFunctions ir (loaded parse inputs)) \<and>
    UnifiedFuncSet ctx \<subseteq> allFunctions ir (loaded parse inputs) \<and>
    recorded_ok ctx \<and> (\<forall>F. CheckInstSets ctx F \<subseteq> conditionsOf ir F) \<and>
    (\<forall>F \<in> allFunctions ir (loaded parse inputs). analysed ir ctx F \<longrightarrow> handlingConditions ir files ctx F \<subseteq> CheckInstSets ctx F) \<and>
    (\<forall>F. \<not> analysed ir ctx F \<longrightarrow> SecurityCheckSets ctx F = [])"
proof -
  obtain names where l: "analyzerMain ir files errfile parse True False inputs =
      mainWorkflow ir files errfile True False (startContext (loaded parse inputs) names)"
    using analyzerMain_workflow [of ir files errfile parse True False inputs] by (elim exE)
  obtain ctx reports where "analyzerMain ir files errfile parse True False inputs = Inr (ctx, reports)"
    "graph_built ir (loaded parse inputs) ctx \<and> recorded_ok ctx \<and> reports = [] \<and>
     (\<forall>F. CheckInstSets ctx F \<subseteq> conditionsOf ir F) \<and>
     (\<forall>F \<in> allFunctions ir (loaded parse inputs). analysed ir ctx F \<longrightarrow> handlingConditions ir files ctx F \<subseteq> CheckInstSets ctx F) \<and>
     (\<forall>F. \<not> analysed ir ctx F \<longrightarrow> SecurityCheckSets ctx F = [])"
    using mainWorkflow_sc [OF assms, of files errfile names] unfolding l by (elim returnsE2)
  then show ?thesis unfolding graph_built_def by (intro exI [of _ ctx]) blast
qed

text \<open>Two files are given, one cannot be read; the other is the sample module.\<close>

definition sampleParse :: "string \<Rightarrow> ptr" where
  "sampleParse fname = (if fname = ''flow.bc'' then 200 else NULL)"

lemma sample_loaded: "loaded sampleParse [''none.bc'', ''flow.bc''] = [200]"
  by (simp add: loaded_def sampleParse_def)

lemma security_workflow_returns_witness:
  "\<exists>ctx. analyzerMain flow_ir (\<lambda>_. []) None sampleParse True False [''none.bc'', ''flow.bc''] = Inr (ctx, []) \<and>
     recorded_ok ctx"
  using security_workflow_returns [OF flow_program_ok [folded sample_loaded], of "\<lambda>_. []" None] by blast

text \<open>
  The passes establish what the missing-check pass relies on. With \<open>-mc\<close> the workflow is the
  two stages of the missing-check pass, then the rating, in a context in which the recorded
  callers are calls of the program, the alias sets lie in the program, and the security checks are
  consistent: the hypotheses under which the slicing searches return and are exact.
\<close>

lemma missing_workflow_context:
  assumes "program_ok ir (loaded parse inputs)" "wf_aliasing ir (loaded parse inputs)" "wf_values ir newGlobalContext"
    and "loaded parse inputs \<noteq> []" "length inputs < 2 ^ 31"
  shows "\<exists>ctx. analyzerMain ir files errfile parse False True inputs =
      rbind (twoStages ir ctx newMissingChecks) (\<lambda>st. Inr (ctx, processResults ir st)) \<and>
    wf_values ir ctx \<and> wf_callers ir ctx \<and> recorded_ok ctx \<and> db_ok newMissingChecks \<and>
    (\<forall>F A S. FuncPAResults ctx F A = Some S \<longrightarrow> S \<noteq> {} \<and> A \<notin> S \<and> S \<subseteq> set (heap ir))"
proof -
  let ?Ms = "loaded parse inputs"
  have "length ?Ms \<le> length inputs" unfolding loaded_def by (rule order.trans [OF length_filter_le]) simp
  then have len: "length ?Ms < 2 ^ 31" using assms(5) by (rule le_less_trans)
  obtain names where l: "analyzerMain ir files errfile parse False True inputs =
      mainWorkflow ir files errfile False True (startContext ?Ms names)"
    using analyzerMain_workflow [of ir files errfile parse False True inputs] by (elim exE)
  obtain ctx where c: "analyzerMain ir files errfile parse False True inputs =
      rbind (twoStages ir ctx newMissingChecks) (\<lambda>st. Inr (ctx, processResults ir st))"
    "recorded_ok ctx" "wf_values ir ctx" "wf_callers ir ctx"
    and p: "FuncPAResults ctx = aliasMapsOver ir (allFunctions ir ?Ms) (\<lambda>_. Map.empty)"
    using mainWorkflow_mc [OF assms(1-4) len, of files errfile names] unfolding l by (elim exE conjE)
  have "S \<noteq> {} \<and> A \<notin> S" if "FuncPAResults ctx F A = Some S" for F A S
    using that by (auto simp: p aliasMapsOver_def aliasMap_def aliasSet_def split: if_splits)
  moreover have "S \<subseteq> set (heap ir)" if "FuncPAResults ctx F A = Some S" for F A S
    using c(3) that unfolding wf_values_def by blast
  ultimately show ?thesis using c db_ok_new by (intro exI [of _ ctx]) blast
qed

lemma flow_wf_aliasing: "wf_aliasing flow_ir [200]"
proof -
  have "pointerBase flow_ir P = (if P = 32 then None else None)" for P
    by (simp add: pointerBase_def isPointerSource_def flow_simps flow_classes_def)
  then have "wf_pointers flow_ir" by (auto simp: wf_pointers_def flow_eval acyclic_def)
  moreover have "wf_addresses flow_ir F" if "F \<in> {100, 40, 41}" for F
    using that by (auto simp: wf_addresses_def addresses_def flow_eval)
  ultimately show ?thesis by (simp add: wf_aliasing_def flow_fields look_def)
qed

lemma missing_workflow_context_witness:
  "\<exists>ctx. analyzerMain flow_ir (\<lambda>_. []) None sampleParse False True [''none.bc'', ''flow.bc''] =
      rbind (twoStages flow_ir ctx newMissingChecks) (\<lambda>st. Inr (ctx, processResults flow_ir st)) \<and>
    wf_values flow_ir ctx \<and> wf_callers flow_ir ctx"
proof -
  have w: "wf_values flow_ir newGlobalContext"
    using flow_wf_values unfolding wf_values_def by (simp add: newGlobalContext_def)
  have l: "loaded sampleParse [''none.bc'', ''flow.bc''] \<noteq> []" "length [''none.bc'', ''flow.bc''] < 2 ^ 31"
    by (simp_all add: sample_loaded)
  from missing_workflow_context [OF flow_program_ok [folded sample_loaded] flow_wf_aliasing [folded sample_loaded] w l,
      of "\<lambda>_. []" None]
  show ?thesis by (elim exE conjE) (intro exI conjI)
qed

text \<open>
  C2: The workflow for missing checks is total and exact. Files that cannot be parsed are skipped;
  if the modules of the others form a well-formed program, \<open>main\<close> with \<open>-mc\<close> returns, and its
  reports are the rating of a data base of which every entry is determined by the program: the
  checked sources and uses are those that the security checks of the analysed functions (conditions
  of them, and among these those of every branch on an error-handling path) record, with
  the number of times they are recorded; the totals count the occurrences of these sources and
  uses in the analysed functions; the unchecked counts those on which the slices say no. All
  counters are modulo \<open>2 ^ 32\<close>. \<open>wf_missing\<close> excludes indirect calls that pass more arguments than
  a function of their type has parameters, for which a null pointer is read, and calls that use an
  aliased address of a load and have no argument or more than 128, for which an operand out of range
  is read.
\<close>

theorem missing_workflow_exact:
  assumes "program_ok ir (loaded parse inputs)" "wf_aliasing ir (loaded parse inputs)" "wf_values ir newGlobalContext"
    and "wf_missing ir (loaded parse inputs)" "loaded parse inputs \<noteq> []" "length inputs < 2 ^ 31"
  shows "\<exists>ctx st. analyzerMain ir files errfile parse False True inputs = Inr (ctx, processResults ir st) \<and>
    db_ok st \<and> recorded_ok ctx \<and> graph_built ir (loaded parse inputs) ctx \<and>
    (\<forall>F. CheckInstSets ctx F \<subseteq> conditionsOf ir F) \<and>
    (\<forall>F \<in> allFunctions ir (loaded parse inputs). analysed ir ctx F \<longrightarrow> handlingConditions ir files ctx F \<subseteq> CheckInstSets ctx F) \<and>
    (let S = recordedSources ir ctx (loaded parse inputs); U = recordedUses ir ctx (loaded parse inputs);
         occ = moduleOccurrences ir ctx st (loaded parse inputs)
     in CheckedSrcSet st = set S \<and> CheckedUseSet st = set U \<and>
        (\<forall>k. counter (SrcCheckCount st) k = of_nat (count_list S k) \<and>
           SrcTotalCount st k = of_nat (length (sourceVerdicts k occ)) \<and>
           counter (SrcUncheckCount st) k = of_nat (length (filter Not (sourceVerdicts k occ)))) \<and>
        (\<forall>k. counter (UseCheckCount st) k = of_nat (count_list U k) \<and>
           UseTotalCount st k = of_nat (length (useVerdicts k occ)) \<and>
           counter (UseUncheckCount st) k = of_nat (length (filter Not (useVerdicts k occ)))))"
proof -
  let ?Ms = "loaded parse inputs"
  have "length ?Ms \<le> length inputs" unfolding loaded_def by (rule order.trans [OF length_filter_le]) simp
  then have len: "length ?Ms < 2 ^ 31" using assms(6) by (rule le_less_trans)
  obtain names where l: "analyzerMain ir files errfile parse False True inputs =
      mainWorkflow ir files errfile False True (startContext ?Ms names)"
    using analyzerMain_workflow [of ir files errfile parse False True inputs] by (elim exE)
  obtain ctx st where "analyzerMain ir files errfile parse False True inputs = Inr (ctx, processResults ir st)"
    "db_ok st" "recorded_ok ctx" "graph_built ir ?Ms ctx"
    "\<forall>F. CheckInstSets ctx F \<subseteq> conditionsOf ir F"
    "\<forall>F \<in> allFunctions ir ?Ms. analysed ir ctx F \<longrightarrow> handlingConditions ir files ctx F \<subseteq> CheckInstSets ctx F"
    "tallied (recordedSources ir ctx ?Ms) (recordedUses ir ctx ?Ms) (moduleOccurrences ir ctx st ?Ms) st"
    using mainWorkflow_mc_tallies [OF assms(1-5) len, of files errfile names] unfolding l by (elim returnsE2 conjE exE) simp
  then show ?thesis unfolding tallied_def Let_def by (intro exI [of _ ctx] exI [of _ st] conjI) (elim conjE, assumption)+
qed

lemma flow_wf_missing: "wf_missing flow_ir [200]"
proof -
  have "call_args_fit flow_ir ctx" for ctx
    by (auto simp: call_args_fit_def flow_eval)
  then show ?thesis by (auto simp: wf_missing_def flow_functions conditional_def flow_eval)
qed

lemma missing_workflow_exact_witness:
  "\<exists>ctx st. analyzerMain flow_ir (\<lambda>_. []) None sampleParse False True [''none.bc'', ''flow.bc''] =
      Inr (ctx, processResults flow_ir st) \<and> CheckedSrcSet st = set (recordedSources flow_ir ctx [200])"
proof -
  have w: "wf_values flow_ir newGlobalContext"
    using flow_wf_values unfolding wf_values_def by (simp add: newGlobalContext_def)
  have l: "loaded sampleParse [''none.bc'', ''flow.bc''] \<noteq> []" "length [''none.bc'', ''flow.bc''] < 2 ^ 31"
    by (simp_all add: sample_loaded)
  from missing_workflow_exact [OF flow_program_ok [folded sample_loaded] flow_wf_aliasing [folded sample_loaded] w
      flow_wf_missing [folded sample_loaded] l, of "\<lambda>_. []" None]
  show ?thesis unfolding Let_def sample_loaded by (elim exE conjE) (intro exI conjI)
qed

end
