(* ===== verification/LoopUnrolling.thy ===== *)
theory LoopUnrolling
  imports Analyzer
begin

text \<open>
  \<open>CallGraphPass::unrollLoops\<close>: the back edge of every loop is redirected, so that the body runs
  once. The function is called where \<open>UNROLL_LOOP_ONCE\<close> is defined. It changes the control-flow
  graph, so the successors of a terminator are a state here.
\<close>

type_synonym cfg = "ptr \<Rightarrow> ptr list"  \<comment> \<open>terminator to successors\<close>

text \<open>
  What \<open>DominatorTree\<close> and \<open>LoopInfo\<close> of LLVM say about the function. The loops and the tree are
  computed once, before anything is changed, but \<open>getLoopLatches\<close> looks at the current predecessors of
  the header, and so does \<open>dominates\<close> on an edge at those of its end. \<open>loopLatches\<close> therefore takes the
  graph. \<open>dominatesEdge\<close> is the answer given at the time of the query, whatever was redirected by
  then: the pass asks once for an edge of the header and a latch, so the answers of a run are one
  function. (If a header has two edges to the same block it asks twice, and LLVM says no both times.)
\<close>

record loop_info =
  topLoops :: "ptr list"
  subLoops :: "ptr \<Rightarrow> ptr list"
  loopHeader :: "ptr \<Rightarrow> ptr"
  loopLatches :: "cfg \<Rightarrow> ptr \<Rightarrow> ptr list"
  dominatesEdge :: "ptr \<times> ptr \<Rightarrow> ptr \<Rightarrow> bool"

section \<open>All loops of a function\<close>

definition subLoopStep :: "loop_info \<Rightarrow> ptr list \<times> ptr set \<Rightarrow> (bool \<times> ptr list \<times> ptr set) res" where
  "subLoopStep LI = (\<lambda>(LPL, LPSet).
     case LPL of
       [] \<Rightarrow> Inr (False, LPL, LPSet)
     | LP # LPL \<Rightarrow>
         let (LPSet, LPL) = fold (\<lambda>SubLP (LPSet, LPL). (insert SubLP LPSet, LPL @ [SubLP])) (subLoops LI LP) (LPSet, LPL)
         in Inr (LPL \<noteq> [], LPL, LPSet))"

definition collectLoops :: "loop_info \<Rightarrow> ptr set res" where
  "collectLoops LI =
     foldM (\<lambda>LP LPSet.
         rbind (repeatWhile (\<lambda>c. c) (subLoopStep LI) True ([LP], insert LP LPSet)) (\<lambda>(LPL, LPSet). Inr LPSet))
       (topLoops LI) {}"

section \<open>Redirecting a latch\<close>

definition setSuccessor :: "ptr \<Rightarrow> ptr \<Rightarrow> cfg \<Rightarrow> cfg" where
  "setSuccessor TI SuccB G = G(TI := (G TI)[0 := SuccB])"

definition getSingleSuccessor :: "cfg \<Rightarrow> ptr \<Rightarrow> ptr" where
  "getSingleSuccessor G TI = (case G TI of [S] \<Rightarrow> S | _ \<Rightarrow> NULL)"

text \<open>Case 1: the latch only jumps to the header; it is sent to where the header leaves the loop.\<close>

definition redirectToExit :: "loop_info \<Rightarrow> ptr \<Rightarrow> ptr \<Rightarrow> ptr \<Rightarrow> ptr \<Rightarrow> cfg \<Rightarrow> cfg" where
  "redirectToExit LI HeaderB HeaderTI LatchB TI G =
     fold (\<lambda>sit G.
         let SuccB = G HeaderTI ! sit
         in if dominatesEdge LI (HeaderB, SuccB) LatchB then G else setSuccessor TI SuccB G)
       [0..<length (G HeaderTI)] G"

text \<open>Case 2: the latch has another successor.\<close>

definition redirectToOther :: "ptr \<Rightarrow> ptr \<Rightarrow> cfg \<Rightarrow> cfg" where
  "redirectToOther HeaderB TI G =
     fold (\<lambda>sit G. let SuccB = G TI ! sit in if SuccB = HeaderB then G else setSuccessor TI SuccB G)
       [0..<length (G TI)] G"

definition unrollLatch :: "llvm \<Rightarrow> loop_info \<Rightarrow> ptr \<Rightarrow> ptr \<Rightarrow> cfg \<Rightarrow> cfg" where
  "unrollLatch ir LI HeaderB LatchB G =
     (if HeaderB = NULL \<or> LatchB = NULL then G
      else (let TI = terminator ir LatchB
        in if getSingleSuccessor G TI \<noteq> NULL
           then redirectToExit LI HeaderB (terminator ir HeaderB) LatchB TI G
           else redirectToOther HeaderB TI G))"

definition unrollLoop :: "llvm \<Rightarrow> loop_info \<Rightarrow> ptr \<Rightarrow> cfg \<Rightarrow> cfg" where
  "unrollLoop ir LI LP G =
     (let HeaderB = loopHeader LI LP; LatchBS = loopLatches LI G LP
      in fold (unrollLatch ir LI HeaderB) LatchBS G)"

definition unrollLoops :: "llvm \<Rightarrow> loop_info \<Rightarrow> ptr \<Rightarrow> cfg \<Rightarrow> cfg res" where
  "unrollLoops ir LI F G =
     (if isDeclaration ir F then Inr G
      else rbind (collectLoops LI) (\<lambda>LPSet. Inr (fold (unrollLoop ir LI) (sorted_list_of_set LPSet) G)))"

end
