(* ===== verification/LoopTheorems.thy ===== *)
theory LoopTheorems
  imports LoopUnrolling DriverTheorems "HOL-Library.Multiset"
begin

text \<open>
  Loop unrolling collects every loop of a nest and changes nothing but first successors of
  latches; what it makes of a latch is computed exactly.
\<close>

section \<open>The loops of a nest\<close>

text \<open>Loops nest finitely.\<close>

definition wf_loops :: "loop_info \<Rightarrow> bool" where
  "wf_loops LI \<longleftrightarrow> wf {(SubLP, LP). SubLP \<in> set (subLoops LI LP)}"

abbreviation allLoops :: "loop_info \<Rightarrow> ptr set" where
  "allLoops LI \<equiv> reach_set (\<lambda>LP. set (subLoops LI LP)) (set (topLoops LI))"

lemma fold_subLoops:
  "fold (\<lambda>SubLP (LPSet, LPL). (insert SubLP LPSet, LPL @ [SubLP])) Sub (LPSet, LPL) = (LPSet \<union> set Sub, LPL @ Sub)"
  by (induction Sub arbitrary: LPSet LPL) auto

lemma subLoops_run:
  assumes wf: "wf_loops LI"
  shows "repeatWhile (\<lambda>c. c) (subLoopStep LI) (LPL \<noteq> []) (LPL, LPSet) =
    Inr ([], LPSet \<union> reach_set (\<lambda>LP. set (subLoops LI LP)) (\<Union>LP \<in> set LPL. set (subLoops LI LP)))"
  using wf_mult [OF wf [unfolded wf_loops_def]]
proof (induction "mset LPL" arbitrary: LPL LPSet rule: wf_induct_rule)
  case less
  let ?n = "\<lambda>LP. set (subLoops LI LP)"
  show ?case
  proof (cases LPL)
    case Nil
    then show ?thesis by (subst repeatWhile_unfold) (simp add: reach_set_def)
  next
    case (Cons LP rest)
    let ?q = "rest @ subLoops LI LP"
    have "(mset rest + mset (subLoops LI LP), mset rest + {#LP#}) \<in> mult {(SubLP, LP). SubLP \<in> set (subLoops LI LP)}"
      by (rule one_step_implies_mult) auto
    then have "(mset ?q, mset LPL) \<in> mult {(SubLP, LP). SubLP \<in> set (subLoops LI LP)}" by (simp add: Cons)
    from less [OF this, of "LPSet \<union> ?n LP"]
    have "repeatWhile (\<lambda>c. c) (subLoopStep LI) (?q \<noteq> []) (?q, LPSet \<union> ?n LP) =
        Inr ([], (LPSet \<union> ?n LP) \<union> reach_set ?n (\<Union> (?n ` set ?q)))" .
    moreover have "(LPSet \<union> ?n LP) \<union> reach_set ?n (\<Union> (?n ` set ?q)) = LPSet \<union> reach_set ?n (\<Union> (?n ` set LPL))"
    proof -
      have e: "?n LP \<union> reach_set ?n (\<Union> (?n ` ?n LP)) = reach_set ?n (?n LP)"
      proof
        show "?n LP \<union> reach_set ?n (\<Union> (?n ` ?n LP)) \<subseteq> reach_set ?n (?n LP)"
        proof (intro Un_least)
          show "reach_set ?n (\<Union> (?n ` ?n LP)) \<subseteq> reach_set ?n (?n LP)"
            by (rule reach_set_least) (auto intro: reach_set_base reach_set_step)
        qed (auto intro: reach_set_base)
        show "reach_set ?n (?n LP) \<subseteq> ?n LP \<union> reach_set ?n (\<Union> (?n ` ?n LP))"
          by (rule reach_set_least) (auto intro: reach_set_base reach_set_step)
      qed
      have "reach_set ?n (\<Union> (?n ` set ?q)) = reach_set ?n (\<Union> (?n ` set rest)) \<union> reach_set ?n (\<Union> (?n ` ?n LP))"
        by (simp add: reach_set_Un)
      moreover have "reach_set ?n (\<Union> (?n ` set LPL)) = reach_set ?n (?n LP) \<union> reach_set ?n (\<Union> (?n ` set rest))"
        by (simp add: Cons reach_set_Un)
      ultimately show ?thesis using e by blast
    qed
    ultimately show ?thesis
      unfolding Cons by (subst repeatWhile_unfold) (simp add: subLoopStep_def fold_subLoops)
  qed
qed

lemma collectLoops_all:
  assumes "wf_loops LI"
  shows "collectLoops LI = Inr (allLoops LI)"
proof -
  let ?n = "\<lambda>LP. set (subLoops LI LP)"
  have r: "reach_set ?n {LP} = insert LP (reach_set ?n (?n LP))" for LP
    using reach_set_insert [of ?n LP "{}"] by simp
  have "foldM (\<lambda>LP LPSet. rbind (repeatWhile (\<lambda>c. c) (subLoopStep LI) True ([LP], insert LP LPSet)) (\<lambda>(LPL, LPSet). Inr LPSet))
      LPs S = Inr (S \<union> reach_set ?n (set LPs))" for LPs S
  proof (induction LPs arbitrary: S)
    case Nil
    show ?case by (simp add: reach_set_def)
  next
    case (Cons LP LPs)
    have "reach_set ?n (set (LP # LPs)) = insert LP (reach_set ?n (?n LP)) \<union> reach_set ?n (set LPs)"
      using reach_set_Un [of ?n "{LP}" "set LPs"] r [of LP] by simp
    then show ?case using subLoops_run [OF assms, of "[LP]" "insert LP S"] Cons [of "insert LP S \<union> reach_set ?n (?n LP)"]
      by (simp add: Un_assoc)
  qed
  from this [of "topLoops LI" "{}"] show ?thesis by (simp add: collectLoops_def)
qed

section \<open>Redirecting\<close>

definition redirected :: "ptr \<Rightarrow> ptr list \<Rightarrow> cfg \<Rightarrow> cfg" where
  "redirected TI es G = (if es = [] then G else setSuccessor TI (last es) G)"

lemma redirected_append: "redirected TI (es @ [b]) G = setSuccessor TI b (redirected TI es G)"
  by (simp add: redirected_def setSuccessor_def)

lemma redirected_nth: "0 < n \<Longrightarrow> redirected TI es G T ! n = G T ! n"
  by (simp add: redirected_def setSuccessor_def)

text \<open>Both cases are one loop over successors of a terminator, which may be the one that is changed.\<close>

lemma redirect_fold:
  assumes "n \<le> length (G T)"
  shows "fold (\<lambda>sit G. let SuccB = G T ! sit in if skip SuccB then G else setSuccessor TI SuccB G) [0..<n] G =
    redirected TI (filter (\<lambda>B. \<not> skip B) (take n (G T))) G"
  using assms
proof (induction n)
  case 0
  then show ?case by (simp add: redirected_def)
next
  case (Suc n)
  let ?es = "filter (\<lambda>B. \<not> skip B) (take n (G T))"
  have "redirected TI ?es G T ! n = G T ! n"
    by (cases "n = 0") (simp add: redirected_def, simp add: redirected_nth)
  then show ?case using Suc by (simp add: take_Suc_conv_app_nth redirected_append Let_def)
qed

text \<open>The blocks a latch may be sent to.\<close>

definition exits :: "llvm \<Rightarrow> loop_info \<Rightarrow> ptr \<Rightarrow> cfg \<Rightarrow> ptr \<Rightarrow> ptr list" where
  "exits ir LI H G B =
     (if getSingleSuccessor G (terminator ir B) \<noteq> NULL
      then filter (\<lambda>S. \<not> dominatesEdge LI (H, S) B) (G (terminator ir H))
      else filter (\<lambda>S. S \<noteq> H) (G (terminator ir B)))"

lemma unrollLatch_eq:
  "H \<noteq> NULL \<Longrightarrow> B \<noteq> NULL \<Longrightarrow> unrollLatch ir LI H B G = redirected (terminator ir B) (exits ir LI H G B) G"
  using redirect_fold [of "length (G (terminator ir H))" G "terminator ir H" "\<lambda>S. dominatesEdge LI (H, S) B" "terminator ir B"]
    redirect_fold [of "length (G (terminator ir B))" G "terminator ir B" "\<lambda>S. S = H" "terminator ir B"]
  by (simp add: unrollLatch_def redirectToExit_def redirectToOther_def exits_def Let_def)

lemma redirected_other: "T \<noteq> TI \<Longrightarrow> redirected TI es G T = G T"
  by (simp add: redirected_def setSuccessor_def)

lemma redirected_same: "redirected TI es G TI = (if es = [] then G TI else (G TI)[0 := last es])"
  by (simp add: redirected_def setSuccessor_def)

lemma exits_cong:
  "G' (terminator ir H) = G (terminator ir H) \<Longrightarrow> G' (terminator ir B) = G (terminator ir B) \<Longrightarrow>
   exits ir LI H G' B = exits ir LI H G B"
  by (simp add: exits_def getSingleSuccessor_def)

lemma unrollLatches:
  assumes "H \<noteq> NULL" "NULL \<notin> set Bs" "distinct (map (terminator ir) Bs)" "terminator ir H \<notin> terminator ir ` set Bs"
  shows "fold (unrollLatch ir LI H) Bs G T =
    (case filter (\<lambda>B. terminator ir B = T) Bs of
       [] \<Rightarrow> G T
     | B # _ \<Rightarrow> (let es = exits ir LI H G B in if es = [] then G T else (G T)[0 := last es]))"
  using assms(2-4)
proof (induction Bs arbitrary: G)
  case (Cons B Bs)
  let ?G = "redirected (terminator ir B) (exits ir LI H G B) G"
  have h: "?G (terminator ir H) = G (terminator ir H)" using Cons.prems(3) by (intro redirected_other) simp
  have e: "exits ir LI H ?G C = exits ir LI H G C" if "C \<in> set Bs" for C
  proof (rule exits_cong)
    show "?G (terminator ir C) = G (terminator ir C)"
      using that Cons.prems(2) by (intro redirected_other) (auto simp: image_iff)
  qed (rule h)
  have s: "fold (unrollLatch ir LI H) (B # Bs) G T = fold (unrollLatch ir LI H) Bs ?G T"
    using unrollLatch_eq [OF assms(1), of B] Cons.prems(1) by simp
  note ih = Cons.IH [of ?G]
  show ?case
  proof (cases "terminator ir B = T")
    case True
    then have "terminator ir C \<noteq> T" if "C \<in> set Bs" for C using that Cons.prems(2) by (auto simp: image_iff)
    then have "filter (\<lambda>B. terminator ir B = T) Bs = []" by (simp add: filter_empty_conv)
    then show ?thesis using True Cons.prems ih unfolding s by (simp add: redirected_same [of T] Let_def)
  next
    case False
    then have g: "?G T = G T" by (simp add: redirected_other)
    show ?thesis
    proof (cases "filter (\<lambda>B. terminator ir B = T) Bs")
      case Nil
      then show ?thesis using False Cons.prems ih g unfolding s by simp
    next
      case (Cons C Cs)
      then have "C \<in> set Bs" using filter_is_subset [of "\<lambda>B. terminator ir B = T" Bs] by auto
      then show ?thesis using False Cons.prems ih g e Cons unfolding s by (simp add: Let_def)
    qed
  qed
qed simp

lemma filter_key_unique: "x \<in> set xs \<Longrightarrow> distinct (map f xs) \<Longrightarrow> filter (\<lambda>y. f y = f x) xs = [x]"
proof (induction xs)
  case (Cons a xs)
  show ?case
  proof (cases "x = a")
    case True
    then have "f y \<noteq> f x" if "y \<in> set xs" for y using that Cons.prems(2) by (auto simp: image_iff)
    then show ?thesis using True by (simp add: filter_empty_conv)
  next
    case False
    then have "x \<in> set xs" using Cons.prems(1) by simp
    moreover from this have "f a \<noteq> f x" using Cons.prems(2) by (auto simp: image_iff)
    ultimately show ?thesis using Cons by simp
  qed
qed simp

section \<open>Property\<close>

lemma unrollLoops_fold:
  "wf_loops LI \<Longrightarrow> \<not> isDeclaration ir F \<Longrightarrow>
   unrollLoops ir LI F G = Inr (fold (unrollLoop ir LI) (sorted_list_of_set (allLoops LI)) G)"
  by (simp add: unrollLoops_def collectLoops_all)

text \<open>
  C25: Unrolling a loop. In a function with one loop, the terminator of every latch keeps its
  successors except the first, which becomes the last block the latch may be sent to: a successor
  of the header whose edge does not dominate the latch, where the latch only jumps back, and
  another successor of the latch otherwise. All other terminators are unchanged. Hence the back
  edge of a latch with another successor is gone only if it was the first successor; it stays
  where the condition of a \<open>do\<close> loop is compiled the other way round.
\<close>

theorem unrollLoops_exact:
  fixes ir LI LP
  defines "H \<equiv> loopHeader LI LP"
  assumes "wf_loops LI" "\<not> isDeclaration ir F" "allLoops LI = {LP}" "H \<noteq> NULL"
    and "NULL \<notin> set (loopLatches LI G LP)" "distinct (map (terminator ir) (loopLatches LI G LP))"
    and "terminator ir H \<notin> terminator ir ` set (loopLatches LI G LP)"
  shows "\<exists>G'. unrollLoops ir LI F G = Inr G' \<and>
    (\<forall>T. T \<notin> terminator ir ` set (loopLatches LI G LP) \<longrightarrow> G' T = G T) \<and>
    (\<forall>B \<in> set (loopLatches LI G LP). let T = terminator ir B; es = exits ir LI H G B
       in G' T = (if es = [] then G T else (G T)[0 := last es]) \<and>
          (1 < length (G T) \<and> (\<exists>S \<in> set (G T). S \<noteq> H) \<longrightarrow> (H \<in> set (G' T) \<longleftrightarrow> H \<in> set (tl (G T)))))"
proof -
  let ?Bs = "loopLatches LI G LP" and ?G = "unrollLoop ir LI LP G"
  have G: "unrollLoops ir LI F G = Inr ?G" using unrollLoops_fold [OF assms(2,3)] assms(4) by simp
  have r: "?G T = (case filter (\<lambda>B. terminator ir B = T) ?Bs of [] \<Rightarrow> G T
      | B # _ \<Rightarrow> (let es = exits ir LI H G B in if es = [] then G T else (G T)[0 := last es]))" for T
    using unrollLatches [OF assms(5-8), of LI G T] by (simp add: unrollLoop_def H_def)
  have B: "?G (terminator ir B) = (let es = exits ir LI H G B in if es = [] then G (terminator ir B)
      else (G (terminator ir B))[0 := last es])" if "B \<in> set ?Bs" for B
  proof -
    have "filter (\<lambda>C. terminator ir C = terminator ir B) ?Bs = [B]"
      using that assms(7) by (rule filter_key_unique)
    then show ?thesis using r [of "terminator ir B"] by simp
  qed
  have header: "H \<in> set (?G (terminator ir B)) \<longleftrightarrow> H \<in> set (tl (G (terminator ir B)))"
    if "B \<in> set ?Bs" and len: "1 < length (G (terminator ir B))" and S: "\<exists>S \<in> set (G (terminator ir B)). S \<noteq> H" for B
  proof -
    obtain g h gs where g: "G (terminator ir B) = g # h # gs" using len
      by (cases "G (terminator ir B)"; cases "tl (G (terminator ir B))") auto
    then have e: "exits ir LI H G B = filter (\<lambda>S. S \<noteq> H) (g # h # gs)" by (simp add: exits_def getSingleSuccessor_def)
    have n: "exits ir LI H G B \<noteq> []" using S unfolding e g filter_empty_conv by blast
    then have "last (exits ir LI H G B) \<in> set (filter (\<lambda>S. S \<noteq> H) (g # h # gs))" unfolding e by (rule last_in_set)
    then have "last (exits ir LI H G B) \<noteq> H" unfolding set_filter by blast
    then show ?thesis using B [OF that(1)] n by (simp add: Let_def g)
  qed
  have o: "?G T = G T" if "T \<notin> terminator ir ` set ?Bs" for T
  proof -
    have "filter (\<lambda>B. terminator ir B = T) ?Bs = []" using that by (auto simp: filter_empty_conv)
    then show ?thesis by (simp add: r)
  qed
  have "let T = terminator ir B; es = exits ir LI H G B
      in ?G T = (if es = [] then G T else (G T)[0 := last es]) \<and>
         (1 < length (G T) \<and> (\<exists>S \<in> set (G T). S \<noteq> H) \<longrightarrow> (H \<in> set (?G T) \<longleftrightarrow> H \<in> set (tl (G T))))"
    if "B \<in> set ?Bs" for B
    using B [OF that] header [OF that] unfolding Let_def by blast
  then show ?thesis using G o by (intro exI [of _ ?G] conjI allI impI ballI)
qed

text \<open>A \<open>do\<close> loop with the header 10 and the latch 11, which leaves the loop with its first successor.\<close>

definition do_ir :: llvm where
  "do_ir = empty_ir\<lparr>terminator := (\<lambda>b. b + 10), isDeclaration := (\<lambda>_. False)\<rparr>"

definition do_loop :: loop_info where
  "do_loop = \<lparr> topLoops = [5], subLoops = (\<lambda>_. []), loopHeader = (\<lambda>_. 10), loopLatches = (\<lambda>_ _. [11]),
     dominatesEdge = (\<lambda>_ _. False) \<rparr>"

lemma unrollLoops_exact_witness:
  "\<exists>G'. unrollLoops do_ir do_loop 3 ((\<lambda>_. [])(20 := [11], 21 := [12, 10])) = Inr G' \<and> 10 \<in> set (G' 21)"
proof -
  let ?G = "(\<lambda>_. [])(20 := [11], 21 := [12, 10 :: ptr])"
  have w: "wf_loops do_loop" "\<not> isDeclaration do_ir 3" "loopHeader do_loop 5 \<noteq> NULL"
    "NULL \<notin> set (loopLatches do_loop ?G 5)" "distinct (map (terminator do_ir) (loopLatches do_loop ?G 5))"
    "terminator do_ir (loopHeader do_loop 5) \<notin> terminator do_ir ` set (loopLatches do_loop ?G 5)"
    and f: "loopLatches do_loop ?G 5 = [11]" "terminator do_ir 11 = 21" "loopHeader do_loop 5 = 10"
    by (simp_all add: wf_loops_def do_loop_def do_ir_def)
  have "allLoops do_loop = {5}"
    using reach_set_unfold [of "\<lambda>LP. set (subLoops do_loop LP)" 5] by (simp add: do_loop_def)
  from unrollLoops_exact [OF w(1,2) this w(3-6)]
  obtain G' where u: "unrollLoops do_ir do_loop 3 ?G = Inr G'"
    and b: "\<forall>B \<in> set (loopLatches do_loop ?G 5). let T = terminator do_ir B; es = exits do_ir do_loop (loopHeader do_loop 5) ?G B
       in G' T = (if es = [] then ?G T else (?G T)[0 := last es]) \<and>
          (1 < length (?G T) \<and> (\<exists>S \<in> set (?G T). S \<noteq> loopHeader do_loop 5) \<longrightarrow>
            (loopHeader do_loop 5 \<in> set (G' T) \<longleftrightarrow> loopHeader do_loop 5 \<in> set (tl (?G T))))"
    by (elim exE conjE)
  have "10 \<in> set (G' 21)" using bspec [OF b, of 11] unfolding f Let_def by simp
  then show ?thesis using u by (intro exI [of _ G'] conjI)
qed

end
