(* ===== verification/SourceText.thy ===== *)
theory SourceText
  imports CrixCommon SecurityEdges
begin

text \<open>
  The text functions of \<open>Common.cc\<close> and \<open>SecurityChecks.cc\<close>: the macro a source line uses
  (\<open>extractMacro\<close>, \<open>getMacroInfo\<close>), the printed source code of a value or function and the printed
  edge flags, and the helper classes of \<open>Common.h\<close>. Printing to \<open>OP\<close> is the printed string. The
  regular expressions of \<open>std::regex\<close> are data, matched by a backtracking matcher.
\<close>

section \<open>Regular expressions\<close>

datatype regex = Cls "char \<Rightarrow> bool" | Cat regex regex | Alt regex regex | Star regex

text \<open>
  The lengths of the prefixes a pattern matches, in the order in which the matcher of
  \<open>std::regex\<close> (ECMAScript) tries them: left alternative first, repetition greedy. An iteration
  of a repetition that consumes nothing is given up.
\<close>

function matches :: "regex \<Rightarrow> string \<Rightarrow> nat list" where
  "matches (Cls p) s = (case s of c # _ \<Rightarrow> if p c then [1] else [] | [] \<Rightarrow> [])"
| "matches (Cat r q) s = concat (map (\<lambda>n. map ((+) n) (matches q (drop n s))) (matches r s))"
| "matches (Alt r q) s = matches r s @ matches q s"
| "matches (Star r) s =
     concat (map (\<lambda>n. if 0 < n \<and> n \<le> length s
                      then map ((+) n) (matches (Star r) (drop n s)) else []) (matches r s)) @ [0]"
  by pat_completeness auto

termination by (relation "measures [\<lambda>(r, s). size r, \<lambda>(r, s). length s]") auto

declare matches.simps [simp del]

text \<open>\<open>regex_search\<close>: the leftmost match, as \<open>match[0].length()\<close>.\<close>

fun regex_search :: "regex \<Rightarrow> string \<Rightarrow> nat option" where
  "regex_search r s =
     (case matches r s of
        n # _ \<Rightarrow> Some n
      | [] \<Rightarrow> (case s of [] \<Rightarrow> None | c # cs \<Rightarrow> regex_search r cs))"

declare regex_search.simps [simp del]

abbreviation Plus :: "regex \<Rightarrow> regex" where "Plus r \<equiv> Cat r (Star r)"

primrec Lit :: "char \<Rightarrow> string \<Rightarrow> regex" where
  "Lit c [] = Cls (\<lambda>x. x = c)"
| "Lit c (d # ds) = Cat (Cls (\<lambda>x. x = c)) (Lit d ds)"

section \<open>The patterns\<close>

definition isUpper :: "char \<Rightarrow> bool" where
  "isUpper c \<longleftrightarrow> c = CHR ''_'' \<or> 65 \<le> (of_char c :: nat) \<and> (of_char c :: nat) \<le> 90"

definition isUpperDigit :: "char \<Rightarrow> bool" where
  "isUpperDigit c \<longleftrightarrow> isUpper c \<or> 48 \<le> (of_char c :: nat) \<and> (of_char c :: nat) \<le> 57"

definition isSpace :: "char \<Rightarrow> bool" where
  "isSpace c \<longleftrightarrow> c = CHR '' '' \<or> 9 \<le> (of_char c :: nat) \<and> (of_char c :: nat) \<le> 13"

definition endsMacro :: "char \<Rightarrow> bool" where
  "endsMacro c \<longleftrightarrow> c = CHR '')'' \<or> c = CHR '';'' \<or> c = CHR '',''"

text \<open>\<open>[^\(][_A-Z][_A-Z0-9]+[\);,]+\<close>, \<open>[_A-Z][_A-Z0-9]{2,}\<close> and \<open>(\s*)(for|if|while)(\s*)(\()\<close>.\<close>

definition caps :: regex where
  "caps = Cat (Cls (\<lambda>c. c \<noteq> CHR ''('')) (Cat (Cls isUpper) (Cat (Plus (Cls isUpperDigit)) (Plus (Cls endsMacro))))"

definition funcCaps :: regex where
  "funcCaps = Cat (Cls isUpper) (Cat (Cls isUpperDigit) (Plus (Cls isUpperDigit)))"

definition keywordPrefix :: regex where
  "keywordPrefix = Cat (Star (Cls isSpace))
     (Cat (Alt (Lit CHR ''f'' ''or'') (Alt (Lit CHR ''i'' ''f'') (Lit CHR ''w'' ''hile'')))
       (Cat (Star (Cls isSpace)) (Cls (\<lambda>c. c = CHR ''(''))))"

section \<open>Macros\<close>

text \<open>\<open>line.find(s) != npos\<close>.\<close>

fun containsString :: "string \<Rightarrow> string \<Rightarrow> bool" where
  "containsString s line \<longleftrightarrow>
     take (length s) line = s \<or> (case line of [] \<Rightarrow> False | _ # cs \<Rightarrow> containsString s cs)"

declare containsString.simps [simp del]

text \<open>\<open>iss >> word\<close>: the words of a line between white space.\<close>

function wordsOf :: "string \<Rightarrow> string list" where
  "wordsOf s =
     (case dropWhile isSpace s of
        [] \<Rightarrow> []
      | c # cs \<Rightarrow> (c # takeWhile (\<lambda>x. \<not> isSpace x) cs) # wordsOf (dropWhile (\<lambda>x. \<not> isSpace x) cs))"
  by pat_completeness auto

termination
proof (relation "measure length", goal_cases)
  case (2 s c cs)
  then have "Suc (length cs) \<le> length s" using length_dropWhile_le [of isSpace s] by simp
  then show ?case using length_dropWhile_le [of "\<lambda>x. \<not> isSpace x" cs] by simp
qed simp

declare wordsOf.simps [simp del]

text \<open>What follows the last equals sign, or the whole line; then up to the next parenthesis.\<close>

definition afterLastEq :: "string \<Rightarrow> string" where
  "afterLastEq line = rev (takeWhile (\<lambda>c. c \<noteq> CHR ''='') (rev line))"

definition extractMacro :: "llvm \<Rightarrow> string \<Rightarrow> ptr \<Rightarrow> string res" where
  "extractMacro ir line I =
     (if isa ir CallInst I then
        rbind (getCalledFuncName ir I) (\<lambda>FnName.
          let line = (case regex_search keywordPrefix line of Some n \<Rightarrow> drop n line | None \<Rightarrow> line)
          in if containsString FnName line
             then Inr (if regex_search funcCaps FnName \<noteq> None then FnName else [])
             else Inr (takeWhile (\<lambda>c. c \<noteq> CHR ''('') (afterLastEq line)))
      else Inr (case filter (\<lambda>word. regex_search caps word \<noteq> None) (wordsOf line) of
          macro # _ \<Rightarrow> macro | [] \<Rightarrow> []))"

text \<open>
  The file name is walked with \<open>strchr\<close>: without a slash the second call reads from the null
  pointer that the first returned; the pointers are not used further.
\<close>

definition getMacroInfo :: "llvm \<Rightarrow> (string \<Rightarrow> string) \<Rightarrow> ptr \<Rightarrow> string res" where
  "getMacroInfo ir files V =
     (if \<not> isa ir Instruction V then Inr []
      else (let Loc = getSourceLocation ir V
        in if Loc = NULL then Inr []
           else if CHR ''/'' \<notin> set (diFilename ir Loc) then Inl NullDeref
           else (let line = stripIndent (getSourceLine files (getFileName ir Loc NULL) (diLine ir Loc))
             in rbind (extractMacro ir line V) (\<lambda>macro.
               Inr (takeWhile (\<lambda>c. \<not> endsMacro c) (stripSpaces macro))))))"

section \<open>Printed text\<close>

definition colour :: "string \<Rightarrow> string" where
  "colour code = CHR 0x1B # ''['' @ code @ ''m''"

text \<open>The line both overloads of \<open>printSourceCodeInfo\<close> print.\<close>

definition codeLine :: "string \<Rightarrow> uint32 \<Rightarrow> string \<Rightarrow> string" where
  "codeLine FN LineNo line =
     '' ['' @ colour ''34'' @ ''Code'' @ colour ''0'' @ ''] '' @ afterFirst CHR ''/'' (afterFirst CHR ''/'' FN) @
     '' +'' @ to_string (uint LineNo) @ '': '' @ colour ''35'' @ stripIndent line @ colour ''0'' @ [CHR 0x0A]"

definition printSourceCodeInfo :: "llvm \<Rightarrow> (string \<Rightarrow> string) \<Rightarrow> ptr \<Rightarrow> string" where
  "printSourceCodeInfo ir files V =
     (if \<not> isa ir Instruction V then []
      else (let Loc = getSourceLocation ir V
        in if Loc = NULL then []
           else codeLine (diFilename ir Loc) (diLine ir Loc)
                  (getSourceLine files (getFileName ir Loc NULL) (diLine ir Loc))))"

definition printFunctionInfo :: "llvm \<Rightarrow> (string \<Rightarrow> string) \<Rightarrow> ptr \<Rightarrow> string" where
  "printFunctionInfo ir files F =
     (let SP = subprogram ir F
      in if SP = NULL then []
         else codeLine (diFilename ir SP) (diLine ir SP)
                (getSourceLine files (getFileName ir NULL SP) (diLine ir SP)))"

text \<open>
  The marked edges, in the order of the map: by terminator, then by successor. \<open>asOperand\<close> is
  LLVM's \<open>printAsOperand\<close> of a block.
\<close>

definition dumpErrEdge :: "llvm \<Rightarrow> (ptr \<Rightarrow> string) \<Rightarrow> edge \<Rightarrow> int32 \<Rightarrow> string" where
  "dumpErrEdge ir asOperand = (\<lambda>(TI, succBB) flag.
     if TI = NULL then
       ''    An errno '' @ (if flag AND Must_Return_Err \<noteq> 0 then ''must'' else ''may'') @ '' be returned.'' @ [CHR 0x0A]
     else ''    '' @ asOperand (getParent ir TI) @ '' -> '' @ asOperand succBB @ '': <'' @
       to_string (sint (flag AND ERR_RETURN_MASK)) @ '', '' @ to_string (sint (flag AND ERR_HANDLE_MASK)) @
       ''>'' @ [CHR 0x0A])"

definition dumpErrEdges :: "llvm \<Rightarrow> (ptr \<Rightarrow> string) \<Rightarrow> edge_err_map \<Rightarrow> string" where
  "dumpErrEdges ir asOperand edgeErrMap =
     concat (map (\<lambda>e. case edgeErrMap e of Some flag \<Rightarrow> dumpErrEdge ir asOperand e flag | None \<Rightarrow> [])
       (List.product (sorted_list_of_set (fst ` dom edgeErrMap)) (sorted_list_of_set (snd ` dom edgeErrMap))))"

section \<open>Helper classes\<close>

text \<open>
  The classes of \<open>Common.h\<close> for use by passes. The \<open>DataLayout\<close> of a module, an opcode name, a value
  number and the printed form of a value are LLVM's, so parameters.
\<close>

record data_layout =
  pointerSizeInBits :: size_t
  pointerSize :: size_t
  typeAllocSize :: "ptr \<Rightarrow> size_t"
  typeSizeInBits :: "ptr \<Rightarrow> size_t"
  elementOffset :: "ptr \<Rightarrow> uint32 \<Rightarrow> size_t"

definition getBits :: size_t where
  "getBits = 8"

definition getPointerWidth :: "data_layout \<Rightarrow> size_t" where
  "getPointerWidth dl = pointerSizeInBits dl"

definition getPointerSize :: "data_layout \<Rightarrow> size_t" where
  "getPointerSize dl = pointerSize dl"

definition getTypeSize :: "data_layout \<Rightarrow> ptr \<Rightarrow> size_t" where
  "getTypeSize dl ty = typeAllocSize dl ty"

definition getTypeWidth :: "data_layout \<Rightarrow> ptr \<Rightarrow> size_t" where
  "getTypeWidth dl ty = typeSizeInBits dl ty"

definition getTypeOffset :: "llvm \<Rightarrow> data_layout \<Rightarrow> ptr \<Rightarrow> uint32 \<Rightarrow> size_t res" where
  "getTypeOffset ir dl type idx = (if isStructTy ir type then Inr (elementOffset dl type idx) else Inl AssertFail)"

definition isReintPointerType :: "llvm \<Rightarrow> data_layout \<Rightarrow> ptr \<Rightarrow> bool" where
  "isReintPointerType ir dl ty \<longleftrightarrow>
     isPointerTy ir ty \<or> isIntegerTy ir ty \<and> integerBitWidth ir ty = unat (getPointerWidth dl)"

definition getValueName :: "llvm \<Rightarrow> ptr \<Rightarrow> string" where
  "getValueName ir v = (if \<not> hasName ir v then to_string (int v) else nameOf ir v)"

definition getValueType :: "llvm \<Rightarrow> (ptr \<Rightarrow> string) \<Rightarrow> (ptr \<Rightarrow> uint32) \<Rightarrow> ptr \<Rightarrow> string" where
  "getValueType ir opcodeName valueID v =
     (if isa ir Instruction v then opcodeName v else ''value '' @ to_string (uint (valueID v)))"

definition convertDotInName :: "string \<Rightarrow> string" where
  "convertDotInName name = map (\<lambda>c. if c = CHR ''.'' then CHR ''_'' else c) name"

text \<open>What a \<open>Dumper\<close> prints.\<close>

definition dumpValueName :: "llvm \<Rightarrow> ptr \<Rightarrow> string" where
  "dumpValueName ir v = getValueName ir v @ [CHR 0x0A]"

definition dumpTypedValue :: "llvm \<Rightarrow> (ptr \<Rightarrow> string) \<Rightarrow> (ptr \<Rightarrow> uint32) \<Rightarrow> (ptr \<Rightarrow> string) \<Rightarrow> ptr \<Rightarrow> string" where
  "dumpTypedValue ir opcodeName valueID valueRepr v =
     ''['' @ getValueType ir opcodeName valueID v @ '']'' @ valueRepr v @ [CHR 0x0A]"

end
