(* ===== verification/SourceTheorems.thy ===== *)
theory SourceTheorems
  imports SourceText
begin

text \<open>
  The matcher of regular expressions finds exactly the words of the language of a pattern, and the
  macro of a source line is described without the matcher.
\<close>

section \<open>The language of a pattern\<close>

inductive_set starOf :: "string set \<Rightarrow> string set" for A where
  starOf_Nil: "[] \<in> starOf A"
| starOf_append: "x \<in> A \<Longrightarrow> y \<in> starOf A \<Longrightarrow> x @ y \<in> starOf A"

primrec lang :: "regex \<Rightarrow> string set" where
  "lang (Cls p) = {[c] |c. p c}"
| "lang (Cat r q) = {x @ y |x y. x \<in> lang r \<and> y \<in> lang q}"
| "lang (Alt r q) = lang r \<union> lang q"
| "lang (Star r) = starOf (lang r)"

text \<open>A repetition can be taken to consume something in every iteration.\<close>

lemma starOf_nonempty:
  "w \<in> starOf A \<Longrightarrow> w = [] \<or> (\<exists>x y. x \<in> A \<and> x \<noteq> [] \<and> y \<in> starOf A \<and> w = x @ y)"
  by (induction rule: starOf.induct) auto

lemma mem_Cat: "n \<in> set (matches (Cat r q) s) \<longleftrightarrow> (\<exists>k \<in> set (matches r s). \<exists>m \<in> set (matches q (drop k s)). n = k + m)"
  unfolding matches.simps by auto

lemma mem_Star: "n \<in> set (matches (Star r) s) \<longleftrightarrow> n = 0 \<or>
    (\<exists>k \<in> set (matches r s). 0 < k \<and> k \<le> length s \<and> (\<exists>m \<in> set (matches (Star r) (drop k s)). n = k + m))"
  by (subst matches.simps) (auto split: if_splits)

lemma mem_Alt: "n \<in> set (matches (Alt r q) s) \<longleftrightarrow> n \<in> set (matches r s) \<or> n \<in> set (matches q s)"
  unfolding matches.simps by simp

lemma mem_Cls: "n \<in> set (matches (Cls p) s) \<longleftrightarrow> n = 1 \<and> (\<exists>c cs. s = c # cs \<and> p c)"
  unfolding matches.simps by (cases s) auto

theorem matches_lang: "n \<in> set (matches r s) \<longleftrightarrow> n \<le> length s \<and> take n s \<in> lang r"
proof (induction r s arbitrary: n rule: matches.induct)
  case (1 p s)
  have "n \<le> length s \<and> take n s \<in> lang (Cls p) \<longleftrightarrow> (\<exists>c. n \<le> length s \<and> take n s = [c] \<and> p c)" by auto
  also have "\<dots> \<longleftrightarrow> n = 1 \<and> (\<exists>c cs. s = c # cs \<and> p c)"
    by (cases s; cases n) (auto simp: take_eq_Nil)
  finally show ?case by (simp only: mem_Cls)
next
  case (2 r q s)
  show ?case
  proof
    assume "n \<in> set (matches (Cat r q) s)"
    then obtain k m where k: "k \<in> set (matches r s)" and m: "m \<in> set (matches q (drop k s))" and n: "n = k + m"
      unfolding mem_Cat by blast
    have "k \<le> length s \<and> take k s \<in> lang r" using k 2(1) by blast
    moreover have "m \<le> length (drop k s) \<and> take m (drop k s) \<in> lang q" using m 2(2) [OF k] by blast
    ultimately show "n \<le> length s \<and> take n s \<in> lang (Cat r q)" unfolding n take_add by auto
  next
    assume "n \<le> length s \<and> take n s \<in> lang (Cat r q)"
    then obtain x y where xy: "take n s = x @ y" "x \<in> lang r" "y \<in> lang q" and n: "n \<le> length s" by auto
    have l: "length x + length y = n" using arg_cong [OF xy(1), of length] n by simp
    have s: "s = x @ y @ drop n s" using xy(1) append_take_drop_id [of n s] by simp
    have t: "take (length x) s = x" "take (length y) (drop (length x) s) = y" by (subst s, simp)+
    have k: "length x \<le> length s" "length y \<le> length (drop (length x) s)" using l n by simp_all
    have "length x \<in> set (matches r s)" using 2(1) xy(2) t(1) k(1) by simp
    moreover from this have "length y \<in> set (matches q (drop (length x) s))"
      using 2(2) [of "length x"] t(2) k(2) xy(3) by simp
    ultimately show "n \<in> set (matches (Cat r q) s)" unfolding mem_Cat using l by blast
  qed
next
  case (3 r q s)
  then show ?case unfolding mem_Alt by auto
next
  case (4 r s)
  show ?case
  proof
    assume "n \<in> set (matches (Star r) s)"
    from mem_Star [THEN iffD1, OF this] consider "n = 0" | k m where "k \<in> set (matches r s)" "0 < k" "k \<le> length s"
        "m \<in> set (matches (Star r) (drop k s))" "n = k + m"
      by blast
    then show "n \<le> length s \<and> take n s \<in> lang (Star r)"
    proof cases
      case 1
      then show ?thesis by (simp add: starOf_Nil)
    next
      case 2
      have "take k s \<in> lang r" using 4(1) 2(1) by blast
      moreover have "m \<le> length (drop k s) \<and> take m (drop k s) \<in> lang (Star r)"
        using 4(2) [OF 2(1)] 2(2-4) by blast
      ultimately show ?thesis using 2(3,5) by (auto simp: take_add intro: starOf_append)
    qed
  next
    assume n: "n \<le> length s \<and> take n s \<in> lang (Star r)"
    show "n \<in> set (matches (Star r) s)"
    proof (cases "n = 0")
      case False
      then have "take n s \<noteq> []" using n by auto
      then obtain x y where xy: "take n s = x @ y" "x \<in> lang r" "x \<noteq> []" "y \<in> starOf (lang r)"
        using n starOf_nonempty [of "take n s" "lang r"] by auto
      have l: "length x + length y = n" using arg_cong [OF xy(1), of length] n by simp
      have s: "s = x @ y @ drop n s" using xy(1) append_take_drop_id [of n s] by simp
      have t: "take (length x) s = x" "take (length y) (drop (length x) s) = y" by (subst s, simp)+
      have k: "0 < length x" "length x \<le> length s" "length y \<le> length (drop (length x) s)" using xy(3) l conjunct1 [OF n] by simp_all
      have m: "length x \<in> set (matches r s)" using 4(1) t(1) k(2) xy(2) by simp
      have "length y \<in> set (matches (Star r) (drop (length x) s))"
        using 4(2) [OF m] k t(2) xy(4) by simp
      then show ?thesis using m k l by (intro mem_Star [THEN iffD2]) blast
    qed (intro mem_Star [THEN iffD2] disjI1)
  qed
qed

lemma prefix_length_iff: "(\<exists>n. n \<le> length s \<and> take n s \<in> A) \<longleftrightarrow> (\<exists>b c. s = b @ c \<and> b \<in> A)"
proof
  assume "\<exists>n. n \<le> length s \<and> take n s \<in> A"
  then obtain n where "take n s \<in> A" by blast
  then show "\<exists>b c. s = b @ c \<and> b \<in> A" by (intro exI [of _ "take n s"] exI [of _ "drop n s"]) simp
next
  assume "\<exists>b c. s = b @ c \<and> b \<in> A"
  then obtain b c where "s = b @ c" "b \<in> A" by blast
  then show "\<exists>n. n \<le> length s \<and> take n s \<in> A" by (intro exI [of _ "length b"]) simp
qed

lemma infix_Cons_iff: "(\<exists>b c. x # s = b @ c \<and> b \<in> A) \<or> (\<exists>a b c. s = a @ b @ c \<and> b \<in> A) \<longleftrightarrow>
    (\<exists>a b c. x # s = a @ b @ c \<and> b \<in> A)" (is "?L \<longleftrightarrow> ?R")
proof
  assume ?L
  then show ?R
  proof
    assume "\<exists>b c. x # s = b @ c \<and> b \<in> A"
    then obtain b c where "x # s = [] @ b @ c" "b \<in> A" by auto
    then show ?R by blast
  next
    assume "\<exists>a b c. s = a @ b @ c \<and> b \<in> A"
    then obtain a b c where "x # s = (x # a) @ b @ c" "b \<in> A" by auto
    then show ?R by blast
  qed
next
  assume ?R
  then obtain a b c where abc: "x # s = a @ b @ c" "b \<in> A" by blast
  then show ?L by (cases a) auto
qed

lemma regex_search_iff: "regex_search r s \<noteq> None \<longleftrightarrow> (\<exists>a b c. s = a @ b @ c \<and> b \<in> lang r)"
proof (induction s)
  case Nil
  have "regex_search r [] \<noteq> None \<longleftrightarrow> (\<exists>n. n \<in> set (matches r []))"
    by (subst regex_search.simps) (cases "matches r []", auto)
  also have "\<dots> \<longleftrightarrow> (\<exists>n. n \<le> length ([] :: string) \<and> take n [] \<in> lang r)" by (simp only: matches_lang)
  finally show ?case by auto
next
  case (Cons x s)
  have m: "matches r (x # s) \<noteq> [] \<longleftrightarrow> (\<exists>b c. x # s = b @ c \<and> b \<in> lang r)"
  proof -
    have "matches r (x # s) \<noteq> [] \<longleftrightarrow> (\<exists>n. n \<in> set (matches r (x # s)))" by (cases "matches r (x # s)") auto
    also have "\<dots> \<longleftrightarrow> (\<exists>n. n \<le> length (x # s) \<and> take n (x # s) \<in> lang r)" by (simp only: matches_lang)
    also have "\<dots> \<longleftrightarrow> (\<exists>b c. x # s = b @ c \<and> b \<in> lang r)" by (rule prefix_length_iff)
    finally show ?thesis .
  qed
  have "regex_search r (x # s) \<noteq> None \<longleftrightarrow> matches r (x # s) \<noteq> [] \<or> regex_search r s \<noteq> None"
    by (subst regex_search.simps) (cases "matches r (x # s)", auto)
  also have "\<dots> \<longleftrightarrow> (\<exists>a b c. x # s = a @ b @ c \<and> b \<in> lang r)"
    unfolding m Cons.IH by (rule infix_Cons_iff)
  finally show ?case .
qed

section \<open>The macro of a line\<close>

lemma starOf_Cls: "w \<in> starOf {[c] |c. p c} \<longleftrightarrow> (\<forall>c \<in> set w. p c)"
proof
  show "w \<in> starOf {[c] |c. p c} \<Longrightarrow> \<forall>c \<in> set w. p c" by (induction rule: starOf.induct) auto
next
  show "\<forall>c \<in> set w. p c \<Longrightarrow> w \<in> starOf {[c] |c. p c}"
  proof (induction w)
    case (Cons c w)
    then have "[c] \<in> {[c] |c. p c}" "w \<in> starOf {[c] |c. p c}" by auto
    from starOf_append [OF this] show ?case by simp
  qed (rule starOf_Nil)
qed

lemma lang_Cls_Cat: "w \<in> lang (Cat (Cls p) q) \<longleftrightarrow> (\<exists>c y. w = c # y \<and> p c \<and> y \<in> lang q)"
proof
  assume "w \<in> lang (Cat (Cls p) q)"
  then obtain x y where "w = x @ y" "x \<in> lang (Cls p)" "y \<in> lang q" unfolding lang.simps(2) by blast
  then show "\<exists>c y. w = c # y \<and> p c \<and> y \<in> lang q" by auto
next
  assume "\<exists>c y. w = c # y \<and> p c \<and> y \<in> lang q"
  then obtain c y where "w = [c] @ y" "[c] \<in> lang (Cls p)" "y \<in> lang q" by auto
  then show "w \<in> lang (Cat (Cls p) q)" unfolding lang.simps(2) by blast
qed

lemma lang_Plus_Cls: "w \<in> lang (Plus (Cls p)) \<longleftrightarrow> w \<noteq> [] \<and> (\<forall>c \<in> set w. p c)"
  unfolding lang_Cls_Cat lang.simps(4) lang.simps(1) starOf_Cls by (cases w) auto

lemma lang_caps: "b \<in> lang caps \<longleftrightarrow> (\<exists>c u ms ds. b = c # u # ms @ ds \<and> c \<noteq> CHR ''('' \<and> isUpper u \<and>
    ms \<in> lang (Plus (Cls isUpperDigit)) \<and> ds \<in> lang (Plus (Cls endsMacro)))"
proof -
  have c: "w \<in> lang (Cat (Plus r) q) \<longleftrightarrow> (\<exists>x y. w = x @ y \<and> x \<in> lang (Plus r) \<and> y \<in> lang q)" for w r q
    unfolding lang.simps(2) [of "Plus r"] by blast
  show ?thesis unfolding caps_def lang_Cls_Cat [of _ "\<lambda>c. c \<noteq> CHR ''(''"] lang_Cls_Cat [of _ isUpper] c by blast
qed

text \<open>
  A word names a constant macro: somewhere a character other than an opening parenthesis is
  followed by two or more capitals, digits (not first) or underscores and then by one of \<open>) ; ,\<close>.
\<close>

definition namesMacro :: "string \<Rightarrow> bool" where
  "namesMacro w \<longleftrightarrow> (\<exists>a c u ms d b. w = a @ c # u # ms @ d # b \<and> c \<noteq> CHR ''('' \<and> isUpper u \<and>
     ms \<noteq> [] \<and> (\<forall>m \<in> set ms. isUpperDigit m) \<and> endsMacro d)"

lemma caps_namesMacro: "regex_search caps w \<noteq> None \<longleftrightarrow> namesMacro w"
proof
  assume "regex_search caps w \<noteq> None"
  then obtain a b c where w: "w = a @ b @ c" and b: "b \<in> lang caps" unfolding regex_search_iff by blast
  from b obtain x u ms ds where x: "b = x # u # ms @ ds" "x \<noteq> CHR ''(''" "isUpper u"
    "ms \<in> lang (Plus (Cls isUpperDigit))" "ds \<in> lang (Plus (Cls endsMacro))"
    unfolding lang_caps by blast
  note m = x(4,5) [unfolded lang_Plus_Cls]
  obtain d ds' where d: "ds = d # ds'" "endsMacro d" using m(2) by (cases ds) auto
  have "w = a @ x # u # ms @ d # (ds' @ c)" by (simp add: w x(1) d(1))
  then show "namesMacro w" using x(2,3) m(1) d(2) unfolding namesMacro_def by blast
next
  assume "namesMacro w"
  then obtain a c u ms d b where w: "w = a @ c # u # ms @ d # b" and "c \<noteq> CHR ''(''" "isUpper u"
    "ms \<noteq> [] \<and> (\<forall>m \<in> set ms. isUpperDigit m)" "endsMacro d" unfolding namesMacro_def by blast
  then have "c # u # ms @ [d] \<in> lang caps" unfolding lang_caps lang_Plus_Cls by force
  moreover have "w = a @ (c # u # ms @ [d]) @ b" by (simp add: w)
  ultimately show "regex_search caps w \<noteq> None" unfolding regex_search_iff by blast
qed

lemma wordsOf_noSpace: "w \<in> set (wordsOf s) \<Longrightarrow> c \<in> set w \<Longrightarrow> \<not> isSpace c"
proof (induction s rule: wordsOf.induct)
  case (1 s)
  show ?case
  proof (cases "dropWhile isSpace s")
    case Nil
    then have "wordsOf s = []" by (subst wordsOf.simps) (simp only: list.case)
    then show ?thesis using "1.prems"(1) by simp
  next
    case (Cons d ds)
    have d: "\<not> isSpace d" using hd_dropWhile [of isSpace s] Cons by simp
    have "w = d # takeWhile (\<lambda>x. \<not> isSpace x) ds \<or> w \<in> set (wordsOf (dropWhile (\<lambda>x. \<not> isSpace x) ds))"
      using "1.prems"(1) unfolding wordsOf.simps [of s] Cons by simp
    then show ?thesis using "1.IH" [OF Cons] "1.prems"(2) d by (auto dest: set_takeWhileD)
  qed
qed

lemma stripSpaces_word: "w \<in> set (wordsOf s) \<Longrightarrow> stripSpaces w = w"
  using wordsOf_noSpace [of w s] unfolding stripSpaces_def by (auto simp: filter_id_conv isSpace_def)

text \<open>The macro of a line: the first word that names one, up to the punctuation.\<close>

definition lineMacro :: "string \<Rightarrow> string" where
  "lineMacro line =
     (case filter namesMacro (wordsOf line) of
        w # _ \<Rightarrow> takeWhile (\<lambda>c. \<not> endsMacro c) w | [] \<Rightarrow> [])"

lemma extractMacro_line:
  assumes "\<not> isa ir CallInst I"
  shows "\<exists>macro. extractMacro ir line I = Inr macro \<and>
    takeWhile (\<lambda>c. \<not> endsMacro c) (stripSpaces macro) = lineMacro line"
proof -
  have f: "filter (\<lambda>word. regex_search caps word \<noteq> None) (wordsOf line) = filter namesMacro (wordsOf line)"
    by (simp only: caps_namesMacro)
  show ?thesis
  proof (cases "filter namesMacro (wordsOf line)")
    case Nil
    then show ?thesis using assms by (simp add: extractMacro_def f lineMacro_def stripSpaces_def del: not_None_eq)
  next
    case (Cons w ws)
    then have "w \<in> set (wordsOf line)" using filter_is_subset [of namesMacro "wordsOf line"] by auto
    then show ?thesis
      using assms by (simp add: extractMacro_def f lineMacro_def Cons stripSpaces_word del: not_None_eq)
  qed
qed

section \<open>Property\<close>

text \<open>
  C26: The macro of a source line. For an instruction with a source location that is no call,
  \<open>getMacroInfo\<close> returns the first word of its source line that names a constant macro, up to the
  punctuation, and nothing if no word does; whatever the matcher of regular expressions does on
  the way. A file name without a slash makes it read from a null pointer.
\<close>

theorem getMacroInfo_exact:
  assumes "isa ir Instruction V" "\<not> isa ir CallInst V" "getSourceLocation ir V \<noteq> NULL"
  shows "getMacroInfo ir files V =
    (let Loc = getSourceLocation ir V
     in if CHR ''/'' \<in> set (diFilename ir Loc)
        then Inr (lineMacro (stripIndent (getSourceLine files (getFileName ir Loc NULL) (diLine ir Loc))))
        else Inl NullDeref)"
proof -
  let ?Loc = "getSourceLocation ir V"
  let ?line = "stripIndent (getSourceLine files (getFileName ir ?Loc NULL) (diLine ir ?Loc))"
  obtain macro where "extractMacro ir ?line V = Inr macro"
    "takeWhile (\<lambda>c. \<not> endsMacro c) (stripSpaces macro) = lineMacro ?line"
    using extractMacro_line [OF assms(2), of ?line] by blast
  then show ?thesis using assms by (simp add: getMacroInfo_def Let_def)
qed

text \<open>The store 5 in line 1 of \<open>linux/fs/a.c\<close>.\<close>

definition macro_ir :: llvm where
  "macro_ir = empty_ir
     \<lparr> isa := (\<lambda>k v. k = Instruction \<and> v = 5 \<or> k = DILocation \<and> v = 7), dbgMetadata := (\<lambda>v. 7),
       diFilename := (\<lambda>v. ''linux/fs/a.c''), diLine := (\<lambda>v. 1) \<rparr>"

lemma macro_words: "filter (\<lambda>w. regex_search caps w \<noteq> None) (wordsOf ''x = -EINVAL;'') = [''-EINVAL;'']"
  by code_simp

lemma macro_line: "lineMacro ''x = -EINVAL;'' = ''-EINVAL''"
  using macro_words unfolding caps_namesMacro by (simp add: lineMacro_def endsMacro_def)

lemma getMacroInfo_exact_witness: "getMacroInfo macro_ir (\<lambda>_. ''  x = -EINVAL;'') 5 = Inr ''-EINVAL''"
proof -
  have f: "isa macro_ir Instruction 5" "\<not> isa macro_ir CallInst 5" "getSourceLocation macro_ir 5 = 7"
    "diFilename macro_ir 7 = ''linux/fs/a.c''" "diLine macro_ir 7 = 1"
    by (simp_all add: macro_ir_def empty_ir_def getSourceLocation_def)
  have "stripIndent (getSourceLine (\<lambda>_. ''  x = -EINVAL;'') s 1) = ''x = -EINVAL;''" for s
    by (simp add: getSourceLine_def stripIndent_def)
  then show ?thesis
    using getMacroInfo_exact [of macro_ir 5 "\<lambda>_. ''  x = -EINVAL;''"] f macro_line by simp
qed

end
