(* ===== verification/ConfigTheorems.thy ===== *)
theory ConfigTheorems
  imports Config
begin

text \<open>
  The reader of \<open>configs/err-funcs\<close>: splitting a file into lines and joining the lines are
  inverse, and exactly the names of at least two characters are added to the table.
\<close>

definition joinLines :: "string list \<Rightarrow> string" where
  "joinLines ls = (case ls of [] \<Rightarrow> [] | l # ls \<Rightarrow> l @ concat (map (\<lambda>l. CHR 0x0A # l) ls))"

lemma splitLines_nonempty: "splitLines acc cs \<noteq> []"
  by (induction cs arbitrary: acc) auto

lemma joinLines_Cons: "ls \<noteq> [] \<Longrightarrow> joinLines (l # ls) = l @ CHR 0x0A # joinLines ls"
  by (cases ls) (simp_all add: joinLines_def)

lemma joinLines_split: "joinLines (splitLines acc cs) = rev acc @ cs"
proof (induction cs arbitrary: acc)
  case (Cons c cs)
  then show ?case by (simp add: joinLines_Cons [OF splitLines_nonempty])
qed (simp add: joinLines_def)

lemma splitLines_line: "CHR 0x0A \<notin> set l \<Longrightarrow> splitLines acc (l @ cs) = splitLines (rev l @ acc) cs"
  by (induction l arbitrary: acc) auto

lemma splitLines_join:
  assumes "ls \<noteq> []" "\<forall>l \<in> set ls. CHR 0x0A \<notin> set l"
  shows "splitLines [] (joinLines ls) = ls"
  using assms
proof (induction ls)
  case (Cons l ls)
  show ?case
  proof (cases "ls = []")
    case True
    then show ?thesis using Cons.prems splitLines_line [of l "[]" "[]"] by (simp add: joinLines_def)
  next
    case False
    then show ?thesis using Cons by (simp add: joinLines_Cons splitLines_line)
  qed
qed simp

lemma fold_insert_lines:
  "fold (\<lambda>line S. if length line > 1 then insert line S else S) ls S = S \<union> {l \<in> set ls. 1 < length l}"
  by (induction ls arbitrary: S) auto

lemma fold_insert_all: "fold insert xs S = S \<union> set xs"
  by (induction xs arbitrary: S) auto

lemma SetErrorHandleFuncs_lines:
  "SetErrorHandleFuncs (Some content) S = S \<union> {l \<in> set (splitLines [] content). 1 < length l} \<union> set ErrorHandleFN"
  unfolding SetErrorHandleFuncs_def option.case Let_def fold_insert_lines fold_insert_all by (rule refl)

section \<open>Property\<close>

text \<open>
  C39: The file of error-handling functions round-trips. Writing names without line breaks one
  per line and reading the file adds exactly the names of at least two characters to the built-in
  table, with or without a final line break; and the lines read from any file, joined again,
  are the file.
\<close>

theorem err_funcs_roundtrip:
  assumes "ls \<noteq> []" "\<forall>l \<in> set ls. CHR 0x0A \<notin> set l"
  shows "splitLines [] (joinLines ls) = ls \<and>
    SetErrorHandleFuncs (Some (joinLines ls)) S = S \<union> {l \<in> set ls. 1 < length l} \<union> set ErrorHandleFN \<and>
    SetErrorHandleFuncs (Some (joinLines ls @ [CHR 0x0A])) S = SetErrorHandleFuncs (Some (joinLines ls)) S \<and>
    (\<forall>content. joinLines (splitLines [] content) = content)"
proof -
  have s: "splitLines [] (joinLines ls) = ls" by (rule splitLines_join [OF assms])
  have "joinLines ls @ [CHR 0x0A] = joinLines (ls @ [[]])"
    using assms(1) by (cases ls) (simp_all add: joinLines_def)
  then have "splitLines [] (joinLines ls @ [CHR 0x0A]) = ls @ [[]]"
    using splitLines_join [of "ls @ [[]]"] assms(2) by simp
  then have t: "{l \<in> set (splitLines [] (joinLines ls @ [CHR 0x0A])). 1 < length l} = {l \<in> set ls. 1 < length l}"
    by auto
  show ?thesis
    unfolding SetErrorHandleFuncs_lines s t joinLines_split by (simp only: simp_thms rev.simps append_Nil)
qed

lemma err_funcs_roundtrip_witness:
  "splitLines [] (joinLines [''kill_task'', ''x'', ''die'']) = [''kill_task'', ''x'', ''die''] \<and>
   SetErrorHandleFuncs (Some (joinLines [''kill_task'', ''x'', ''die''])) {} = {''kill_task'', ''die''} \<union> set ErrorHandleFN"
proof -
  let ?ls = "[''kill_task'', ''x'', ''die'']"
  have "\<forall>l \<in> set ?ls. CHR 0x0A \<notin> set l" by simp
  note r = err_funcs_roundtrip [OF list.distinct(2) this, of "{}"]
  have "{l \<in> set ?ls. 1 < length l} = set (filter (\<lambda>l. 1 < length l) ?ls)" by (simp only: set_filter)
  also have "\<dots> = {''kill_task'', ''die''}" by simp
  finally have e: "{l \<in> set ?ls. 1 < length l} = {''kill_task'', ''die''}" .
  show ?thesis using r unfolding e Un_empty_left by (elim conjE) (intro conjI)
qed

end
