(* ===== verification/Spec2Isabelle.thy ===== *)
theory Spec2Isabelle
  imports SecurityProperties MissingProperties GraphProperties LoopTheorems SourceTheorems ConfigTheorems
begin

text \<open>
  A verification library for Crix, a static analysis over LLVM IR that finds missing security
  checks (sources under \<open>src/analyzer/src/lib\<close>).

  \<^bold>\<open>The program.\<close> \<open>main\<close> (\<open>Analyzer.cc\<close>) loads modules and runs passes over them; all passes share one
  \<open>GlobalContext\<close>. \<open>TypeInitializerPass\<close> names structure types, \<open>CallGraphPass\<close> resolves calls,
  \<open>PointerAnalysisPass\<close> computes alias maps, \<open>SecurityChecksPass\<close> finds the conditional statements
  that guard error handling, and \<open>MissingChecksPass\<close> compares, in two stages, how often a source or
  use of a value is checked and how often not, and reports the outliers.

  \<^bold>\<open>Theories and sources.\<close>
  \<^item> \<open>Prelude\<close>: pointers, results (\<open>Inl\<close>: a fault or divergence), \<open>foldM\<close> (a loop over a container),
    \<open>worklist\<close> and \<open>repeatWhile\<close> (loops), the collection of facts on \<open>returns\<close>. \<open>Worklist\<close> and
    \<open>DepthFirst\<close>: the interfaces of the searches, as locales; every search of the program is an
    interpretation of one of them.
  \<^item> \<open>LLVM_IR\<close>: LLVM as a parameter, a record of the accessors the sources call.
  \<^item> \<open>Analyzer\<close> (\<open>Analyzer.h\<close>, \<open>Analyzer.cc\<close>): \<open>gctx\<close> is \<open>GlobalContext\<close>, \<open>run\<close> the driver
    \<open>IterativeModulePass::run\<close>. \<open>DriverTheorems\<close>: its loops. \<open>Workflow\<close>: \<open>main\<close>.
  \<^item> \<open>Config\<close> (\<open>Config.h\<close>), \<open>CrixCommon\<close> (\<open>Common.h\<close>, \<open>Common.cc\<close>): tables, hashes, source locations.
    \<open>SourceText\<close>: the macro a source line uses, the printed text, the helper classes, with \<open>SourceTheorems\<close>.
  \<^item> \<open>TypeInitializer\<close>, \<open>CallGraph\<close>, \<open>PointerAnalysis\<close>: the files of these names; the states are the
    static maps of the passes. Theorems in \<open>TypeTheorems\<close>, \<open>CallGraphTheorems\<close>, \<open>CallGraphRun\<close>,
    \<open>PointerTheorems\<close>. \<open>LoopUnrolling\<close> (\<open>unrollLoops\<close> of \<open>CallGraph.cc\<close>, on a control-flow graph that
    changes), with \<open>LoopTheorems\<close>.
  \<^item> \<open>SecurityFlags\<close>, \<open>SecurityEdges\<close>, \<open>SecurityChecks\<close> (\<open>SecurityChecks.h\<close>, \<open>SecurityChecks.cc\<close>): the error
    flags, the edge marking, the value searches and the pass. Theorems in \<open>EdgeMarking\<close>, \<open>EdgeTheorems\<close>,
    \<open>ErrnoTheorems\<close>, \<open>FlowTheorems\<close>, \<open>CheckTheorems\<close>.
  \<^item> \<open>DataFlow\<close> (\<open>DataFlowAnalysis.cc\<close>), with \<open>DataFlowTheorems\<close> and \<open>BackwardTheorems\<close>.
  \<^item> \<open>MissingChecks\<close>, \<open>MissingChecksPass\<close>, \<open>MissingResults\<close> (\<open>MissingChecks.h\<close>, \<open>MissingChecks.cc\<close>), with
    \<open>MissingTheorems\<close>, \<open>MissingRun\<close>, \<open>MissingSlices\<close>, \<open>RatingTheorems\<close>; \<open>MissingStages\<close> lists what
    stage 1 records, \<open>MissingCounts\<close> what stage 2 counts, \<open>MissingTotality\<close> composes both with the
    passes before them.
  \<^item> \<open>Samples\<close>, \<open>FlowSamples\<close>: two concrete programs on which the properties are instantiated.

  \<^bold>\<open>What is shown.\<close> \<open>SecurityProperties\<close>: every branch on an error-handling path is found, the
  results of \<open>identifySecurityChecks\<close>, \<open>checkErrReturn\<close>, \<open>checkErrHandle\<close> and of the edge markings are
  exact, the pass keeps its sets consistent. \<open>DataFlowProperties\<close>: the searches terminate and visit
  exactly a closure; \<open>performBackwardAnalysis\<close> does not, on cycles. \<open>MissingProperties\<close>: the two
  stages, what one check records, what is counted for a call, what a module pass adds to the data
  base and that it keeps its invariant, and what is reported. \<open>GraphProperties\<close>: the call graph, the narrowing of its indirect
  calls, the alias maps and the type names are exact; the workflow of \<open>main\<close> is total for \<open>-sc\<close> and
  for \<open>-mc\<close>, with every branch on an error-handling path recorded, and for \<open>-mc\<close> every entry of the
  data base that is rated is given by the program. \<open>LoopTheorems\<close>: what unrolling makes of a loop.
  \<open>SourceTheorems\<close>: the matcher of regular expressions is exact. \<open>ConfigTheorems\<close>: the file of function
  names round-trips.

  \<^bold>\<open>Bounds.\<close> Recursions of the program that follow the graph of objects take \<open>search_fuel\<close>, one more
  than the number of objects; running out of it is the result \<open>Inl Diverges\<close>. The properties prove
  that the searches return, so the bound is enough; for \<open>performBackwardAnalysis\<close>, which may
  diverge, the two properties say when. The loops \<open>worklist\<close> and \<open>repeatWhile\<close> have no bound.
  Integers are words of their width; the rating of \<open>processResults\<close> is computed in single
  precision (\<open>float32_div\<close>), for which the properties assume counts below \<open>2 ^ 24\<close>.

  \<^bold>\<open>Hypotheses.\<close> What LLVM documents of its objects is stated as named predicates (\<open>wf_cfg\<close>,
  \<open>wf_classes\<close>, \<open>wf_values\<close>, \<open>wf_initializers\<close>, \<open>wf_layers\<close>, \<open>wf_pointers\<close>, \<open>wf_pointerTypes\<close>,
  \<open>wf_loops\<close>, the first ones collected for a program in \<open>program_ok\<close>); the acyclicity of loads, casts and
  address computations in \<open>wf_layers\<close> and \<open>wf_pointers\<close> is what LLVM promises of reachable code. These
  conditions exclude what LLVM allows and the code reads out of bounds or through a null pointer:
  a call that uses an aliased address of a load has an argument, and at most 128 of them, the range
  of the \<open>int8_t\<close> that counts them (\<open>call_args_fit\<close>); an indirect call passes no more arguments than a
  function of its type has parameters (\<open>wf_indirect\<close>, in \<open>wf_missing\<close> for the program); a fetch or
  copy call has the arguments its table entry names (\<open>table_args\<close>). Every property that assumes one
  is instantiated on a sample program that satisfies it. \<open>std::hash\<close>, the iteration order of pointer
  sets, the alias query with its handle, and the content of source files are parameters.

  \<^bold>\<open>Not modelled.\<close> The parsing of the command line and of IR files (\<open>parseIRFile\<close> is a parameter),
  progress output and \<open>PrintResults\<close>; the body of \<open>findErrorCodes\<close> (\<open>#if 0\<close>); functions with an empty body
  (\<open>findPaths\<close> of \<open>DataFlowAnalysis.cc\<close>, \<open>findParallelPaths\<close> of \<open>MissingChecks.cc\<close>) or declared and not
  defined (\<open>evaluateCheckInstruction\<close> and \<open>findInFuncSourceCV\<close> of \<open>MissingChecksPass\<close>). \<open>unrollLoops\<close> is modelled by itself:
  its call is compiled out, \<open>UNROLL_LOOP_ONCE\<close> is not defined anywhere. Of IEEE arithmetic only
  the quotients and comparisons of the rating are modelled; a quotient by zero, infinity in the
  program, is a number above both limits here.
\<close>

end
